(* ===== verification/Xrp_Prelude.thy ===== *)
theory Xrp_Prelude
  imports Main "HOL-Library.Word" "HOL-Library.Multiset" "HOL-Library.Monad_Syntax"
begin

text \<open>
  Shared vocabulary of the development: the machine integers of the C code, byte blocks and
  arrays with uninitialised slots, the C library's block operations, and the generic lemmas on
  lists and words that the components use.

  Conventions of every theory: a C function that touches memory returns an \<open>option\<close>; \<open>None\<close>
  stands for undefined behaviour (a read or write outside an object, of a freed object, of an
  uninitialised slot, or through a null pointer). A theorem that a function returns \<open>Some\<close> is
  thus a memory-safety theorem. Pointers to heap objects are \<open>addr option\<close> with \<open>None\<close> for NULL.
\<close>

section \<open>Machine types\<close>

type_synonym u8 = "8 word"
type_synonym u16 = "16 word"
type_synonym u32 = "32 word"
type_synonym u64 = "64 word"
type_synonym bytes = "u8 list"
type_synonym addr = nat
type_synonym ptr = "addr option"

named_theorems word_arith \<open>increments and decrements that do not wrap\<close>
named_theorems slot_simps \<open>rules for arrays with uninitialised slots\<close>

lemma unat_inc [word_arith]: "(c :: 'a::len word) \<noteq> - 1 \<Longrightarrow> unat (c + 1) = Suc (unat c)"
  by (metis add.commute add_eq_0_iff unatSuc minus_equation_iff)

lemma unat_dec [word_arith]: "(c :: 'a::len word) \<noteq> 0 \<Longrightarrow> unat (c - 1) = unat c - 1"
  by (rule unat_minus_one)

lemma unat_minus_one_eq: "unat (- 1 :: 'a::len word) = 2 ^ LENGTH('a) - 1"
  by (simp add: unat_eq_nat_uint uint_word_ariths(4) nat_diff_distrib nat_power_eq zmod_minus1)

lemma unat_lt_max [word_arith]:
  "Suc (unat (c :: 'a::len word)) < 2 ^ LENGTH('a) \<Longrightarrow> c \<noteq> - 1"
  by (auto simp: unat_minus_one_eq)

lemma unat_u32_less: "unat (w :: u32) < 2 ^ 32"
  using unsigned_less [of w, where ?'a = nat] by simp

lemma unat_u64_less: "unat (w :: u64) < 2 ^ 64"
  using unsigned_less [of w, where ?'a = nat] by simp

lemma ucast_u32_u64 [simp]: "(ucast (ucast (x :: u32) :: u64) :: u32) = x"
  by (rule bit_word_eqI) (simp add: bit_simps)

lemma sint_word_of_int_eq: "- (2 ^ 31) \<le> l \<Longrightarrow> l < 2 ^ 31 \<Longrightarrow> sint (word_of_int l :: u32) = l"
proof -
  assume "- (2 ^ 31) \<le> l" "l < 2 ^ 31"
  moreover have "sint (word_of_int l :: u32) = signed_take_bit 31 l" by transfer simp
  ultimately show ?thesis by (simp add: signed_take_bit_int_eq_self)
qed

text \<open>The bits of the constants of the queue flags.\<close>

named_theorems flag_bits

lemma bit_4 [flag_bits]: "bit (4 :: int) n \<longleftrightarrow> n = 2"
proof -
  have "(4 :: int) = 2 ^ 2" by simp
  then show ?thesis by (simp only: bit_exp_iff) (auto simp: possible_bit_def)
qed

lemma bit_ff [flag_bits]: "bit (0xff :: int) n \<longleftrightarrow> n < 8"
proof -
  have "(0xff :: int) = mask 8" by (simp add: mask_eq_exp_minus_1)
  then show ?thesis by (simp only: bit_mask_iff) (auto simp: possible_bit_def)
qed

lemma bit_ff00 [flag_bits]: "bit (0xff00 :: int) n \<longleftrightarrow> 8 \<le> n \<and> n < 16"
proof -
  have "(0xff00 :: int) = push_bit 8 0xff" by (simp add: push_bit_eq_mult)
  then show ?thesis by (simp only: bit_push_bit_iff bit_ff) (auto simp: possible_bit_def)
qed

lemma bit_ff04 [flag_bits]: "bit (0xff04 :: int) n \<longleftrightarrow> n = 2 \<or> 8 \<le> n \<and> n < 16"
proof -
  have "(0xff04 :: int) = or 4 0xff00" by simp
  then show ?thesis by (simp only: bit_or_iff bit_4 bit_ff00)
qed

section \<open>Status codes\<close>

text \<open>\<open>enum xrp_status\<close> of \<open>xrp_api.h\<close>.\<close>

datatype xrp_status = XRP_STATUS_SUCCESS | XRP_STATUS_FAILURE | XRP_STATUS_PENDING

section \<open>Byte blocks\<close>

text \<open>
  \<open>memcpy_at data off src n\<close> is \<open>memcpy(data + off, src, n)\<close>: both ranges must lie inside their
  objects.
\<close>

definition memcpy_at :: "bytes \<Rightarrow> nat \<Rightarrow> bytes \<Rightarrow> nat \<Rightarrow> bytes option" where
  "memcpy_at data off src n =
     (if off + n \<le> length data \<and> n \<le> length src
      then Some (take off data @ take n src @ drop (off + n) data) else None)"

lemma memcpy_at_SomeI:
  "off + n \<le> length data \<Longrightarrow> n \<le> length src \<Longrightarrow>
   memcpy_at data off src n = Some (take off data @ take n src @ drop (off + n) data)"
  by (simp add: memcpy_at_def)

text \<open>Reading a block after an overwrite.\<close>

lemma nth_overwrite:
  assumes "w + k \<le> length d" and "k \<le> length src" and "i < length d"
  shows "(take w d @ take k src @ drop (w + k) d) ! i =
         (if w \<le> i \<and> i < w + k then src ! (i - w) else d ! i)"
proof -
  consider "i < w" | j where "i = w + j" "j < k" | j where "i = w + k + j"
    by (metis add.assoc le_add_diff_inverse not_le nat_add_left_cancel_less)
  then show ?thesis using assms by cases (auto simp: nth_append)
qed

text \<open>
  A C string inside a block of bytes: \<open>c_strlen\<close> is the index of the first NUL, and \<open>None\<close> if the
  block holds none (\<open>strlen\<close> would read past the block).
\<close>

fun c_strlen :: "bytes \<Rightarrow> nat option" where
  "c_strlen [] = None"
| "c_strlen (b # bs) = (if b = 0 then Some 0 else map_option Suc (c_strlen bs))"

lemma c_strlen_Some_iff:
  "c_strlen bs = Some n \<longleftrightarrow> n < length bs \<and> bs ! n = 0 \<and> 0 \<notin> set (take n bs)"
proof (induction bs arbitrary: n)
  case (Cons b bs)
  then show ?case by (cases n) auto
qed simp

lemma c_strlen_append_zero [simp]: "0 \<notin> set bs \<Longrightarrow> c_strlen (bs @ 0 # cs) = Some (length bs)"
  by (simp add: c_strlen_Some_iff nth_append)

lemma c_strlen_None_iff: "c_strlen bs = None \<longleftrightarrow> 0 \<notin> set bs"
  by (induction bs) auto

section \<open>Little-endian integers\<close>

primrec le_bytes :: "nat \<Rightarrow> nat \<Rightarrow> bytes" where
  "le_bytes 0 n = []"
| "le_bytes (Suc k) n = of_nat n # le_bytes k (n div 256)"

primrec le_value :: "bytes \<Rightarrow> nat" where
  "le_value [] = 0"
| "le_value (b # bs) = unat b + 256 * le_value bs"

lemma length_le_bytes [simp]: "length (le_bytes k n) = k"
  by (induction k arbitrary: n) simp_all

lemma le_value_bytes: "n < 256 ^ k \<Longrightarrow> le_value (le_bytes k n) = n"
proof (induction k arbitrary: n)
  case (Suc k)
  have "n div 256 < 256 ^ k" using Suc.prems by (simp add: less_mult_imp_div_less mult.commute)
  moreover have "unat (of_nat n :: u8) = n mod 256" by (simp add: unat_of_nat take_bit_eq_mod)
  ultimately show ?case using Suc.IH by simp
qed simp

definition put16 :: "u16 \<Rightarrow> bytes" where
  "put16 x = le_bytes 2 (unat x)"

definition put32 :: "u32 \<Rightarrow> bytes" where
  "put32 x = le_bytes 4 (unat x)"

definition get16 :: "bytes \<Rightarrow> nat \<Rightarrow> u16" where
  "get16 bs off = of_nat (le_value (take 2 (drop off bs)))"

definition get32 :: "bytes \<Rightarrow> nat \<Rightarrow> u32" where
  "get32 bs off = of_nat (le_value (take 4 (drop off bs)))"

lemma length_put [simp]: "length (put16 x) = 2" "length (put32 y) = 4"
  by (simp_all add: put16_def put32_def)

lemma get_put [simp]:
  "get16 (put16 x @ bs) 0 = x" "get32 (put32 y @ bs) 0 = y"
proof -
  have "unat x < 256 ^ 2" "unat y < 256 ^ 4" using unsigned_less [of x, where ?'a = nat] unsigned_less [of y, where ?'a = nat] by simp_all
  then show "get16 (put16 x @ bs) 0 = x" "get32 (put32 y @ bs) 0 = y"
    by (simp_all add: get16_def get32_def put16_def put32_def le_value_bytes)
qed

lemma get_skip:
  "length as \<le> off \<Longrightarrow> get16 (as @ bs) off = get16 bs (off - length as)"
  "length as \<le> off \<Longrightarrow> get32 (as @ bs) off = get32 bs (off - length as)"
  by (simp_all add: get16_def get32_def)

section \<open>Arrays with uninitialised slots\<close>

text \<open>
  A dynamically allocated C array is a list of slots; \<open>None\<close> marks a slot that was never written
  (fresh memory of \<open>malloc\<close> or the tail that \<open>realloc\<close> adds).
\<close>

type_synonym 'a slots = "'a option list"

definition slot_get :: "'a slots \<Rightarrow> nat \<Rightarrow> 'a option" where
  "slot_get xs i = (if i < length xs then xs ! i else None)"

definition slot_set :: "'a slots \<Rightarrow> nat \<Rightarrow> 'a \<Rightarrow> 'a slots option" where
  "slot_set xs i v = (if i < length xs then Some (xs[i := Some v]) else None)"

definition slots_realloc :: "nat \<Rightarrow> 'a slots \<Rightarrow> 'a slots" where
  "slots_realloc n xs = take n xs @ replicate (n - length xs) None"

definition slots_memmove :: "nat \<Rightarrow> nat \<Rightarrow> nat \<Rightarrow> 'a slots \<Rightarrow> 'a slots option" where
  "slots_memmove dst src n xs =
     (if dst + n \<le> length xs \<and> src + n \<le> length xs
      then Some (take dst xs @ take n (drop src xs) @ drop (dst + n) xs) else None)"

text \<open>\<open>holds xs vs\<close>: the array's leading slots hold exactly the values \<open>vs\<close>.\<close>

definition holds :: "'a slots \<Rightarrow> 'a list \<Rightarrow> bool" where
  "holds xs vs \<longleftrightarrow> length vs \<le> length xs \<and> take (length vs) xs = map Some vs"

lemma holds_appendI: "xs = map Some vs @ ys \<Longrightarrow> holds xs vs"
  by (simp add: holds_def)

lemma holds_length: "holds xs vs \<Longrightarrow> length vs \<le> length xs"
  by (simp add: holds_def)

lemma holds_nth [slot_simps]:
  assumes "holds xs vs" and "i < length vs"
  shows "slot_get xs i = Some (vs ! i)"
proof -
  from assms have "xs ! i = take (length vs) xs ! i" by simp
  also from assms have "\<dots> = Some (vs ! i)" by (simp add: holds_def)
  finally show ?thesis using assms by (simp add: slot_get_def holds_def)
qed

lemma holds_Nil [simp]: "holds xs []"
  by (simp add: holds_def)

lemma holds_realloc:
  assumes "holds xs vs" and "length vs \<le> n"
  shows "holds (slots_realloc n xs) vs"
  using assms by (auto simp: holds_def slots_realloc_def min_def)

lemma length_slots_realloc [simp]: "length (slots_realloc n xs) = n"
  by (simp add: slots_realloc_def)

lemma holds_snoc:
  assumes "holds xs vs" and "length vs < length xs"
  shows "holds (xs[length vs := Some v]) (vs @ [v])"
  using assms by (simp add: holds_def take_Suc_conv_app_nth)

lemma holds_update:
  assumes "holds xs vs" and "i < length vs"
  shows "holds (xs[i := Some v]) (vs[i := v])"
  using assms by (simp add: holds_def take_update_swap map_update)

lemma holds_unique: "holds xs vs \<Longrightarrow> holds xs ws \<Longrightarrow> length vs = length ws \<Longrightarrow> vs = ws"
  by (metis holds_def inj_map_eq_map inj_Some)

text \<open>\<open>memmove\<close> by one slot to the right opens a gap at \<open>i\<close>; to the left it closes one.\<close>

lemma holds_open_gap:
  assumes h: "holds xs vs" and i: "i \<le> length vs" and room: "length vs < length xs"
  shows "\<exists>ys. slots_memmove (Suc i) i (length vs - i) xs = Some ys \<and> length ys = length xs \<and>
          holds (ys[i := Some v]) (take i vs @ v # drop i vs)"
proof -
  let ?n = "length vs"
  let ?ys = "take (Suc i) xs @ take (?n - i) (drop i xs) @ drop (Suc ?n) xs"
  have mm: "slots_memmove (Suc i) i (?n - i) xs = Some ?ys"
    using i room by (simp add: slots_memmove_def)
  have pre: "take i xs = map Some (take i vs)"
    using h i by (metis holds_def min.absorb1 take_map take_take)
  have mid: "take (?n - i) (drop i xs) = map Some (drop i vs)"
    using h i by (metis drop_map drop_take holds_def)
  have "?ys[i := Some v] = take i xs @ Some v # map Some (drop i vs) @ drop (Suc ?n) xs"
    using i room by (simp add: mid list_update_append take_Suc_conv_app_nth)
  then have "?ys[i := Some v] = map Some (take i vs @ v # drop i vs) @ drop (Suc ?n) xs"
    by (simp add: pre)
  then have "holds (?ys[i := Some v]) (take i vs @ v # drop i vs)"
    by (rule holds_appendI)
  moreover have "length ?ys = length xs" using i room by simp
  ultimately show ?thesis using mm by blast
qed

lemma holds_close_gap:
  assumes h: "holds xs vs" and i: "i < length vs"
  shows "\<exists>ys. slots_memmove i (Suc i) (length vs - i - 1) xs = Some ys \<and> length ys = length xs \<and>
          holds ys (take i vs @ drop (Suc i) vs)"
proof -
  let ?n = "length vs"
  let ?ys = "take i xs @ take (?n - i - 1) (drop (Suc i) xs) @ drop (i + (?n - i - 1)) xs"
  have len: "?n \<le> length xs" using h by (rule holds_length)
  have mm: "slots_memmove i (Suc i) (?n - i - 1) xs = Some ?ys"
    using i len by (auto simp: slots_memmove_def)
  have pre: "take i xs = map Some (take i vs)"
    using h i by (metis holds_def less_imp_le min.absorb1 take_map take_take)
  have mid: "take (?n - i - 1) (drop (Suc i) xs) = map Some (drop (Suc i) vs)"
    using h i by (metis diff_Suc_eq_diff_pred diff_commute drop_map drop_take holds_def)
  have "?ys = map Some (take i vs @ drop (Suc i) vs) @ drop (i + (?n - i - 1)) xs"
    by (simp only: pre mid map_append append_assoc)
  then have "holds ?ys (take i vs @ drop (Suc i) vs)" by (rule holds_appendI)
  moreover have "length ?ys = length xs" using i len by auto
  ultimately show ?thesis using mm by blast
qed

section \<open>Ordered association lists\<close>

text \<open>Inserting at and deleting from a position of a list, seen through \<open>map_of\<close>.\<close>

lemma map_of_insert_at:
  "k \<notin> dom (map_of xs) \<Longrightarrow> map_of (take p xs @ (k, v) # drop p xs) = (map_of xs)(k \<mapsto> v)"
  by (subst (3) append_take_drop_id [of p xs, symmetric], subst (asm) append_take_drop_id [of p xs, symmetric])
    (auto simp: map_add_def fun_eq_iff simp del: append_take_drop_id split: option.splits)

lemma map_of_delete_at:
  assumes "p < length xs" and "distinct (map fst xs)"
  shows "map_of (take p xs @ drop (Suc p) xs) = (map_of xs)(fst (xs ! p) := None)"
proof -
  have split: "xs = take p xs @ xs ! p # drop (Suc p) xs" using assms(1) by (rule id_take_nth_drop)
  then have "distinct (map fst (take p xs @ xs ! p # drop (Suc p) xs))" using assms(2) by simp
  then have "fst (xs ! p) \<notin> fst ` set (take p xs)" "fst (xs ! p) \<notin> fst ` set (drop (Suc p) xs)"
    by auto
  then have "map_of (take p xs @ drop (Suc p) xs) (fst (xs ! p)) = None"
    by (auto simp: map_of_eq_None_iff)
  moreover have "map_of (take p xs @ drop (Suc p) xs) k = map_of xs k" if "k \<noteq> fst (xs ! p)" for k
    using that by (subst (3) split) (auto simp: map_add_def split: option.splits)
  ultimately show ?thesis by (auto simp: fun_eq_iff)
qed

lemma sorted_insert_at:
  assumes "sorted_wrt (<) (xs :: 'a::linorder list)" and "p \<le> length xs" and "k \<notin> set xs"
    and "\<And>j. j < p \<Longrightarrow> xs ! j < k" and "\<And>j. p \<le> j \<Longrightarrow> j < length xs \<Longrightarrow> k \<le> xs ! j"
  shows "sorted_wrt (<) (take p xs @ k # drop p xs)"
proof -
  have "\<forall>x \<in> set (take p xs). x < k" using assms(2,4) by (auto simp: in_set_conv_nth)
  moreover have "\<forall>x \<in> set (drop p xs). k < x"
  proof
    fix x assume "x \<in> set (drop p xs)"
    then obtain i where "i < length xs - p" "x = xs ! (p + i)" by (auto simp: in_set_conv_nth)
    then have i: "p + i < length xs" "x = xs ! (p + i)" by auto
    then have "k \<le> x" and "x \<in> set xs" using assms(5) [of "p + i"] by auto
    then show "k < x" using assms(3) by (metis le_less)
  qed
  moreover have "sorted_wrt (<) (take p xs @ drop p xs)" using assms(1) by simp
  ultimately show ?thesis by (simp add: sorted_wrt_append del: append_take_drop_id)
qed

end
