(* ===== verification/Ring_Buffer.thy ===== *)
theory Ring_Buffer
  imports Xrp_Prelude
begin

text \<open>
  The shared ring buffer of \<open>xrp-host/inc/xrp_ring_buffer.h\<close> and its writer
  \<open>xrp-common/src/xrp_rb_file.c\<close>. \<open>rb_commit\<close> is the body of \<open>xrp_rb_write_some\<close> after its
  load of \<open>rb->read\<close>, so that the same definition serves the sequential writer and the
  interleaving with a reader that moves \<open>read\<close> between the load and the stores.
  \<open>rb_contents\<close> is the abstraction: the unread bytes in order.
\<close>

section \<open>State and operations\<close>

record xrp_ring_buffer =
  rb_read :: u32
  rb_write :: u32
  rb_size :: u32
  rb_reserved :: u32
  rb_data :: bytes

text \<open>The contiguous room at the write position, computed in 32 bits as the code does.\<close>

definition rb_tail :: "u32 \<Rightarrow> u32 \<Rightarrow> u32 \<Rightarrow> nat" where
  "rb_tail rd wr sz =
     (if rd > wr then unat (rd - 1 - wr)
      else if rd \<noteq> 0 then unat (sz - wr)
      else unat (sz - 1 - wr))"

definition rb_commit ::
  "xrp_ring_buffer \<Rightarrow> u32 \<Rightarrow> bytes \<Rightarrow> nat \<Rightarrow> (xrp_ring_buffer \<times> nat) option" where
  "rb_commit rb rd buf len =
     (let wr = rb_write rb;
          room = rb_tail rd wr (rb_size rb);
          tail = (if len < room then len else room)
      in do {
        d \<leftarrow> memcpy_at (rb_data rb) (unat wr) buf tail;
        let wr' = wr + of_nat tail;
        let wr'' = (if wr' = rb_size rb then 0 else wr');
        Some (rb\<lparr>rb_data := d, rb_write := wr''\<rparr>, tail)
      })"

definition xrp_rb_write_some ::
  "xrp_ring_buffer \<Rightarrow> bytes \<Rightarrow> nat \<Rightarrow> (xrp_ring_buffer \<times> nat) option" where
  "xrp_rb_write_some rb buf len = rb_commit rb (rb_read rb) buf len"

text \<open>The loop of \<open>xrp_rb_write\<close>: every pass that continues has written at least one byte.\<close>

function xrp_rb_write_loop ::
  "xrp_ring_buffer \<Rightarrow> bytes \<Rightarrow> nat \<Rightarrow> nat \<Rightarrow> (xrp_ring_buffer \<times> nat) option" where
  "xrp_rb_write_loop rb p len write_total =
     (if len = 0 then Some (rb, write_total)
      else case xrp_rb_write_some rb p len of
             None \<Rightarrow> None
           | Some (rb', n) \<Rightarrow>
               if n = 0 then Some (rb', write_total)
               else xrp_rb_write_loop rb' (drop n p) (len - n) (write_total + n))"
  by pat_completeness auto
termination
  by (relation "measure (\<lambda>(rb, p, len, t). len)") auto

declare xrp_rb_write_loop.simps [simp del]

definition xrp_rb_write :: "xrp_ring_buffer \<Rightarrow> bytes \<Rightarrow> nat \<Rightarrow> (xrp_ring_buffer \<times> nat) option" where
  "xrp_rb_write rb buf len = xrp_rb_write_loop rb buf len 0"

section \<open>Abstraction and well-formedness\<close>

definition rb_ok :: "xrp_ring_buffer \<Rightarrow> bool" where
  "rb_ok rb \<longleftrightarrow> rb_read rb < rb_size rb \<and> rb_write rb < rb_size rb \<and>
     length (rb_data rb) = unat (rb_size rb)"

text \<open>The bytes from position \<open>r\<close> up to \<open>w\<close> in a ring of \<open>n\<close> bytes.\<close>

definition ring_fill :: "nat \<Rightarrow> nat \<Rightarrow> nat \<Rightarrow> nat" where
  "ring_fill n r w = (w + n - r) mod n"

definition ring_view :: "bytes \<Rightarrow> nat \<Rightarrow> nat \<Rightarrow> nat \<Rightarrow> bytes" where
  "ring_view d n r w = map (\<lambda>i. d ! ((r + i) mod n)) [0..<ring_fill n r w]"

definition rb_view :: "u32 \<Rightarrow> xrp_ring_buffer \<Rightarrow> bytes" where
  "rb_view r rb = ring_view (rb_data rb) (unat (rb_size rb)) (unat r) (unat (rb_write rb))"

definition rb_contents :: "xrp_ring_buffer \<Rightarrow> bytes" where
  "rb_contents rb = rb_view (rb_read rb) rb"

text \<open>One byte of the ring always stays free, to tell a full ring from an empty one.\<close>

definition rb_free :: "xrp_ring_buffer \<Rightarrow> nat" where
  "rb_free rb = unat (rb_size rb) - 1 - length (rb_contents rb)"

definition rb_empty :: "u32 \<Rightarrow> bytes \<Rightarrow> xrp_ring_buffer" where
  "rb_empty sz d = \<lparr>rb_read = 0, rb_write = 0, rb_size = sz, rb_reserved = 0, rb_data = d\<rparr>"

section \<open>Positions in the ring\<close>

lemma ring_fill_cases:
  "r < n \<Longrightarrow> w < n \<Longrightarrow> ring_fill n r w = (if r \<le> w then w - r else w + n - r)"
  by (auto simp: ring_fill_def mod_if)

lemma ring_fill_less: "r < n \<Longrightarrow> w < n \<Longrightarrow> ring_fill n r w < n"
  by (simp add: ring_fill_def)

lemma length_ring_view [simp]: "length (ring_view d n r w) = ring_fill n r w"
  by (simp add: ring_view_def)

lemma nth_ring_view [simp]: "i < ring_fill n r w \<Longrightarrow> ring_view d n r w ! i = d ! ((r + i) mod n)"
  by (simp add: ring_view_def)

lemma mod_once: "(a :: nat) < 2 * n \<Longrightarrow> a mod n = (if a < n then a else a - n)"
  by (simp add: mod_if)

text \<open>The room of the code, over naturals.\<close>

definition ring_room :: "nat \<Rightarrow> nat \<Rightarrow> nat \<Rightarrow> nat" where
  "ring_room n r w = (if w < r then r - 1 - w else if r \<noteq> 0 then n - w else n - 1 - w)"

lemma rb_tail_room:
  assumes "rd < sz" and "wr < sz"
  shows "rb_tail rd wr sz = ring_room (unat sz) (unat rd) (unat wr)"
proof -
  have one: "1 \<le> sz" using assms by (simp add: word_le_nat_alt word_less_nat_alt)
  have "unat (rd - 1 - wr) = unat rd - 1 - unat wr" if "wr < rd"
  proof -
    have "1 \<le> rd" using that by (simp add: word_le_nat_alt word_less_nat_alt)
    moreover have "wr \<le> rd - 1"
      using that \<open>1 \<le> rd\<close> by (simp add: word_le_nat_alt word_less_nat_alt unat_sub)
    ultimately show ?thesis by (simp add: unat_sub)
  qed
  moreover have "unat (sz - wr) = unat sz - unat wr"
    using assms by (simp add: unat_sub less_imp_le)
  moreover have "unat (sz - 1 - wr) = unat sz - 1 - unat wr"
  proof -
    have "wr \<le> sz - 1"
      using assms one by (simp add: word_le_nat_alt word_less_nat_alt unat_sub)
    then show ?thesis using one by (simp add: unat_sub)
  qed
  ultimately show ?thesis
    by (auto simp: rb_tail_def ring_room_def word_less_nat_alt unat_eq_0)
qed

lemma ring_room_fits: "r < n \<Longrightarrow> w < n \<Longrightarrow> w + ring_room n r w \<le> n"
  by (auto simp: ring_room_def)

lemma ring_room_free: "r < n \<Longrightarrow> w < n \<Longrightarrow> ring_room n r w + ring_fill n r w < n"
  by (auto simp: ring_room_def ring_fill_cases)

lemma ring_room_zero: "r < n \<Longrightarrow> w < n \<Longrightarrow> ring_room n r w = 0 \<longleftrightarrow> Suc (ring_fill n r w) = n"
  by (auto simp: ring_room_def ring_fill_cases)

text \<open>Writing inside the room appends to the view, whatever the reader's position was.\<close>

lemma ring_view_append:
  assumes r: "r < n" and w: "w < n" and d: "length d = n"
    and k: "k \<le> ring_room n r w" and src: "k \<le> length src"
  shows "ring_view (take w d @ take k src @ drop (w + k) d) n r (if w + k = n then 0 else w + k)
         = ring_view d n r w @ take k src" (is "ring_view ?d n r ?w = _")
proof (rule nth_equalityI)
  have fits: "w + k \<le> n" using k ring_room_fits [OF r w] by simp
  have fill: "ring_fill n r ?w = ring_fill n r w + k"
    using r w k by (auto simp: ring_fill_cases ring_room_def split: if_splits)
  show "length (ring_view ?d n r ?w) = length (ring_view d n r w @ take k src)"
    using src by (simp add: fill)
  fix i assume "i < length (ring_view ?d n r ?w)"
  then have i: "i < ring_fill n r w + k" by (simp add: fill)
  have at_i: "ring_view ?d n r ?w ! i = ?d ! ((r + i) mod n)"
    using i by (subst nth_ring_view) (simp_all add: fill)
  show "ring_view ?d n r ?w ! i = (ring_view d n r w @ take k src) ! i"
  proof (cases "i < ring_fill n r w")
    case True
    then have pos: "(r + i) mod n < w \<or> w + k \<le> (r + i) mod n" and lt: "(r + i) mod n < length d"
      using r w k d by (auto simp: ring_fill_cases mod_once ring_room_def split: if_splits)
    have "?d ! ((r + i) mod n) = d ! ((r + i) mod n)"
      using pos by (subst nth_overwrite [OF _ src lt]) (auto simp: fits d)
    then show ?thesis unfolding at_i using True by (simp add: nth_append_left)
  next
    case False
    then have pos: "(r + i) mod n = w + (i - ring_fill n r w)" and lt: "(r + i) mod n < length d"
      using r w k i fits d by (auto simp: ring_fill_cases mod_once split: if_splits)
    have "?d ! ((r + i) mod n) = src ! (i - ring_fill n r w)"
      using False i by (subst nth_overwrite [OF _ src lt]) (auto simp: fits d pos)
    then show ?thesis
      unfolding at_i using False i src by (simp add: nth_append_right)
  qed
qed

text \<open>Advancing the reader by \<open>k\<close> unread bytes drops them from the view.\<close>

lemma ring_view_advance:
  assumes "r < n" and "w < n" and "k \<le> ring_fill n r w"
  shows "ring_view d n ((r + k) mod n) w = drop k (ring_view d n r w)"
proof (rule nth_equalityI)
  have fill: "ring_fill n ((r + k) mod n) w = ring_fill n r w - k"
    using assms by (auto simp: ring_fill_cases mod_once split: if_splits)
  then show "length (ring_view d n ((r + k) mod n) w) = length (drop k (ring_view d n r w))"
    by simp
  fix i assume "i < length (ring_view d n ((r + k) mod n) w)"
  then have "i + k < ring_fill n r w" by (simp add: fill)
  then show "ring_view d n ((r + k) mod n) w ! i = drop k (ring_view d n r w) ! i"
    by (subst nth_ring_view, simp add: fill, simp add: mod_simps ac_simps)
qed

section \<open>The writer\<close>

lemma rb_okD:
  assumes "rb_ok rb"
  shows "unat (rb_read rb) < unat (rb_size rb)" and "unat (rb_write rb) < unat (rb_size rb)"
    and "length (rb_data rb) = unat (rb_size rb)"
  using assms by (auto simp: rb_ok_def word_less_nat_alt)

lemma length_rb_contents: "rb_ok rb \<Longrightarrow> length (rb_contents rb) < unat (rb_size rb)"
  by (simp add: rb_contents_def rb_view_def ring_fill_less rb_okD)

lemma rb_empty_ok:
  "0 < sz \<Longrightarrow> length d = unat sz \<Longrightarrow> rb_ok (rb_empty sz d) \<and> rb_contents (rb_empty sz d) = []"
  by (simp add: rb_ok_def rb_empty_def rb_contents_def rb_view_def ring_view_def ring_fill_def)

text \<open>
  The stores of one pass, for any snapshot \<open>rd\<close> of the read index that lies in the ring: they
  succeed, write at most the room and append to the view from that snapshot.
\<close>

lemma rb_commit_ok:
  assumes ok: "rb_ok rb" and rd: "rd < rb_size rb" and src: "len \<le> length buf"
  defines "n \<equiv> min len (rb_tail rd (rb_write rb) (rb_size rb))"
  obtains rb' where "rb_commit rb rd buf len = Some (rb', n)" and "rb_ok rb'"
    and "rb_view rd rb' = rb_view rd rb @ take n buf"
    and "rb_read rb' = rb_read rb" and "rb_size rb' = rb_size rb"
proof -
  let ?w = "unat (rb_write rb)" and ?N = "unat (rb_size rb)"
  let ?W = "if rb_write rb + of_nat n = rb_size rb then 0 else rb_write rb + of_nat n"
  let ?d = "take ?w (rb_data rb) @ take n buf @ drop (?w + n) (rb_data rb)"
  have r: "unat rd < ?N" using rd by (simp add: word_less_nat_alt)
  note w = rb_okD(2) [OF ok] and d = rb_okD(3) [OF ok]
  have room: "n \<le> ring_room ?N (unat rd) ?w"
    using rb_tail_room [OF rd, of "rb_write rb"] ok by (simp add: n_def rb_ok_def)
  then have fits: "?w + n \<le> ?N" using ring_room_fits [OF r w] by simp
  moreover have "?N < 2 ^ 32" by (rule unat_u32_less)
  ultimately have step: "unat (rb_write rb + of_nat n) = ?w + n"
    by (simp add: unat_word_ariths unat_of_nat)
  then have wrap: "rb_write rb + of_nat n = rb_size rb \<longleftrightarrow> ?w + n = ?N"
    by (metis word_unat_eq_iff)
  then have W: "unat ?W = (if ?w + n = ?N then 0 else ?w + n)"
    by (simp add: step)
  have src': "n \<le> length buf" using src by (simp add: n_def)
  have "rb_commit rb rd buf len = Some (rb\<lparr>rb_data := ?d, rb_write := ?W\<rparr>, n)"
    using fits d src'
    by (simp add: rb_commit_def Let_def memcpy_at_SomeI n_def min_def split: if_splits)
  moreover have "rb_ok (rb\<lparr>rb_data := ?d, rb_write := ?W\<rparr>)"
    using ok fits d src' W w by (auto simp: rb_ok_def word_less_nat_alt)
  moreover have "rb_view rd (rb\<lparr>rb_data := ?d, rb_write := ?W\<rparr>) = rb_view rd rb @ take n buf"
    using ring_view_append [OF r w d room src'] by (simp add: rb_view_def W)
  ultimately show thesis by (rule that) simp_all
qed

lemma rb_write_some_ok:
  assumes "rb_ok rb" and "len \<le> length buf"
  defines "n \<equiv> min len (rb_tail (rb_read rb) (rb_write rb) (rb_size rb))"
  obtains rb' where "xrp_rb_write_some rb buf len = Some (rb', n)" and "rb_ok rb'"
    and "rb_contents rb' = rb_contents rb @ take n buf"
    and "rb_read rb' = rb_read rb" and "rb_size rb' = rb_size rb"
proof -
  have rd: "rb_read rb < rb_size rb" using assms(1) by (simp add: rb_ok_def)
  show thesis
  proof (rule rb_commit_ok [OF assms(1) rd assms(2)])
    fix rb'
    assume "rb_commit rb (rb_read rb) buf len =
              Some (rb', min len (rb_tail (rb_read rb) (rb_write rb) (rb_size rb)))"
      and "rb_ok rb'"
      and "rb_view (rb_read rb) rb' = rb_view (rb_read rb) rb @
             take (min len (rb_tail (rb_read rb) (rb_write rb) (rb_size rb))) buf"
      and "rb_read rb' = rb_read rb" and "rb_size rb' = rb_size rb"
    then show thesis
      by (intro that [of rb']) (simp_all only: xrp_rb_write_some_def rb_contents_def n_def)
  qed
qed

lemma rb_room_bounds:
  assumes "rb_ok rb"
  defines "t \<equiv> rb_tail (rb_read rb) (rb_write rb) (rb_size rb)"
  shows "t \<le> rb_free rb" and "t = 0 \<longleftrightarrow> rb_free rb = 0"
proof -
  have t: "t = ring_room (unat (rb_size rb)) (unat (rb_read rb)) (unat (rb_write rb))"
    using assms by (simp add: rb_tail_room rb_ok_def)
  note bounds = rb_okD(1,2) [OF assms(1)]
  show "t \<le> rb_free rb"
    using ring_room_free [OF bounds] by (simp add: t rb_free_def rb_contents_def rb_view_def)
  show "t = 0 \<longleftrightarrow> rb_free rb = 0"
    using ring_room_zero [OF bounds] ring_fill_less [OF bounds]
    by (auto simp: t rb_free_def rb_contents_def rb_view_def)
qed

lemma rb_write_loop_ok:
  assumes "rb_ok rb" and "len \<le> length p"
  shows "\<exists>rb'. xrp_rb_write_loop rb p len t = Some (rb', t + min len (rb_free rb)) \<and>
           rb_ok rb' \<and> rb_contents rb' = rb_contents rb @ take (min len (rb_free rb)) p \<and>
           rb_read rb' = rb_read rb \<and> rb_size rb' = rb_size rb"
  using assms
proof (induction rb p len t rule: xrp_rb_write_loop.induct)
  case (1 rb p len t)
  define n where "n = min len (rb_tail (rb_read rb) (rb_write rb) (rb_size rb))"
  obtain rb1 where some: "xrp_rb_write_some rb p len = Some (rb1, n)" and ok1: "rb_ok rb1"
    and cont1: "rb_contents rb1 = rb_contents rb @ take n p"
    and same1: "rb_read rb1 = rb_read rb" "rb_size rb1 = rb_size rb"
    using rb_write_some_ok [OF "1.prems"] unfolding n_def by blast
  note room = rb_room_bounds [OF "1.prems"(1)]
  note unfold = xrp_rb_write_loop.simps [of rb p len t]
  show ?case
  proof (cases "len = 0 \<or> n = 0")
    case True
    then have "min len (rb_free rb) = 0" using room(2) by (auto simp: n_def)
    moreover have "\<exists>rb'. xrp_rb_write_loop rb p len t = Some (rb', t) \<and> rb_ok rb' \<and>
        rb_contents rb' = rb_contents rb \<and> rb_read rb' = rb_read rb \<and> rb_size rb' = rb_size rb"
      using True some ok1 cont1 same1 "1.prems"(1) by (auto simp: unfold)
    ultimately show ?thesis by simp
  next
    case False
    have len_p: "n \<le> length p" using "1.prems"(2) by (simp add: n_def)
    have free1: "rb_free rb1 = rb_free rb - n"
      using len_p by (simp add: rb_free_def cont1 same1)
    have le: "n \<le> rb_free rb" using room(1) by (simp add: n_def)
    have "len - n \<le> length (drop n p)" using "1.prems"(2) by simp
    with False some ok1 obtain rb' where
      rec: "xrp_rb_write_loop rb1 (drop n p) (len - n) (t + n)
        = Some (rb', t + n + min (len - n) (rb_free rb1))" and
      res: "rb_ok rb'" "rb_contents rb' = rb_contents rb1 @
             take (min (len - n) (rb_free rb1)) (drop n p)"
        "rb_read rb' = rb_read rb" "rb_size rb' = rb_size rb"
      using "1.IH" [of "(rb1, n)" rb1 n] same1 by auto
    have total: "n + min (len - n) (rb_free rb1) = min len (rb_free rb)"
      using le by (auto simp: free1 n_def)
    have "rb_contents rb' = rb_contents rb @ take (min len (rb_free rb)) p"
      by (simp add: res(2) cont1 flip: total take_add)
    moreover have "xrp_rb_write_loop rb p len t = Some (rb', t + min len (rb_free rb))"
      using False some rec by (simp add: unfold add.assoc flip: total)
    ultimately show ?thesis using res by blast
  qed
qed

section \<open>Writer and reader interleaved\<close>

text \<open>
  The peer of the writer consumes bytes by advancing \<open>read\<close>; \<open>volatile\<close> makes the writer load it
  once per pass. A step is the writer's load of \<open>read\<close>, the writer's stores with the loaded value,
  or the reader taking some unread bytes in between. \<open>produced\<close> and \<open>consumed\<close> are the history.
\<close>

record rb_sys =
  rbuf :: xrp_ring_buffer
  snap :: "u32 option"
  produced :: bytes
  consumed :: bytes

definition rb_take :: "nat \<Rightarrow> xrp_ring_buffer \<Rightarrow> xrp_ring_buffer" where
  "rb_take k rb = rb\<lparr>rb_read := of_nat ((unat (rb_read rb) + k) mod unat (rb_size rb))\<rparr>"

inductive rb_step :: "rb_sys \<Rightarrow> rb_sys \<Rightarrow> bool" where
  load: "snap s = None \<Longrightarrow> rb_step s (s\<lparr>snap := Some (rb_read (rbuf s))\<rparr>)"
| store: "snap s = Some rd \<Longrightarrow> len \<le> length buf \<Longrightarrow>
     rb_commit (rbuf s) rd buf len = Some (rb', n) \<Longrightarrow>
     rb_step s (s\<lparr>rbuf := rb', snap := None, produced := produced s @ take n buf\<rparr>)"
| consume: "k \<le> length (rb_contents (rbuf s)) \<Longrightarrow>
     rb_step s (s\<lparr>rbuf := rb_take k (rbuf s),
                   consumed := consumed s @ take k (rb_contents (rbuf s))\<rparr>)"

inductive rb_reachable :: "u32 \<Rightarrow> bytes \<Rightarrow> rb_sys \<Rightarrow> bool" for sz d where
  start: "0 < sz \<Longrightarrow> length d = unat sz \<Longrightarrow>
     rb_reachable sz d \<lparr>rbuf = rb_empty sz d, snap = None, produced = [], consumed = []\<rparr>"
| step: "rb_reachable sz d s \<Longrightarrow> rb_step s t \<Longrightarrow> rb_reachable sz d t"

text \<open>
  A snapshot may be stale, but only in one direction: the reader has moved \<open>k\<close> bytes forward since,
  within the view the snapshot saw.
\<close>

definition snap_ok :: "xrp_ring_buffer \<Rightarrow> u32 \<Rightarrow> bool" where
  "snap_ok rb rd \<longleftrightarrow> rd < rb_size rb \<and>
     (\<exists>k \<le> length (rb_view rd rb). unat (rb_read rb) = (unat rd + k) mod unat (rb_size rb))"

definition rb_inv :: "rb_sys \<Rightarrow> bool" where
  "rb_inv s \<longleftrightarrow> rb_ok (rbuf s) \<and> consumed s @ rb_contents (rbuf s) = produced s \<and>
     (\<forall>rd. snap s = Some rd \<longrightarrow> snap_ok (rbuf s) rd)"

lemma rb_take_ok:
  assumes "rb_ok rb" and "k \<le> length (rb_contents rb)"
  shows "rb_ok (rb_take k rb)" and "rb_contents (rb_take k rb) = drop k (rb_contents rb)"
    and "unat (rb_read (rb_take k rb)) = (unat (rb_read rb) + k) mod unat (rb_size rb)"
proof -
  let ?N = "unat (rb_size rb)"
  note ok = rb_okD [OF assms(1)]
  have "(unat (rb_read rb) + k) mod ?N < ?N" using ok(1) by simp
  moreover have "?N < 2 ^ 32" by (rule unat_u32_less)
  ultimately show rd: "unat (rb_read (rb_take k rb)) = (unat (rb_read rb) + k) mod ?N"
    by (simp add: rb_take_def unat_of_nat)
  have "k \<le> ring_fill ?N (unat (rb_read rb)) (unat (rb_write rb))"
    using assms(2) by (simp add: rb_contents_def rb_view_def)
  from ring_view_advance [OF ok(1,2) this] rd
  show "rb_contents (rb_take k rb) = drop k (rb_contents rb)"
    by (simp add: rb_contents_def rb_view_def) (simp add: rb_take_def)
  show "rb_ok (rb_take k rb)"
    using assms(1) ok(1) rd by (auto simp: rb_ok_def word_less_nat_alt) (simp_all add: rb_take_def)
qed

lemma view_behind:
  assumes "rb_ok rb" and "rd < rb_size rb" and "k \<le> length (rb_view rd rb)"
    and "unat (rb_read rb) = (unat rd + k) mod unat (rb_size rb)"
  shows "rb_contents rb = drop k (rb_view rd rb)"
  using ring_view_advance [of "unat rd" "unat (rb_size rb)" "unat (rb_write rb)" k] assms
    rb_okD(2) [OF assms(1)]
  by (simp add: rb_contents_def rb_view_def word_less_nat_alt)

lemma snap_view:
  assumes "rb_ok rb" and "snap_ok rb rd"
  obtains k where "k \<le> length (rb_view rd rb)" and "rb_contents rb = drop k (rb_view rd rb)"
    and "unat (rb_read rb) = (unat rd + k) mod unat (rb_size rb)"
  using assms view_behind [OF assms(1)] by (auto simp: snap_ok_def)

lemma snap_ok_advance:
  assumes ok: "rb_ok rb" and snap: "snap_ok rb rd" and k: "k \<le> length (rb_contents rb)"
  shows "snap_ok (rb_take k rb) rd"
proof -
  from snap_view [OF ok snap] obtain j where j: "j \<le> length (rb_view rd rb)"
    "rb_contents rb = drop j (rb_view rd rb)"
    "unat (rb_read rb) = (unat rd + j) mod unat (rb_size rb)" .
  have "unat (rb_read (rb_take k rb)) = (unat rd + (j + k)) mod unat (rb_size rb)"
    using rb_take_ok(3) [OF ok k] by (simp add: j(3) mod_add_left_eq add.assoc)
  moreover have "j + k \<le> length (rb_view rd rb)" using k j(1,2) by simp
  moreover have "rb_view rd (rb_take k rb) = rb_view rd rb" "rb_size (rb_take k rb) = rb_size rb"
    by (simp_all add: rb_view_def rb_take_def)
  ultimately show ?thesis using snap by (auto simp: snap_ok_def)
qed

lemma rb_step_inv: "rb_step s t \<Longrightarrow> rb_inv s \<Longrightarrow> rb_inv t"
proof (induction rule: rb_step.induct)
  case (load s)
  then show ?case
    by (auto simp: rb_inv_def snap_ok_def rb_ok_def word_less_nat_alt intro!: exI [of _ 0])
next
  case (store s rd len buf rb' n)
  from store.prems store.hyps(1) have ok: "rb_ok (rbuf s)" and snap: "snap_ok (rbuf s) rd"
    and hist: "consumed s @ rb_contents (rbuf s) = produced s" by (auto simp: rb_inv_def)
  from snap have rd: "rd < rb_size (rbuf s)" by (simp add: snap_ok_def)
  from rb_commit_ok [OF ok rd store.hyps(2)] store.hyps(3) have ok': "rb_ok rb'"
    and view: "rb_view rd rb' = rb_view rd (rbuf s) @ take n buf"
    and same: "rb_read rb' = rb_read (rbuf s)" "rb_size rb' = rb_size (rbuf s)" by auto
  from snap_view [OF ok snap] obtain k where k: "k \<le> length (rb_view rd (rbuf s))"
    "rb_contents (rbuf s) = drop k (rb_view rd (rbuf s))"
    "unat (rb_read (rbuf s)) = (unat rd + k) mod unat (rb_size (rbuf s))" .
  have "rb_contents rb' = drop k (rb_view rd rb')"
    using view_behind [OF ok', of rd k] rd k by (simp add: same view)
  then have "rb_contents rb' = rb_contents (rbuf s) @ take n buf" using k by (simp add: view)
  then show ?case using ok' hist by (simp add: rb_inv_def flip: hist)
next
  case (consume k s)
  then show ?case
    by (auto simp: rb_inv_def rb_take_ok snap_ok_advance)
qed

lemma rb_reachable_inv: "rb_reachable sz d s \<Longrightarrow> rb_inv s"
proof (induction rule: rb_reachable.induct)
  case start
  then show ?case using rb_empty_ok by (simp add: rb_inv_def)
next
  case (step s t)
  then show ?case by (blast intro: rb_step_inv)
qed

section \<open>Properties\<close>

text \<open>
  C14. \<open>xrp_rb_write\<close> on a well-formed ring never leaves the buffers and always returns: it writes
  exactly as many bytes as fit (\<open>size\<close> or all the free room, whichever is less), appends precisely
  those bytes to the unread contents, and moves nothing the reader owns.
\<close>

theorem rb_write_correct:
  assumes "rb_ok rb" and "len \<le> length buf"
  shows "\<exists>rb'. xrp_rb_write rb buf len = Some (rb', min len (rb_free rb)) \<and> rb_ok rb' \<and>
           rb_contents rb' = rb_contents rb @ take (min len (rb_free rb)) buf \<and>
           rb_read rb' = rb_read rb \<and> rb_size rb' = rb_size rb"
  using rb_write_loop_ok [OF assms, of 0] by (simp add: xrp_rb_write_def)

definition rb_sample :: xrp_ring_buffer where
  "rb_sample = \<lparr>rb_read = 2, rb_write = 3, rb_size = 5, rb_reserved = 0, rb_data = [1, 2, 3, 4, 5]\<rparr>"

theorem rb_write_correct_witness:
  "\<exists>rb'. xrp_rb_write rb_sample [7, 8, 9, 10] 4 = Some (rb', 3) \<and> rb_contents rb' = [3, 7, 8, 9]"
proof -
  have ok: "rb_ok rb_sample" by (simp add: rb_sample_def rb_ok_def)
  have c: "rb_contents rb_sample = [3]" by code_simp
  then have "min 4 (rb_free rb_sample) = 3" by (simp add: rb_free_def, simp add: rb_sample_def)
  with c show ?thesis
    using rb_write_correct [OF ok, of 4 "[7, 8, 9, 10]"] by (auto simp: numeral_eq_Suc)
qed

text \<open>
  C13. Single producer, single consumer: in every interleaving of the writer's loads and stores with
  a reader that takes unread bytes, no byte is lost, duplicated, reordered or overwritten before it
  is read, and the ring never fills to the point where full and empty look alike.
\<close>

theorem rb_interleaved_fifo:
  assumes "rb_reachable sz d s"
  shows "consumed s @ rb_contents (rbuf s) = produced s \<and>
         length (rb_contents (rbuf s)) < unat (rb_size (rbuf s))"
  using rb_reachable_inv [OF assms] by (auto simp: rb_inv_def length_rb_contents)

text \<open>A concrete run: load, store three bytes, then the reader takes one.\<close>

definition rb_run_stored :: rb_sys where
  "rb_run_stored = \<lparr>rbuf = (rb_empty 4 [0, 0, 0, 0])\<lparr>rb_write := 3, rb_data := [7, 8, 9, 0]\<rparr>,
     snap = None, produced = [7, 8, 9], consumed = []\<rparr>"

lemma rb_run_reachable:
  "rb_reachable 4 [0, 0, 0, 0]
     (rb_run_stored\<lparr>rbuf := rb_take 1 (rbuf rb_run_stored), consumed := [7]\<rparr>)"
proof -
  let ?s0 = "\<lparr>rbuf = rb_empty 4 [0, 0, 0, 0], snap = None, produced = [], consumed = []\<rparr>"
  have "rb_reachable 4 [0, 0, 0, 0] ?s0" by (rule rb_reachable.start) simp_all
  then have 1: "rb_reachable 4 [0, 0, 0, 0] (?s0\<lparr>snap := Some (rb_read (rbuf ?s0))\<rparr>)"
    by (rule rb_reachable.step) (rule rb_step.load, simp)
  have "rb_commit (rb_empty 4 [0, 0, 0, 0]) 0 [7, 8, 9, 10] 4 =
          Some ((rb_empty 4 [0, 0, 0, 0])\<lparr>rb_write := 3, rb_data := [7, 8, 9, 0]\<rparr>, 3)"
    by code_simp
  then have "rb_step (?s0\<lparr>snap := Some (rb_read (rbuf ?s0))\<rparr>) rb_run_stored"
    using rb_step.store [of "?s0\<lparr>snap := Some (rb_read (rbuf ?s0))\<rparr>" 0 4 "[7, 8, 9, 10]"]
    by (simp add: rb_run_stored_def rb_empty_def)
  with 1 have 2: "rb_reachable 4 [0, 0, 0, 0] rb_run_stored" by (rule rb_reachable.step)
  have c: "rb_contents (rbuf rb_run_stored) = [7, 8, 9]" by code_simp
  have "rb_step rb_run_stored
          (rb_run_stored\<lparr>rbuf := rb_take 1 (rbuf rb_run_stored), consumed := [7]\<rparr>)"
    using rb_step.consume [of 1 rb_run_stored] by (simp add: c) (simp add: rb_run_stored_def)
  with 2 show ?thesis by (rule rb_reachable.step)
qed

theorem rb_interleaved_fifo_witness:
  "[7] @ rb_contents (rb_take 1 (rbuf rb_run_stored)) = [7, 8, 9]"
  using rb_interleaved_fifo [OF rb_run_reachable] by (simp add: rb_run_stored_def)

end
