(* ===== verification/Namespace.thy ===== *)
theory Namespace
  imports Xrp_Prelude "HOL-Library.List_Lexorder"
begin

text \<open>
  The command namespace table of \<open>xrp-common/src/xrp_ns.c\<close>: an array sorted by 32-byte ids,
  searched by bisection, grown by \<open>realloc\<close> and shifted by \<open>memmove\<close>. A pointer into the table
  is its index. Counts and indices are naturals: a table of 48-byte entries that fills a 64-bit
  address space has fewer than \<open>2 ^ 59\<close> of them, so neither \<open>a + b\<close> nor the byte sizes wrap.
  The second half gives the interface a client of the table relies on and its interpretation.
\<close>

section \<open>State and operations\<close>

abbreviation XRP_NAMESPACE_ID_SIZE :: nat where
  "XRP_NAMESPACE_ID_SIZE \<equiv> 32"

record xrp_cmd_ns =
  ns_id :: bytes
  ns_handler :: ptr
  ns_context :: ptr

record xrp_cmd_ns_map =
  n_cmd_ns :: nat
  size_cmd_ns :: nat
  cmd_ns :: "xrp_cmd_ns slots"

text \<open>\<open>memcmp\<close>: only the sign of the result is specified; \<open>None\<close> when a block is too short.\<close>

fun memcmp :: "bytes \<Rightarrow> bytes \<Rightarrow> nat \<Rightarrow> int option" where
  "memcmp xs ys 0 = Some 0"
| "memcmp (x # xs) (y # ys) (Suc n) =
     (if x < y then Some (- 1) else if y < x then Some 1 else memcmp xs ys n)"
| "memcmp xs ys (Suc n) = None"

definition compare_cmd_ns :: "bytes \<Rightarrow> xrp_cmd_ns \<Rightarrow> int option" where
  "compare_cmd_ns nsid e = memcmp nsid (ns_id e) XRP_NAMESPACE_ID_SIZE"

definition xrp_cmd_ns_match :: "bytes \<Rightarrow> xrp_cmd_ns option \<Rightarrow> bool option" where
  "xrp_cmd_ns_match nsid p =
     (case p of None \<Rightarrow> Some False
      | Some e \<Rightarrow> do { r \<leftarrow> compare_cmd_ns nsid e; Some (r = 0) })"

definition cmd_ns_present :: "xrp_cmd_ns_map \<Rightarrow> nat \<Rightarrow> bool" where
  "cmd_ns_present m p \<longleftrightarrow> 0 \<le> p \<and> p < n_cmd_ns m"

function xrp_find_loop :: "xrp_cmd_ns_map \<Rightarrow> bytes \<Rightarrow> nat \<Rightarrow> nat \<Rightarrow> (nat \<times> nat) option" where
  "xrp_find_loop m nsid a b =
     (if b - a > 1 then
        (let c = (a + b) div 2 in do {
           p \<leftarrow> slot_get (cmd_ns m) c;
           r \<leftarrow> compare_cmd_ns nsid p;
           (if r < 0 then xrp_find_loop m nsid a c else xrp_find_loop m nsid c b)
         })
      else Some (a, b))"
  by pat_completeness auto
termination
  by (relation "measure (\<lambda>(m, nsid, a, b). b - a)") auto

declare xrp_find_loop.simps [simp del]

definition xrp_find_cmd_ns :: "xrp_cmd_ns_map \<Rightarrow> bytes \<Rightarrow> nat option" where
  "xrp_find_cmd_ns m nsid = do {
     (a, b) \<leftarrow> xrp_find_loop m nsid 0 (n_cmd_ns m);
     (if a < b then do {
        p \<leftarrow> slot_get (cmd_ns m) a;
        r \<leftarrow> compare_cmd_ns nsid p;
        Some (if r > 0 then a + 1 else a)
      } else Some a)
   }"

text \<open>\<open>insert_cmd_ns\<close> opens a gap at \<open>i\<close>; \<open>ok\<close> is whether \<open>realloc\<close> succeeds, when it is called.\<close>

definition insert_cmd_ns ::
  "bool \<Rightarrow> xrp_cmd_ns_map \<Rightarrow> nat \<Rightarrow> (xrp_cmd_ns_map \<times> nat option) option" where
  "insert_cmd_ns ok m i =
     (if n_cmd_ns m = size_cmd_ns m \<and> \<not> ok then Some (m, None)
      else
        let new_size = (size_cmd_ns m + 1) * 2;
            m1 = (if n_cmd_ns m = size_cmd_ns m
                  then m\<lparr>cmd_ns := slots_realloc new_size (cmd_ns m), size_cmd_ns := new_size\<rparr>
                  else m)
        in do {
          xs \<leftarrow> slots_memmove (i + 1) i (n_cmd_ns m1 - i) (cmd_ns m1);
          Some (m1\<lparr>cmd_ns := xs, n_cmd_ns := n_cmd_ns m1 + 1\<rparr>, Some i)
        })"

definition remove_cmd_ns :: "xrp_cmd_ns_map \<Rightarrow> nat \<Rightarrow> xrp_cmd_ns_map option" where
  "remove_cmd_ns m i = do {
     xs \<leftarrow> slots_memmove i (i + 1) (n_cmd_ns m - i - 1) (cmd_ns m);
     Some (m\<lparr>cmd_ns := xs, n_cmd_ns := n_cmd_ns m - 1\<rparr>)
   }"

text \<open>The test both entry points make on the result of the search.\<close>

definition ns_found :: "xrp_cmd_ns_map \<Rightarrow> bytes \<Rightarrow> nat \<Rightarrow> bool option" where
  "ns_found m nsid p =
     (if cmd_ns_present m p
      then do { e \<leftarrow> slot_get (cmd_ns m) p; xrp_cmd_ns_match nsid (Some e) }
      else Some False)"

definition xrp_register_namespace ::
  "bool \<Rightarrow> xrp_cmd_ns_map \<Rightarrow> bytes \<Rightarrow> ptr \<Rightarrow> ptr \<Rightarrow> (xrp_cmd_ns_map \<times> int) option" where
  "xrp_register_namespace ok m nsid handler handler_context = do {
     p \<leftarrow> xrp_find_cmd_ns m nsid;
     found \<leftarrow> ns_found m nsid p;
     (if found then Some (m, 0)
      else do {
        (m1, q) \<leftarrow> insert_cmd_ns ok m p;
        (case q of
           None \<Rightarrow> Some (m1, 0)
         | Some i \<Rightarrow> do {
             ident \<leftarrow> memcpy_at (replicate XRP_NAMESPACE_ID_SIZE 0) 0 nsid XRP_NAMESPACE_ID_SIZE;
             xs \<leftarrow> slot_set (cmd_ns m1) i
                    \<lparr>ns_id = ident, ns_handler = handler,
                     ns_context = handler_context\<rparr>;
             Some (m1\<lparr>cmd_ns := xs\<rparr>, 1)
           })
      })
   }"

definition xrp_unregister_namespace :: "xrp_cmd_ns_map \<Rightarrow> bytes \<Rightarrow> (xrp_cmd_ns_map \<times> int) option" where
  "xrp_unregister_namespace m nsid = do {
     p \<leftarrow> xrp_find_cmd_ns m nsid;
     found \<leftarrow> ns_found m nsid p;
     (if found then do { m1 \<leftarrow> remove_cmd_ns m p; Some (m1, 1) } else Some (m, 0))
   }"

section \<open>Well-formed tables and their abstraction\<close>

definition ns_entries :: "xrp_cmd_ns_map \<Rightarrow> xrp_cmd_ns list" where
  "ns_entries m = map the (take (n_cmd_ns m) (cmd_ns m))"

definition ns_ok :: "xrp_cmd_ns_map \<Rightarrow> bool" where
  "ns_ok m \<longleftrightarrow>
     length (ns_entries m) = n_cmd_ns m \<and> holds (cmd_ns m) (ns_entries m) \<and>
     size_cmd_ns m = length (cmd_ns m) \<and>
     (\<forall>e \<in> set (ns_entries m). length (ns_id e) = XRP_NAMESPACE_ID_SIZE) \<and>
     sorted_wrt (<) (map ns_id (ns_entries m))"

definition ns_key :: "bytes \<Rightarrow> bytes" where
  "ns_key nsid = take XRP_NAMESPACE_ID_SIZE nsid"

definition ns_lookup :: "xrp_cmd_ns_map \<Rightarrow> bytes \<rightharpoonup> ptr \<times> ptr" where
  "ns_lookup m = map_of (map (\<lambda>e. (ns_id e, ns_handler e, ns_context e)) (ns_entries m))"

definition ns_empty :: xrp_cmd_ns_map where
  "ns_empty = \<lparr>n_cmd_ns = 0, size_cmd_ns = 0, cmd_ns = []\<rparr>"

section \<open>Searching\<close>

lemma memcmp_take: "memcmp xs ys n = memcmp (take n xs) (take n ys) n"
  by (induction xs ys n rule: memcmp.induct) auto

lemma memcmp_lex:
  "length xs = n \<Longrightarrow> length ys = n \<Longrightarrow>
   memcmp xs ys n = Some (if xs < ys then - 1 else if ys < xs then 1 else 0)"
proof (induction xs ys n rule: memcmp.induct)
  case (2 x xs y ys n)
  then show ?case by (cases x y rule: linorder_cases) auto
qed auto

lemma compare_key:
  assumes "XRP_NAMESPACE_ID_SIZE \<le> length nsid" and "length (ns_id e) = XRP_NAMESPACE_ID_SIZE"
  shows "compare_cmd_ns nsid e =
           Some (if ns_key nsid < ns_id e then - 1 else if ns_id e < ns_key nsid then 1 else 0)"
  using assms memcmp_lex [of "ns_key nsid" XRP_NAMESPACE_ID_SIZE "ns_id e"]
  by (simp add: compare_cmd_ns_def memcmp_take [of nsid] ns_key_def)

abbreviation ns_ids :: "xrp_cmd_ns_map \<Rightarrow> bytes list" where
  "ns_ids m \<equiv> map ns_id (ns_entries m)"

lemma ns_okD:
  assumes "ns_ok m"
  shows "length (ns_entries m) = n_cmd_ns m" and "holds (cmd_ns m) (ns_entries m)"
    and "size_cmd_ns m = length (cmd_ns m)" and "n_cmd_ns m \<le> length (cmd_ns m)"
    and "sorted_wrt (<) (ns_ids m)"
  using assms holds_length by (fastforce simp: ns_ok_def)+

lemma ns_id_length: "ns_ok m \<Longrightarrow> e \<in> set (ns_entries m) \<Longrightarrow> length (ns_id e) = XRP_NAMESPACE_ID_SIZE"
  by (simp add: ns_ok_def)

lemma ns_get [slot_simps]:
  "ns_ok m \<Longrightarrow> i < n_cmd_ns m \<Longrightarrow> slot_get (cmd_ns m) i = Some (ns_entries m ! i)"
  by (metis holds_nth ns_okD(1,2))

lemma ns_compare:
  assumes "ns_ok m" and "XRP_NAMESPACE_ID_SIZE \<le> length nsid" and "i < n_cmd_ns m"
  shows "compare_cmd_ns nsid (ns_entries m ! i) =
           Some (if ns_key nsid < ns_ids m ! i then - 1 else if ns_ids m ! i < ns_key nsid then 1 else 0)"
  using assms compare_key [of nsid "ns_entries m ! i"] ns_id_length [OF assms(1)] ns_okD(1) [OF assms(1)]
  by simp

lemma ns_sorted_mono:
  "ns_ok m \<Longrightarrow> i < j \<Longrightarrow> j < n_cmd_ns m \<Longrightarrow> ns_ids m ! i < ns_ids m ! j"
  by (metis length_map ns_okD(1,5) sorted_wrt_iff_nth_less)

text \<open>
  The loop keeps \<open>id\<close> between the entries at \<open>a\<close> and \<open>b\<close>. What it returns is at most one apart.
\<close>

lemma xrp_find_loop_bounds:
  assumes "ns_ok m" and "XRP_NAMESPACE_ID_SIZE \<le> length nsid"
    and "a \<le> b" and "b \<le> n_cmd_ns m" and "a = 0 \<or> ns_ids m ! a \<le> ns_key nsid"
    and "b = n_cmd_ns m \<or> ns_key nsid < ns_ids m ! b" and "n_cmd_ns m = 0 \<or> a < b"
  shows "\<exists>a' b'. xrp_find_loop m nsid a b = Some (a', b') \<and> a' \<le> b' \<and> b' \<le> a' + 1 \<and>
           b' \<le> n_cmd_ns m \<and> (a' = 0 \<or> ns_ids m ! a' \<le> ns_key nsid) \<and>
           (b' = n_cmd_ns m \<or> ns_key nsid < ns_ids m ! b') \<and> (n_cmd_ns m = 0 \<or> a' < b')"
  using assms
proof (induction m nsid a b rule: xrp_find_loop.induct)
  case (1 m nsid a b)
  let ?c = "(a + b) div 2"
  show ?case
  proof (cases "b - a > 1")
    case False
    with "1.prems" show ?thesis by (auto simp: xrp_find_loop.simps [of m nsid a b])
  next
    case True
    then have c: "a < ?c" "?c < b" by auto
    then have cn: "?c < n_cmd_ns m" using "1.prems"(4) by simp
    note get = ns_get [OF "1.prems"(1) cn] and cmp = ns_compare [OF "1.prems"(1,2) cn]
    show ?thesis
    proof (cases "ns_key nsid < ns_ids m ! ?c")
      case lt: True
      have "xrp_find_loop m nsid a b = xrp_find_loop m nsid a ?c"
        using True lt by (simp add: xrp_find_loop.simps [of m nsid a b] Let_def get cmp)
      with "1.IH"(1) [OF True refl get cmp] lt "1.prems" c cn show ?thesis by simp
    next
      case ge: False
      have "xrp_find_loop m nsid a b = xrp_find_loop m nsid ?c b"
        using True ge by (simp add: xrp_find_loop.simps [of m nsid a b] Let_def get cmp)
      with "1.IH"(2) [OF True refl get cmp] ge "1.prems" c cn show ?thesis by (simp add: not_less)
    qed
  qed
qed

text \<open>The search returns the first position whose id is not below the key.\<close>

definition ns_point :: "xrp_cmd_ns_map \<Rightarrow> bytes \<Rightarrow> nat \<Rightarrow> bool" where
  "ns_point m k p \<longleftrightarrow> p \<le> n_cmd_ns m \<and> (\<forall>j < p. ns_ids m ! j < k) \<and>
     (\<forall>j. p \<le> j \<and> j < n_cmd_ns m \<longrightarrow> k \<le> ns_ids m ! j)"

lemma xrp_find_cmd_ns_point:
  assumes ok: "ns_ok m" and len: "XRP_NAMESPACE_ID_SIZE \<le> length nsid"
  obtains p where "xrp_find_cmd_ns m nsid = Some p" and "ns_point m (ns_key nsid) p"
proof -
  from xrp_find_loop_bounds [OF ok len, of 0 "n_cmd_ns m"]
  obtain a b where loop: "xrp_find_loop m nsid 0 (n_cmd_ns m) = Some (a, b)"
    and ab: "a \<le> b" "b \<le> a + 1" "b \<le> n_cmd_ns m" "n_cmd_ns m = 0 \<or> a < b"
    and lo: "a = 0 \<or> ns_ids m ! a \<le> ns_key nsid"
    and hi: "b = n_cmd_ns m \<or> ns_key nsid < ns_ids m ! b" by auto
  show thesis
  proof (cases "n_cmd_ns m = 0")
    case True
    with loop ab show thesis by (intro that [of 0]) (auto simp: xrp_find_cmd_ns_def ns_point_def)
  next
    case False
    with ab have b: "b = a + 1" "a < n_cmd_ns m" by auto
    note get = ns_get [OF ok b(2)] and cmp = ns_compare [OF ok len b(2)]
    have below: "ns_ids m ! j < ns_key nsid" if "j < a" for j
      using that lo ns_sorted_mono [OF ok that b(2)] by (auto intro: less_le_trans)
    show thesis
    proof (cases "ns_ids m ! a < ns_key nsid")
      case True
      have "ns_key nsid \<le> ns_ids m ! j" if "b \<le> j" "j < n_cmd_ns m" for j
        using that hi ns_sorted_mono [OF ok, of b j] by (cases "j = b") (auto intro: less_imp_le less_trans)
      moreover have "xrp_find_cmd_ns m nsid = Some b"
        using True b by (simp add: xrp_find_cmd_ns_def loop get cmp not_less_iff_gr_or_eq)
      ultimately show thesis
        using True below b ab by (intro that [of b]) (auto simp: less_Suc_eq ns_point_def)
    next
      case ge: False
      have "ns_key nsid \<le> ns_ids m ! j" if "a \<le> j" "j < n_cmd_ns m" for j
        using that ge ns_sorted_mono [OF ok, of a j]
        by (cases "j = a") (auto simp: not_less intro: le_less_trans less_imp_le)
      moreover have "xrp_find_cmd_ns m nsid = Some a"
        using ge b by (simp add: xrp_find_cmd_ns_def loop get cmp)
      ultimately show thesis using below b by (intro that [of a]) (auto simp: ns_point_def)
    qed
  qed
qed

section \<open>Registering and unregistering\<close>

lemma ns_entries_holds: "holds (cmd_ns m) es \<Longrightarrow> n_cmd_ns m = length es \<Longrightarrow> ns_entries m = es"
  by (simp add: ns_entries_def holds_def)

lemma ns_okI:
  assumes "holds (cmd_ns m) es" and "n_cmd_ns m = length es" and "size_cmd_ns m = length (cmd_ns m)"
    and "\<forall>e \<in> set es. length (ns_id e) = XRP_NAMESPACE_ID_SIZE" and "sorted_wrt (<) (map ns_id es)"
  shows "ns_ok m"
  using assms ns_entries_holds [OF assms(1,2)] by (simp add: ns_ok_def)

lemma ns_lookup_dom: "dom (ns_lookup m) = set (ns_ids m)"
  by (force simp: ns_lookup_def dom_map_of_conv_image_fst)

lemma ns_found_point:
  assumes ok: "ns_ok m" and len: "XRP_NAMESPACE_ID_SIZE \<le> length nsid"
    and pt: "ns_point m (ns_key nsid) p"
  shows "ns_found m nsid p = Some (ns_key nsid \<in> dom (ns_lookup m))"
    and "ns_key nsid \<in> dom (ns_lookup m) \<Longrightarrow> p < n_cmd_ns m \<and> ns_ids m ! p = ns_key nsid"
proof -
  have n: "length (ns_ids m) = n_cmd_ns m" using ns_okD(1) [OF ok] by simp
  have at_p: "p < n_cmd_ns m \<and> ns_ids m ! p = ns_key nsid" if "ns_key nsid \<in> dom (ns_lookup m)"
  proof -
    from that obtain j where j: "j < n_cmd_ns m" "ns_ids m ! j = ns_key nsid"
      unfolding ns_lookup_dom by (metis in_set_conv_nth n)
    have "p \<le> j" using pt j by (cases "j < p") (auto simp: ns_point_def)
    moreover have "\<not> p < j"
      using pt ns_sorted_mono [OF ok, of p j] j by (force simp: ns_point_def)
    ultimately show ?thesis using j by auto
  qed
  then show "ns_key nsid \<in> dom (ns_lookup m) \<Longrightarrow> p < n_cmd_ns m \<and> ns_ids m ! p = ns_key nsid" .
  show "ns_found m nsid p = Some (ns_key nsid \<in> dom (ns_lookup m))"
  proof (cases "p < n_cmd_ns m")
    case True
    then have "ns_ids m ! p \<in> dom (ns_lookup m)" unfolding ns_lookup_dom by (metis n nth_mem)
    moreover have "ns_found m nsid p = Some (ns_ids m ! p = ns_key nsid)"
      using True by (auto simp: ns_found_def cmd_ns_present_def ns_get [OF ok] xrp_cmd_ns_match_def
          ns_compare [OF ok len])
    ultimately show ?thesis using at_p by auto
  next
    case False
    then show ?thesis using at_p by (auto simp: ns_found_def cmd_ns_present_def)
  qed
qed

text \<open>What \<open>xrp_register_namespace\<close> promises, over the abstraction.\<close>

definition reg_spec ::
  "bool \<Rightarrow> xrp_cmd_ns_map \<Rightarrow> bytes \<Rightarrow> ptr \<times> ptr \<Rightarrow> xrp_cmd_ns_map \<Rightarrow> int \<Rightarrow> bool" where
  "reg_spec ok m k v m' r \<longleftrightarrow>
     (if k \<in> dom (ns_lookup m) \<or> n_cmd_ns m = size_cmd_ns m \<and> \<not> ok
      then r = 0 \<and> m' = m
      else r = 1 \<and> ns_lookup m' = (ns_lookup m)(k \<mapsto> v) \<and> n_cmd_ns m' = Suc (n_cmd_ns m) \<and>
           size_cmd_ns m' =
             (if n_cmd_ns m = size_cmd_ns m then (size_cmd_ns m + 1) * 2 else size_cmd_ns m))"

lemma ns_entries_insert:
  assumes ok: "ns_ok m" and e: "length (ns_id e) = XRP_NAMESPACE_ID_SIZE"
    and new: "ns_id e \<notin> dom (ns_lookup m)" and pt: "ns_point m (ns_id e) p"
    and m': "holds (cmd_ns m') (take p (ns_entries m) @ e # drop p (ns_entries m))"
      "n_cmd_ns m' = Suc (n_cmd_ns m)" "size_cmd_ns m' = length (cmd_ns m')"
  shows "ns_ok m'" and "ns_lookup m' = (ns_lookup m)(ns_id e \<mapsto> (ns_handler e, ns_context e))"
proof -
  let ?es = "take p (ns_entries m) @ e # drop p (ns_entries m)"
  have n: "length (ns_entries m) = n_cmd_ns m" by (rule ns_okD(1) [OF ok])
  have p: "p \<le> n_cmd_ns m" using pt by (simp add: ns_point_def)
  then have len: "n_cmd_ns m' = length ?es" by (simp add: m'(2) n)
  have "sorted_wrt (<) (take p (ns_ids m) @ ns_id e # drop p (ns_ids m))"
    using ns_okD(5) [OF ok] n new pt
    by (intro sorted_insert_at) (auto simp: ns_lookup_dom ns_point_def)
  then have sorted: "sorted_wrt (<) (map ns_id ?es)" by (simp add: take_map drop_map)
  have "\<forall>x \<in> set ?es. length (ns_id x) = XRP_NAMESPACE_ID_SIZE"
    using e ns_id_length [OF ok] by (auto dest: in_set_takeD in_set_dropD)
  with m' len sorted show "ns_ok m'" by (intro ns_okI)
  show "ns_lookup m' = (ns_lookup m)(ns_id e \<mapsto> (ns_handler e, ns_context e))"
    using map_of_insert_at [of "ns_id e" "map (\<lambda>x. (ns_id x, ns_handler x, ns_context x)) (ns_entries m)" p
        "(ns_handler e, ns_context e)"] new
    by (simp add: ns_lookup_def ns_entries_holds [OF m'(1) len] take_map drop_map)
qed

lemma insert_cmd_ns_gap:
  assumes ok: "ns_ok m" and p: "p \<le> n_cmd_ns m" and alloc: "n_cmd_ns m \<noteq> size_cmd_ns m \<or> alloc"
  obtains m1 where "insert_cmd_ns alloc m p = Some (m1, Some p)" and "p < length (cmd_ns m1)"
    and "holds ((cmd_ns m1)[p := Some e]) (take p (ns_entries m) @ e # drop p (ns_entries m))"
    and "n_cmd_ns m1 = Suc (n_cmd_ns m)" and "size_cmd_ns m1 = length (cmd_ns m1)"
    and "size_cmd_ns m1 =
           (if n_cmd_ns m = size_cmd_ns m then (size_cmd_ns m + 1) * 2 else size_cmd_ns m)"
proof -
  let ?full = "n_cmd_ns m = size_cmd_ns m"
  let ?sz = "if ?full then (size_cmd_ns m + 1) * 2 else size_cmd_ns m"
  define xs where "xs = (if ?full then slots_realloc ?sz (cmd_ns m) else cmd_ns m)"
  note wf = ns_okD [OF ok]
  have xs: "holds xs (ns_entries m)" "length xs = ?sz"
    using wf by (auto simp: xs_def intro: holds_realloc)
  have room: "length (ns_entries m) < length xs" using wf xs(2) by auto
  from p wf(1) have "p \<le> length (ns_entries m)" by simp
  from holds_open_gap [OF xs(1) this room, of e] obtain ys where
    ys: "slots_memmove (Suc p) p (n_cmd_ns m - p) xs = Some ys" "length ys = length xs"
    "holds (ys[p := Some e]) (take p (ns_entries m) @ e # drop p (ns_entries m))"
    using wf(1) by auto
  have "insert_cmd_ns alloc m p =
          Some (m\<lparr>cmd_ns := ys, size_cmd_ns := ?sz, n_cmd_ns := Suc (n_cmd_ns m)\<rparr>, Some p)"
    using alloc ys(1) by (cases ?full) (simp_all add: insert_cmd_ns_def Let_def xs_def)
  then show thesis by (rule that) (use ys xs(2) room p wf(1) in simp_all)
qed

lemma xrp_register_namespace_spec:
  assumes ok: "ns_ok m" and len: "XRP_NAMESPACE_ID_SIZE \<le> length nsid"
  obtains m' r where "xrp_register_namespace alloc m nsid h c = Some (m', r)" and "ns_ok m'"
    and "reg_spec alloc m (ns_key nsid) (h, c) m' r"
proof -
  obtain p where find: "xrp_find_cmd_ns m nsid = Some p" and pt: "ns_point m (ns_key nsid) p"
    using xrp_find_cmd_ns_point [OF ok len] by blast
  note found = ns_found_point(1) [OF ok len pt]
  show thesis
  proof (cases "ns_key nsid \<in> dom (ns_lookup m) \<or> n_cmd_ns m = size_cmd_ns m \<and> \<not> alloc")
    case True
    then have "xrp_register_namespace alloc m nsid h c = Some (m, 0)"
      by (auto simp: xrp_register_namespace_def find found insert_cmd_ns_def)
    with True ok show thesis by (intro that) (auto simp: reg_spec_def)
  next
    case False
    let ?e = "\<lparr>ns_id = ns_key nsid, ns_handler = h, ns_context = c\<rparr>"
    have p: "p \<le> n_cmd_ns m" using pt by (simp add: ns_point_def)
    from False have room: "n_cmd_ns m \<noteq> size_cmd_ns m \<or> alloc" by blast
    from insert_cmd_ns_gap [OF ok p room, of ?e] obtain m1 where
      m1: "insert_cmd_ns alloc m p = Some (m1, Some p)" "p < length (cmd_ns m1)"
      "holds ((cmd_ns m1)[p := Some ?e]) (take p (ns_entries m) @ ?e # drop p (ns_entries m))"
      "n_cmd_ns m1 = Suc (n_cmd_ns m)" "size_cmd_ns m1 = length (cmd_ns m1)"
      "size_cmd_ns m1 =
         (if n_cmd_ns m = size_cmd_ns m then (size_cmd_ns m + 1) * 2 else size_cmd_ns m)" .
    let ?m' = "m1\<lparr>cmd_ns := (cmd_ns m1)[p := Some ?e]\<rparr>"
    have "xrp_register_namespace alloc m nsid h c = Some (?m', 1)"
      using False m1(1,2) len
      by (simp add: xrp_register_namespace_def find found slot_set_def ns_key_def memcpy_at_def)
    then show thesis
      using False ns_entries_insert [OF ok, of ?e p ?m'] m1 pt len
      by (intro that [of ?m' 1]) (auto simp: reg_spec_def ns_key_def)
  qed
qed

lemma xrp_unregister_namespace_spec:
  assumes ok: "ns_ok m" and len: "XRP_NAMESPACE_ID_SIZE \<le> length nsid"
  obtains m' where "xrp_unregister_namespace m nsid =
        Some (m', if ns_key nsid \<in> dom (ns_lookup m) then 1 else 0)"
    and "ns_ok m'" and "ns_lookup m' = (ns_lookup m)(ns_key nsid := None)"
    and "size_cmd_ns m' = size_cmd_ns m"
    and "n_cmd_ns m' = (if ns_key nsid \<in> dom (ns_lookup m) then n_cmd_ns m - 1 else n_cmd_ns m)"
proof -
  obtain p where find: "xrp_find_cmd_ns m nsid = Some p" and pt: "ns_point m (ns_key nsid) p"
    using xrp_find_cmd_ns_point [OF ok len] by blast
  note found = ns_found_point [OF ok len pt]
  show thesis
  proof (cases "ns_key nsid \<in> dom (ns_lookup m)")
    case False
    then have "xrp_unregister_namespace m nsid = Some (m, 0)"
      by (simp add: xrp_unregister_namespace_def find found(1))
    with False ok show thesis by (intro that [of m]) auto
  next
    case True
    note wf = ns_okD [OF ok]
    from found(2) [OF True] wf(1) have at: "p < length (ns_entries m)" "ns_ids m ! p = ns_key nsid"
      by auto
    from holds_close_gap [OF wf(2) at(1)] obtain ys where
      ys: "slots_memmove p (Suc p) (length (ns_entries m) - p - 1) (cmd_ns m) = Some ys"
      "length ys = length (cmd_ns m)"
      "holds ys (take p (ns_entries m) @ drop (Suc p) (ns_entries m))" by blast
    let ?es = "take p (ns_entries m) @ drop (Suc p) (ns_entries m)"
    let ?m' = "m\<lparr>cmd_ns := ys, n_cmd_ns := n_cmd_ns m - 1\<rparr>"
    have n': "n_cmd_ns ?m' = length ?es" using at(1) wf(1) by simp
    have "sorted_wrt (<) (take p (ns_ids m) @ ns_ids m ! p # drop (Suc p) (ns_ids m))"
      using at(1) wf(5) id_take_nth_drop [of p "ns_ids m"] by simp
    then have sorted: "sorted_wrt (<) (map ns_id ?es)"
      by (simp add: take_map drop_map sorted_wrt_append)
    have "\<forall>x \<in> set ?es. length (ns_id x) = XRP_NAMESPACE_ID_SIZE"
      using ns_id_length [OF ok] by (auto dest: in_set_takeD in_set_dropD)
    then have "ns_ok ?m'" using ys wf n' sorted by (intro ns_okI [of _ ?es]) simp_all
    moreover have "ns_lookup ?m' = (ns_lookup m)(ns_key nsid := None)"
      using map_of_delete_at [of p "map (\<lambda>x. (ns_id x, ns_handler x, ns_context x)) (ns_entries m)"]
        at wf(5) ns_entries_holds [of ?m' ?es] ys(3) n'
      by (simp add: ns_lookup_def take_map drop_map comp_def strict_sorted_iff)
    moreover have "xrp_unregister_namespace m nsid = Some (?m', 1)"
      using True ys(1) wf(1) by (simp add: xrp_unregister_namespace_def find found(1) remove_cmd_ns_def)
    ultimately show thesis using True by (intro that [of ?m']) auto
  qed
qed

section \<open>The registry interface and a client of it\<close>

text \<open>
  What a user of the table relies on. \<open>reg\<close> and \<open>unreg\<close> return the code's 1 or 0; only a failing
  allocation (\<open>ok = False\<close>) may turn a registration of a new key away.
\<close>

locale ns_registry =
  fixes reg :: "bool \<Rightarrow> 'm \<Rightarrow> 'k \<Rightarrow> 'v \<Rightarrow> ('m \<times> int) option"
    and unreg :: "'m \<Rightarrow> 'k \<Rightarrow> ('m \<times> int) option"
    and lookup :: "'m \<Rightarrow> 'k \<Rightarrow> 'v option"
    and invar :: "'m \<Rightarrow> bool"
    and valid :: "'k \<Rightarrow> bool"
  assumes reg_old: "invar m \<Longrightarrow> valid k \<Longrightarrow> k \<in> dom (lookup m) \<Longrightarrow> reg ok m k v = Some (m, 0)"
    and reg_new: "invar m \<Longrightarrow> valid k \<Longrightarrow> k \<notin> dom (lookup m) \<Longrightarrow>
      \<exists>m'. reg True m k v = Some (m', 1) \<and> invar m' \<and> lookup m' = (lookup m)(k \<mapsto> v)"
    and unreg_old: "invar m \<Longrightarrow> valid k \<Longrightarrow> k \<in> dom (lookup m) \<Longrightarrow>
      \<exists>m'. unreg m k = Some (m', 1) \<and> invar m' \<and> lookup m' = (lookup m)(k := None)"
    and unreg_new: "invar m \<Longrightarrow> valid k \<Longrightarrow> k \<notin> dom (lookup m) \<Longrightarrow>
      \<exists>m'. unreg m k = Some (m', 0) \<and> invar m' \<and> lookup m' = lookup m"

text \<open>
  \<open>test_ns\<close> of \<open>xrp-example/src/dsp_test.c\<close> registers its ids one by one, then unregisters them,
  and stops at the first call that fails. The device calls it makes are arguments: the DSP library
  that provides them is not in the repository.
\<close>

fun ns_each :: "('m \<Rightarrow> 'k \<Rightarrow> ('m \<times> int) option) \<Rightarrow> 'm \<Rightarrow> 'k list \<Rightarrow> ('m \<times> xrp_status) option" where
  "ns_each f m [] = Some (m, XRP_STATUS_SUCCESS)"
| "ns_each f m (k # ks) = do {
     (m', r) \<leftarrow> f m k;
     (if r = 0 then Some (m', XRP_STATUS_FAILURE) else ns_each f m' ks)
   }"

definition test_ns ::
  "('m \<Rightarrow> 'k \<Rightarrow> ('m \<times> int) option) \<Rightarrow> ('m \<Rightarrow> 'k \<Rightarrow> ('m \<times> int) option) \<Rightarrow> 'm \<Rightarrow> 'k list \<Rightarrow>
   ('m \<times> xrp_status) option" where
  "test_ns reg unreg m test_nsid = do {
     (m1, status) \<leftarrow> ns_each reg m test_nsid;
     (if status \<noteq> XRP_STATUS_SUCCESS then Some (m1, XRP_STATUS_FAILURE)
      else ns_each unreg m1 test_nsid)
   }"

context ns_registry begin

lemma register_all:
  "invar m \<Longrightarrow> \<forall>k \<in> set ks. valid k \<and> k \<notin> dom (lookup m) \<Longrightarrow> distinct ks \<Longrightarrow>
   \<exists>m'. ns_each (\<lambda>m k. reg True m k v) m ks = Some (m', XRP_STATUS_SUCCESS) \<and> invar m' \<and>
        lookup m' = (\<lambda>k. if k \<in> set ks then Some v else lookup m k)"
proof (induction ks arbitrary: m)
  case (Cons k ks)
  then obtain m1 where m1: "reg True m k v = Some (m1, 1)" "invar m1" "lookup m1 = (lookup m)(k \<mapsto> v)"
    using reg_new [of m k v] by auto
  have "\<forall>k' \<in> set ks. valid k' \<and> k' \<notin> dom (lookup m1)"
    using Cons.prems(2,3) m1(3) by (auto split: if_splits)
  then have "\<exists>m'. ns_each (\<lambda>m k. reg True m k v) m1 ks = Some (m', XRP_STATUS_SUCCESS) \<and> invar m' \<and>
        lookup m' = (\<lambda>k. if k \<in> set ks then Some v else lookup m1 k)"
    using Cons.prems(3) m1(2) by (intro Cons.IH) auto
  with m1 show ?case by (auto simp: fun_eq_iff)
qed simp

lemma unregister_all:
  "invar m \<Longrightarrow> \<forall>k \<in> set ks. valid k \<and> k \<in> dom (lookup m) \<Longrightarrow> distinct ks \<Longrightarrow>
   \<exists>m'. ns_each unreg m ks = Some (m', XRP_STATUS_SUCCESS) \<and> invar m' \<and>
        lookup m' = (\<lambda>k. if k \<in> set ks then None else lookup m k)"
proof (induction ks arbitrary: m)
  case (Cons k ks)
  then obtain m1 where m1: "unreg m k = Some (m1, 1)" "invar m1" "lookup m1 = (lookup m)(k := None)"
    using unreg_old [of m k] by auto
  have "\<exists>m'. ns_each unreg m1 ks = Some (m', XRP_STATUS_SUCCESS) \<and> invar m' \<and>
        lookup m' = (\<lambda>k. if k \<in> set ks then None else lookup m1 k)"
    using Cons.prems m1 by (intro Cons.IH) auto
  with m1 show ?case by (auto simp: fun_eq_iff)
qed (auto simp: fun_eq_iff)

lemma test_ns_restores:
  assumes "invar m" and "\<forall>k \<in> set ks. valid k \<and> k \<notin> dom (lookup m)" and "distinct ks"
  shows "\<exists>m'. test_ns (\<lambda>m k. reg True m k v) unreg m ks = Some (m', XRP_STATUS_SUCCESS) \<and>
           invar m' \<and> lookup m' = lookup m"
proof -
  from register_all [OF assms] obtain m1 where
    m1: "ns_each (\<lambda>m k. reg True m k v) m ks = Some (m1, XRP_STATUS_SUCCESS)" "invar m1"
    "lookup m1 = (\<lambda>k. if k \<in> set ks then Some v else lookup m k)" by blast
  have "\<forall>k \<in> set ks. valid k \<and> k \<in> dom (lookup m1)" using assms(2) m1(3) by auto
  from unregister_all [OF m1(2) this assms(3)] obtain m2 where
    m2: "ns_each unreg m1 ks = Some (m2, XRP_STATUS_SUCCESS)" "invar m2"
    "lookup m2 = (\<lambda>k. if k \<in> set ks then None else lookup m1 k)" by blast
  have "lookup m2 = lookup m" using assms(2) by (auto simp: m2(3) m1(3) fun_eq_iff dom_def)
  with m1(1) m2(1,2) show ?thesis by (auto simp: test_ns_def)
qed

lemma reg_twice:
  assumes "invar m" and "valid k" and "k \<notin> dom (lookup m)"
  shows "\<exists>m'. reg True m k v = Some (m', 1) \<and> reg ok m' k w = Some (m', 0) \<and> lookup m' k = Some v"
  using reg_new [OF assms, of v] reg_old [of _ k ok w] assms(2) by fastforce

end

interpretation xrp_ns: ns_registry
  "\<lambda>ok m k v. xrp_register_namespace ok m k (fst v) (snd v)" xrp_unregister_namespace
  ns_lookup ns_ok "\<lambda>k. length k = XRP_NAMESPACE_ID_SIZE"
proof
  fix m :: xrp_cmd_ns_map and k :: bytes and v :: "ptr \<times> ptr" and ok :: bool
  assume m: "ns_ok m" and k: "length k = XRP_NAMESPACE_ID_SIZE"
  then have key: "ns_key k = k" by (simp add: ns_key_def)
  from k have len: "XRP_NAMESPACE_ID_SIZE \<le> length k" by simp
  show "xrp_register_namespace ok m k (fst v) (snd v) = Some (m, 0)" if "k \<in> dom (ns_lookup m)"
    using that xrp_register_namespace_spec [OF m len, of ok "fst v" "snd v"]
    by (auto simp: reg_spec_def key)
  from xrp_register_namespace_spec [OF m len, of True "fst v" "snd v"] obtain m1 r where
    m1: "xrp_register_namespace True m k (fst v) (snd v) = Some (m1, r)" "ns_ok m1"
    "reg_spec True m k v m1 r" unfolding key by auto
  show "\<exists>m'. xrp_register_namespace True m k (fst v) (snd v) = Some (m', 1) \<and> ns_ok m' \<and>
          ns_lookup m' = (ns_lookup m)(k \<mapsto> v)" if "k \<notin> dom (ns_lookup m)"
    using that m1 by (auto simp: reg_spec_def)
  from xrp_unregister_namespace_spec [OF m len] obtain m' where
    m': "xrp_unregister_namespace m k = Some (m', if k \<in> dom (ns_lookup m) then 1 else 0)"
    "ns_ok m'" "ns_lookup m' = (ns_lookup m)(k := None)" unfolding key by blast
  show "\<exists>m'. xrp_unregister_namespace m k = Some (m', 1) \<and> ns_ok m' \<and>
          ns_lookup m' = (ns_lookup m)(k := None)" if "k \<in> dom (ns_lookup m)"
    using that m' by auto
  show "\<exists>m'. xrp_unregister_namespace m k = Some (m', 0) \<and> ns_ok m' \<and> ns_lookup m' = ns_lookup m"
    if "k \<notin> dom (ns_lookup m)"
    using that m' by (auto simp: domIff fun_upd_idem)
qed

section \<open>Properties\<close>

lemma ns_empty_ok: "ns_ok ns_empty" "ns_lookup ns_empty = Map.empty"
  by (simp_all add: ns_empty_def ns_ok_def ns_entries_def ns_lookup_def)

definition ns_one :: xrp_cmd_ns_map where
  "ns_one = \<lparr>n_cmd_ns = 1, size_cmd_ns = 2,
     cmd_ns = [Some \<lparr>ns_id = replicate 32 7, ns_handler = Some 100, ns_context = None\<rparr>, None]\<rparr>"

lemma ns_one_ok: "ns_ok ns_one" "ns_lookup ns_one = [replicate 32 7 \<mapsto> (Some 100, None)]"
  by (auto simp: ns_one_def ns_ok_def ns_entries_def ns_lookup_def holds_def)

text \<open>
  C12. Registering a namespace refines the update of a partial map. The call always returns and stays
  inside the array; it answers 1 and adds exactly the new binding when the id was free and memory
  (needed only when the table is full) was there, and otherwise answers 0 and changes nothing. The
  table stays sorted and within its capacity, which grows to \<open>2 * (size + 1)\<close> exactly when full.
\<close>

theorem ns_register_correct:
  assumes "ns_ok m" and "XRP_NAMESPACE_ID_SIZE \<le> length nsid"
  shows "\<exists>m' r. xrp_register_namespace ok m nsid h c = Some (m', r) \<and> ns_ok m' \<and>
    (if ns_key nsid \<in> dom (ns_lookup m) \<or> n_cmd_ns m = size_cmd_ns m \<and> \<not> ok
     then r = 0 \<and> m' = m
     else r = 1 \<and> ns_lookup m' = (ns_lookup m)(ns_key nsid \<mapsto> (h, c)) \<and>
          n_cmd_ns m' = Suc (n_cmd_ns m) \<and>
          size_cmd_ns m' =
            (if n_cmd_ns m = size_cmd_ns m then (size_cmd_ns m + 1) * 2 else size_cmd_ns m))"
  using xrp_register_namespace_spec [OF assms, of ok h c] unfolding reg_spec_def by metis

theorem ns_register_correct_witness:
  "\<exists>m'. xrp_register_namespace False ns_one (replicate 32 3) (Some 5) None = Some (m', 1) \<and>
     ns_lookup m' = [replicate 32 7 \<mapsto> (Some 100, None), replicate 32 3 \<mapsto> (Some 5, None)]"
proof -
  have key: "ns_key (replicate 32 3) = replicate 32 3" by (simp add: ns_key_def)
  have "replicate 32 (3 :: u8) \<noteq> replicate 32 7" by (simp add: replicate_eq_replicate)
  moreover have "n_cmd_ns ns_one \<noteq> size_cmd_ns ns_one" by (simp add: ns_one_def)
  ultimately show ?thesis
    using ns_register_correct [OF ns_one_ok(1), of "replicate 32 3" False "Some 5" None]
    by (simp add: key ns_one_ok(2)) metis
qed

text \<open>
  C15. Unregistering refines the removal of a key: it always returns and stays inside the array,
  answers 1 exactly when the id was registered, and afterwards that id is gone while every other
  binding, the order and the capacity are as before.
\<close>

theorem ns_unregister_correct:
  assumes "ns_ok m" and "XRP_NAMESPACE_ID_SIZE \<le> length nsid"
  shows "\<exists>m'. xrp_unregister_namespace m nsid =
             Some (m', if ns_key nsid \<in> dom (ns_lookup m) then 1 else 0) \<and>
           ns_ok m' \<and> ns_lookup m' = (ns_lookup m)(ns_key nsid := None) \<and>
           size_cmd_ns m' = size_cmd_ns m"
  using xrp_unregister_namespace_spec [OF assms] by metis

theorem ns_unregister_correct_witness:
  "\<exists>m'. xrp_unregister_namespace ns_one (replicate 32 7) = Some (m', 1) \<and>
     ns_lookup m' = Map.empty \<and> size_cmd_ns m' = 2"
proof -
  have key: "ns_key (replicate 32 7) = replicate 32 7" by (simp add: ns_key_def)
  have "size_cmd_ns ns_one = 2" by (simp add: ns_one_def)
  then show ?thesis
    using ns_unregister_correct [OF ns_one_ok(1), of "replicate 32 7"]
    by (auto simp: key ns_one_ok(2))
qed

text \<open>
  The bisection is correct and stays in bounds: it returns the first position whose id is not
  below the key, so the test \<open>cmd_ns_present && xrp_cmd_ns_match\<close> made on it holds exactly when the
  namespace is registered, and the entry found is the registered one.
\<close>

theorem ns_find_correct:
  assumes "ns_ok m" and "XRP_NAMESPACE_ID_SIZE \<le> length nsid"
  shows "\<exists>p. xrp_find_cmd_ns m nsid = Some p \<and> p \<le> n_cmd_ns m \<and>
    (\<forall>j < p. ns_id (ns_entries m ! j) < ns_key nsid) \<and>
    ns_found m nsid p = Some (ns_key nsid \<in> dom (ns_lookup m)) \<and>
    (ns_key nsid \<in> dom (ns_lookup m) \<longrightarrow> ns_id (ns_entries m ! p) = ns_key nsid)"
proof -
  obtain p where p: "xrp_find_cmd_ns m nsid = Some p" "ns_point m (ns_key nsid) p"
    using xrp_find_cmd_ns_point [OF assms] by blast
  have "p < n_cmd_ns m \<Longrightarrow> ns_ids m ! p = ns_id (ns_entries m ! p)" and
    "\<forall>j < p. ns_id (ns_entries m ! j) < ns_key nsid"
    using p(2) ns_okD(1) [OF assms(1)] by (auto simp: ns_point_def)
  moreover have "p \<le> n_cmd_ns m" using p(2) by (simp add: ns_point_def)
  ultimately show ?thesis
    using p(1) ns_found_point [OF assms p(2)] by metis
qed

theorem ns_find_correct_witness:
  "\<exists>p. xrp_find_cmd_ns ns_one (replicate 32 7) = Some p \<and> ns_found ns_one (replicate 32 7) p = Some True"
proof -
  have "ns_key (replicate 32 7) = replicate 32 7" by (simp add: ns_key_def)
  then show ?thesis
    using ns_find_correct [OF ns_one_ok(1), of "replicate 32 7"] by (auto simp: ns_one_ok(2))
qed

text \<open>
  The self test \<open>test_ns\<close> of the DSP example, run on the namespace table: for any list of
  distinct ids that are not yet registered it reports success and leaves every binding as it was.
\<close>

theorem test_ns_succeeds:
  assumes "ns_ok m" and "distinct test_nsid"
    and "\<forall>k \<in> set test_nsid. length k = XRP_NAMESPACE_ID_SIZE \<and> k \<notin> dom (ns_lookup m)"
  shows "\<exists>m'. test_ns (\<lambda>m k. xrp_register_namespace True m k None None) xrp_unregister_namespace
               m test_nsid = Some (m', XRP_STATUS_SUCCESS) \<and>
             ns_ok m' \<and> ns_lookup m' = ns_lookup m"
  using xrp_ns.test_ns_restores [OF assms(1,3,2), of "(None, None)"] by simp

theorem test_ns_succeeds_witness:
  "\<exists>m'. test_ns (\<lambda>m k. xrp_register_namespace True m k None None) xrp_unregister_namespace
          ns_empty [replicate 32 9, replicate 32 4] = Some (m', XRP_STATUS_SUCCESS) \<and>
        ns_lookup m' = Map.empty"
proof -
  have "distinct [replicate 32 (9 :: u8), replicate 32 4]" by (simp add: replicate_eq_replicate)
  then show ?thesis
    using test_ns_succeeds [OF ns_empty_ok(1), of "[replicate 32 9, replicate 32 4]"]
    by (auto simp: ns_empty_ok(2))
qed

end
