(* ===== verification/Request_Queue.thy ===== *)
theory Request_Queue
  imports Xrp_Prelude
begin

text \<open>
  The request queue and its worker thread, \<open>xrp-host/src/xrp_threaded_queue.c\<close>: a singly linked
  list of items through their \<open>next\<close> fields, guarded by one mutex and condition variable. The first
  half models the list operations on an explicit store of \<open>next\<close> pointers and shows that they are a
  FIFO; the second half is the state machine of the worker, the submitting threads and the
  destroying thread, one step per critical section.
\<close>

section \<open>The linked list\<close>

text \<open>
  \<open>rq_next\<close> maps the address of every live item to its \<open>next\<close> field; an access to an item outside
  its domain is undefined behaviour. \<open>rq_exit\<close> is the \<open>exit\<close> flag of the queue.
\<close>

record xrp_request_queue =
  rq_head :: ptr
  rq_tail :: ptr
  rq_exit :: bool
  rq_next :: "addr \<rightharpoonup> ptr"

definition xrp_dequeue_request :: "xrp_request_queue \<Rightarrow> (xrp_request_queue \<times> ptr) option" where
  "xrp_dequeue_request q =
     (case rq_head q of
        None \<Rightarrow> Some (q, None)
      | Some rq \<Rightarrow> do {
          let q1 = (if rq_tail q = Some rq then q\<lparr>rq_tail := None\<rparr> else q);
          n \<leftarrow> rq_next q1 rq;
          Some (q1\<lparr>rq_head := n\<rparr>, Some rq)
        })"

definition set_next :: "addr \<Rightarrow> ptr \<Rightarrow> xrp_request_queue \<Rightarrow> xrp_request_queue option" where
  "set_next rq p q =
     (if rq \<in> dom (rq_next q) then Some (q\<lparr>rq_next := (rq_next q)(rq \<mapsto> p)\<rparr>) else None)"

text \<open>\<open>xrp_queue_push\<close>; the flag says whether it signalled the condition variable.\<close>

definition xrp_queue_push :: "xrp_request_queue \<Rightarrow> addr \<Rightarrow> (xrp_request_queue \<times> bool) option" where
  "xrp_queue_push q rq = do {
     q1 \<leftarrow> set_next rq None q;
     (q2, broadcast) \<leftarrow>
       (case rq_tail q1 of
          Some t \<Rightarrow> do { q2 \<leftarrow> set_next t (Some rq) q1; Some (q2, False) }
        | None \<Rightarrow> Some (q1\<lparr>rq_head := Some rq\<rparr>, True));
     Some (q2\<lparr>rq_tail := Some rq\<rparr>, broadcast)
   }"

definition xrp_queue_init :: xrp_request_queue where
  "xrp_queue_init = \<lparr>rq_head = None, rq_tail = None, rq_exit = False, rq_next = Map.empty\<rparr>"

text \<open>The items on the path from \<open>p\<close> to NULL.\<close>

fun next_path :: "(addr \<rightharpoonup> ptr) \<Rightarrow> ptr \<Rightarrow> addr list \<Rightarrow> bool" where
  "next_path h p [] \<longleftrightarrow> p = None"
| "next_path h p (x # xs) \<longleftrightarrow>
     p = Some x \<and> (case h x of None \<Rightarrow> False | Some n \<Rightarrow> next_path h n xs)"

definition queue_repr :: "xrp_request_queue \<Rightarrow> addr list \<Rightarrow> bool" where
  "queue_repr q xs \<longleftrightarrow> next_path (rq_next q) (rq_head q) xs \<and> distinct xs \<and>
     rq_tail q = (if xs = [] then None else Some (last xs))"

lemma next_path_live: "next_path h p xs \<Longrightarrow> set xs \<subseteq> dom h"
  by (induction h p xs rule: next_path.induct) (auto split: option.splits)

lemma next_path_upd: "y \<notin> set xs \<Longrightarrow> next_path (h(y := n)) p xs = next_path h p xs"
  by (induction h p xs rule: next_path.induct) (auto split: option.splits)

lemma next_path_snoc:
  "next_path h p (xs @ [x]) \<Longrightarrow> distinct (xs @ [x]) \<Longrightarrow> y \<notin> set (xs @ [x]) \<Longrightarrow>
   next_path (h(x \<mapsto> Some y, y \<mapsto> None)) p (xs @ [x, y])"
proof (induction xs arbitrary: p)
  case (Cons z xs)
  then show ?case by (auto split: option.splits)
qed (auto split: option.splits)

lemma queue_repr_Nil: "queue_repr q [] \<longleftrightarrow> rq_head q = None \<and> rq_tail q = None"
  by (simp add: queue_repr_def)

lemma queue_repr_live: "queue_repr q xs \<Longrightarrow> set xs \<subseteq> dom (rq_next q)"
  by (auto simp: queue_repr_def dest: next_path_live)

lemma xrp_queue_push_ok:
  assumes q: "queue_repr q xs" and rq: "rq \<in> dom (rq_next q)" "rq \<notin> set xs"
  shows "\<exists>q'. xrp_queue_push q rq = Some (q', xs = []) \<and> queue_repr q' (xs @ [rq]) \<and>
           dom (rq_next q') = dom (rq_next q) \<and> rq_exit q' = rq_exit q"
proof (cases xs rule: rev_cases)
  case Nil
  with q rq show ?thesis
    by (auto simp: xrp_queue_push_def set_next_def queue_repr_def)
next
  case (snoc ys y)
  then have y: "y \<in> dom (rq_next q)" "y \<noteq> rq" using queue_repr_live [OF q] rq by auto
  let ?h = "(rq_next q)(y \<mapsto> Some rq, rq \<mapsto> None)"
  have "next_path ?h (rq_head q) (ys @ [y, rq])"
    using q rq snoc by (intro next_path_snoc) (auto simp: queue_repr_def)
  moreover have "xrp_queue_push q rq = Some (q\<lparr>rq_next := ?h, rq_tail := Some rq\<rparr>, False)"
    using q rq snoc y by (auto simp: xrp_queue_push_def set_next_def queue_repr_def fun_upd_twist)
  ultimately show ?thesis
    using q rq snoc y by (auto simp: queue_repr_def)
qed

lemma xrp_dequeue_Nil: "queue_repr q [] \<Longrightarrow> xrp_dequeue_request q = Some (q, None)"
  by (simp add: queue_repr_def xrp_dequeue_request_def)

lemma xrp_dequeue_Cons:
  assumes "queue_repr q (x # xs)"
  shows "\<exists>q'. xrp_dequeue_request q = Some (q', Some x) \<and> queue_repr q' xs \<and>
           rq_next q' = rq_next q \<and> rq_exit q' = rq_exit q"
proof -
  let ?q = "if rq_tail q = Some x then q\<lparr>rq_tail := None\<rparr> else q"
  from assms obtain n where n: "rq_head q = Some x" "rq_next q x = Some n" "next_path (rq_next q) n xs"
    by (auto simp: queue_repr_def split: option.splits)
  then have "xrp_dequeue_request q = Some (?q\<lparr>rq_head := n\<rparr>, Some x)"
    by (simp add: xrp_dequeue_request_def Let_def)
  moreover have "rq_tail ?q = (if xs = [] then None else Some (last xs))"
    using assms by (cases xs rule: rev_cases) (auto simp: queue_repr_def)
  then have "queue_repr (?q\<lparr>rq_head := n\<rparr>) xs"
    using assms n by (auto simp: queue_repr_def)
  ultimately show ?thesis by auto
qed

lemma queue_repr_free:
  "queue_repr q xs \<Longrightarrow> x \<notin> set xs \<Longrightarrow> queue_repr (q\<lparr>rq_next := (rq_next q)(x := n)\<rparr>) xs"
  by (simp add: queue_repr_def next_path_upd)

lemma queue_repr_exit [simp]: "queue_repr (q\<lparr>rq_exit := e\<rparr>) xs = queue_repr q xs"
  by (simp add: queue_repr_def)

section \<open>The queue as an interface\<close>

text \<open>
  The contract the worker relies on: a representation relation to a list, \<open>push\<close> at the back of an
  item that is live and not queued, and \<open>pop\<close> at the front.
\<close>

locale fifo_queue =
  fixes push :: "'q \<Rightarrow> 'a \<Rightarrow> ('q \<times> bool) option"
    and pop :: "'q \<Rightarrow> ('q \<times> 'a option) option"
    and live :: "'q \<Rightarrow> 'a set"
    and repr :: "'q \<Rightarrow> 'a list \<Rightarrow> bool"
  assumes push_back: "repr q xs \<Longrightarrow> x \<in> live q \<Longrightarrow> x \<notin> set xs \<Longrightarrow>
      \<exists>q'. push q x = Some (q', xs = []) \<and> repr q' (xs @ [x]) \<and> live q' = live q"
    and pop_empty: "repr q [] \<Longrightarrow> pop q = Some (q, None)"
    and pop_front: "repr q (x # xs) \<Longrightarrow>
      \<exists>q'. pop q = Some (q', Some x) \<and> repr q' xs \<and> live q' = live q"

fun push_all :: "('q \<Rightarrow> 'a \<Rightarrow> ('q \<times> bool) option) \<Rightarrow> 'q \<Rightarrow> 'a list \<Rightarrow> 'q option" where
  "push_all push q [] = Some q"
| "push_all push q (x # xs) = do { (q', b) \<leftarrow> push q x; push_all push q' xs }"

fun pop_all :: "('q \<Rightarrow> ('q \<times> 'a option) option) \<Rightarrow> nat \<Rightarrow> 'q \<Rightarrow> ('q \<times> 'a list) option" where
  "pop_all pop 0 q = Some (q, [])"
| "pop_all pop (Suc n) q = do {
     (q', r) \<leftarrow> pop q;
     (case r of None \<Rightarrow> Some (q', [])
      | Some x \<Rightarrow> do { (q'', xs) \<leftarrow> pop_all pop n q'; Some (q'', x # xs) })
   }"

context fifo_queue begin

lemma push_all_repr:
  "repr q xs \<Longrightarrow> set ys \<subseteq> live q \<Longrightarrow> distinct (xs @ ys) \<Longrightarrow>
   \<exists>q'. push_all push q ys = Some q' \<and> repr q' (xs @ ys) \<and> live q' = live q"
proof (induction ys arbitrary: q xs)
  case (Cons y ys)
  then obtain q1 where q1: "push q y = Some (q1, xs = [])" "repr q1 (xs @ [y])" "live q1 = live q"
    using push_back [of q xs y] by auto
  have "\<exists>q'. push_all push q1 ys = Some q' \<and> repr q' ((xs @ [y]) @ ys) \<and> live q' = live q1"
    using Cons.prems q1 by (intro Cons.IH) auto
  with q1 show ?case by auto
qed simp

lemma pop_all_repr:
  "repr q xs \<Longrightarrow> length xs \<le> n \<Longrightarrow> \<exists>q'. pop_all pop n q = Some (q', xs) \<and> repr q' []"
proof (induction n arbitrary: q xs)
  case (Suc n)
  show ?case
  proof (cases xs)
    case Nil
    with Suc.prems show ?thesis by (auto simp: pop_empty)
  next
    case (Cons y ys)
    with Suc.prems pop_front [of q y ys] obtain q1 where
      q1: "pop q = Some (q1, Some y)" "repr q1 ys" by auto
    with Suc.IH [of q1 ys] Suc.prems Cons show ?thesis by auto
  qed
qed simp

lemma fifo_order:
  assumes "repr q xs" and "set ys \<subseteq> live q" and "distinct (xs @ ys)" and "length (xs @ ys) \<le> n"
  shows "\<exists>q1 q2. push_all push q ys = Some q1 \<and> pop_all pop n q1 = Some (q2, xs @ ys) \<and> repr q2 []"
  using push_all_repr [OF assms(1-3)] pop_all_repr [OF _ assms(4)] by blast

end

interpretation xrp_fifo: fifo_queue xrp_queue_push xrp_dequeue_request "\<lambda>q. dom (rq_next q)" queue_repr
proof
  fix q x and xs :: "addr list"
  show "\<exists>q'. xrp_queue_push q x = Some (q', xs = []) \<and> queue_repr q' (xs @ [x]) \<and>
          dom (rq_next q') = dom (rq_next q)"
    if "queue_repr q xs" "x \<in> dom (rq_next q)" "x \<notin> set xs"
    using xrp_queue_push_ok [OF that] by blast
  show "xrp_dequeue_request q = Some (q, None)" if "queue_repr q []"
    using that by (rule xrp_dequeue_Nil)
  show "\<exists>q'. xrp_dequeue_request q = Some (q', Some x) \<and> queue_repr q' xs \<and>
          dom (rq_next q') = dom (rq_next q)" if "queue_repr q (x # xs)"
    using xrp_dequeue_Cons [OF that] by auto
qed

section \<open>The worker thread\<close>

text \<open>
  Where the worker is: before the lock of \<open>xrp_queue_process\<close>, asleep in \<open>xrp_cond_wait\<close>, woken but
  not yet past the re-lock, running \<open>fn\<close> on an item, or returned from \<open>xrp_queue_thread\<close>.
\<close>

datatype worker = W_Top | W_Waiting | W_Woken | W_Run addr | W_Exited

text \<open>
  One pass of the loop under the lock: an item ends it, then the exit flag does, else it waits.
\<close>

definition xrp_queue_poll :: "xrp_request_queue \<Rightarrow> (xrp_request_queue \<times> worker) option" where
  "xrp_queue_poll q = do {
     (q1, rq) \<leftarrow> xrp_dequeue_request q;
     Some (q1, case rq of
                 Some x \<Rightarrow> W_Run x
               | None \<Rightarrow> if rq_exit q1 then W_Exited else W_Waiting)
   }"

text \<open>After \<open>fn\<close> returned: \<open>return !exit\<close>, with \<open>exit\<close> the worker's own variable.\<close>

definition xrp_queue_next :: "bool \<Rightarrow> worker" where
  "xrp_queue_next sync_exit = (if \<not> sync_exit then W_Top else W_Exited)"

definition wake :: "worker \<Rightarrow> worker" where
  "wake w = (if w = W_Waiting then W_Woken else w)"

text \<open>The state, with the history of the items submitted and of those whose \<open>fn\<close> was started.\<close>

record wq_sys =
  wq :: xrp_request_queue
  wstate :: worker
  sync_exit :: bool
  submitted :: "addr list"
  started :: "addr list"

definition wq_init :: wq_sys where
  "wq_init = \<lparr>wq = xrp_queue_init, wstate = W_Top, sync_exit = False, submitted = [], started = []\<rparr>"

definition run_of :: "worker \<Rightarrow> addr list" where
  "run_of w = (case w of W_Run x \<Rightarrow> [x] | _ \<Rightarrow> [])"

text \<open>The worker's own steps. \<open>fn\<close> frees the item it was given.\<close>

inductive worker_step :: "wq_sys \<Rightarrow> wq_sys \<Rightarrow> bool" where
  poll: "wstate s = W_Top \<or> wstate s = W_Woken \<Longrightarrow> xrp_queue_poll (wq s) = Some (q', w) \<Longrightarrow>
     worker_step s (s\<lparr>wq := q', wstate := w, started := started s @ run_of w\<rparr>)"
| finish: "wstate s = W_Run x \<Longrightarrow>
     worker_step s (s\<lparr>wq := (wq s)\<lparr>rq_next := (rq_next (wq s))(x := None)\<rparr>,
                       wstate := xrp_queue_next (sync_exit s)\<rparr>)"

text \<open>
  Steps of the system: a thread submits a freshly allocated item (until the queue is being
  destroyed), another thread starts \<open>xrp_queue_destroy\<close>, the worker does so itself from inside \<open>fn\<close>
  (then \<open>xrp_thread_join\<close> fails and \<open>*sync_exit\<close> is set), or the wait wakes spuriously.
\<close>

inductive wq_step :: "wq_sys \<Rightarrow> wq_sys \<Rightarrow> bool" where
  worker: "worker_step s t \<Longrightarrow> wq_step s t"
| submit: "\<not> rq_exit (wq s) \<Longrightarrow> x \<notin> dom (rq_next (wq s)) \<Longrightarrow>
     xrp_queue_push ((wq s)\<lparr>rq_next := (rq_next (wq s))(x \<mapsto> None)\<rparr>) x = Some (q', b) \<Longrightarrow>
     wq_step s (s\<lparr>wq := q', wstate := (if b then wake (wstate s) else wstate s),
                   submitted := submitted s @ [x]\<rparr>)"
| destroy: "wq_step s (s\<lparr>wq := (wq s)\<lparr>rq_exit := True\<rparr>, wstate := wake (wstate s)\<rparr>)"
| self_destroy: "wstate s = W_Run x \<Longrightarrow>
     wq_step s (s\<lparr>wq := (wq s)\<lparr>rq_exit := True\<rparr>, sync_exit := True\<rparr>)"
| spurious: "wstate s = W_Waiting \<Longrightarrow> wq_step s (s\<lparr>wstate := W_Woken\<rparr>)"

inductive wq_reachable :: "wq_sys \<Rightarrow> bool" where
  start: "wq_reachable wq_init"
| step: "wq_reachable s \<Longrightarrow> wq_step s t \<Longrightarrow> wq_reachable t"

text \<open>
  The invariant: the linked list is well formed, the submitted items are those started followed by
  those queued, a waiting worker has nothing to do, and the worker returns only when it drained the
  queue or destroyed it itself.
\<close>

definition wq_inv :: "wq_sys \<Rightarrow> addr list \<Rightarrow> bool" where
  "wq_inv s pending \<longleftrightarrow>
     queue_repr (wq s) pending \<and> submitted s = started s @ pending \<and>
     (wstate s = W_Waiting \<longrightarrow> pending = [] \<and> \<not> rq_exit (wq s)) \<and>
     (wstate s = W_Exited \<longrightarrow> sync_exit s \<or> rq_exit (wq s) \<and> pending = []) \<and>
     (sync_exit s \<longrightarrow> rq_exit (wq s) \<and> (wstate s = W_Exited \<or> (\<exists>x. wstate s = W_Run x))) \<and>
     (\<forall>x. wstate s = W_Run x \<longrightarrow> x \<in> dom (rq_next (wq s)) \<and> x \<notin> set pending)"

lemma wq_init_inv: "wq_inv wq_init []"
  by (simp add: wq_inv_def wq_init_def xrp_queue_init_def queue_repr_def)

lemma poll_cases:
  assumes "queue_repr q xs" and "xrp_queue_poll q = Some (q', w)"
  obtains (idle) "xs = []" and "q' = q" and "w = (if rq_exit q then W_Exited else W_Waiting)"
  | (item) x ys where "xs = x # ys" and "queue_repr q' ys" and "w = W_Run x"
      and "rq_next q' = rq_next q" and "rq_exit q' = rq_exit q" and "x \<notin> set ys"
      and "x \<in> dom (rq_next q)"
proof (cases xs)
  case Nil
  with assms(1) have "xrp_dequeue_request q = Some (q, None)" by (simp add: xrp_dequeue_Nil)
  with assms(2) have "q' = q" and "w = (if rq_exit q then W_Exited else W_Waiting)"
    by (auto simp: xrp_queue_poll_def)
  with Nil show thesis by (rule idle)
next
  case (Cons x ys)
  with assms(1) have x: "x \<notin> set ys" "x \<in> dom (rq_next q)"
    using queue_repr_live [OF assms(1)] by (auto simp: queue_repr_def)
  from Cons assms(1) xrp_dequeue_Cons [of q x ys] obtain q1 where
    "xrp_dequeue_request q = Some (q1, Some x)" "queue_repr q1 ys" "rq_next q1 = rq_next q"
    "rq_exit q1 = rq_exit q" by blast
  with assms(2) x Cons show thesis by (intro item) (simp_all add: xrp_queue_poll_def)
qed


lemma worker_step_inv: "worker_step s t \<Longrightarrow> wq_inv s xs \<Longrightarrow> \<exists>ys. wq_inv t ys"
proof (induction rule: worker_step.induct)
  case (poll s q' w)
  from poll.prems have q: "queue_repr (wq s) xs" by (simp add: wq_inv_def)
  from q poll.hyps(2) show ?case
  proof (cases rule: poll_cases)
    case idle
    with poll show ?thesis by (intro exI [of _ "[]"]) (auto simp: wq_inv_def run_of_def)
  next
    case (item x ys)
    with poll show ?thesis by (intro exI [of _ ys]) (auto simp: wq_inv_def run_of_def)
  qed
next
  case (finish s x)
  then show ?case
    by (intro exI [of _ xs]) (auto simp: wq_inv_def xrp_queue_next_def queue_repr_free)
qed

lemma wq_step_inv: "wq_step s t \<Longrightarrow> wq_inv s xs \<Longrightarrow> \<exists>ys. wq_inv t ys"
proof (induction rule: wq_step.induct)
  case (worker s t)
  then show ?case by (blast dest: worker_step_inv)
next
  case (submit s x q' b)
  let ?q = "(wq s)\<lparr>rq_next := (rq_next (wq s))(x \<mapsto> None)\<rparr>"
  from submit.prems have q: "queue_repr (wq s) xs" by (simp add: wq_inv_def)
  then have x: "x \<notin> set xs" using submit.hyps(2) queue_repr_live by blast
  with q have "queue_repr ?q xs" by (rule queue_repr_free)
  from xrp_queue_push_ok [OF this _ x] submit.hyps(3) have
    "b = (xs = [])" "queue_repr q' (xs @ [x])" "rq_exit q' = rq_exit (wq s)"
    "dom (rq_next q') = insert x (dom (rq_next (wq s)))" by auto
  with submit.prems submit.hyps(1,2) show ?case
    by (intro exI [of _ "xs @ [x]"]) (auto simp: wq_inv_def wake_def)
next
  case (destroy s)
  then show ?case by (intro exI [of _ xs]) (auto simp: wq_inv_def wake_def)
next
  case (self_destroy s x)
  then show ?case by (intro exI [of _ xs]) (auto simp: wq_inv_def)
next
  case (spurious s)
  then show ?case by (intro exI [of _ xs]) (auto simp: wq_inv_def)
qed

lemma wq_reachable_inv: "wq_reachable s \<Longrightarrow> \<exists>pending. wq_inv s pending"
proof (induction rule: wq_reachable.induct)
  case start
  show ?case using wq_init_inv by blast
next
  case (step s t)
  then show ?case by (blast intro: wq_step_inv)
qed


section \<open>Properties\<close>

text \<open>
  The linked list of requests is a FIFO: from a queue holding \<open>xs\<close>, pushing the live items \<open>ys\<close>
  and dequeuing until empty touches only live items and yields \<open>xs\<close> then \<open>ys\<close>, each once, in order.
\<close>

theorem request_queue_fifo:
  assumes "queue_repr q xs" and "set ys \<subseteq> dom (rq_next q)" and "distinct (xs @ ys)"
  shows "\<exists>q1 q2. push_all xrp_queue_push q ys = Some q1 \<and>
           pop_all xrp_dequeue_request (length (xs @ ys)) q1 = Some (q2, xs @ ys) \<and> queue_repr q2 []"
  using xrp_fifo.fifo_order [OF assms order_refl] .

theorem request_queue_fifo_witness:
  "\<exists>q1 q2. push_all xrp_queue_push (xrp_queue_init\<lparr>rq_next := [4 \<mapsto> None, 9 \<mapsto> None]\<rparr>) [9, 4] = Some q1 \<and>
     pop_all xrp_dequeue_request (length [9 :: addr, 4]) q1 = Some (q2, [9, 4])"
proof -
  have "queue_repr (xrp_queue_init\<lparr>rq_next := [4 \<mapsto> None, 9 \<mapsto> None]\<rparr>) []"
    by (simp add: queue_repr_def xrp_queue_init_def)
  then show ?thesis
    using request_queue_fifo [of "xrp_queue_init\<lparr>rq_next := [4 \<mapsto> None, 9 \<mapsto> None]\<rparr>" "[]" "[9, 4]"]
    by (auto simp del: push_all.simps pop_all.simps simp: xrp_queue_init_def)
qed

text \<open>
  C5. In every interleaving of submitting threads, the worker, spurious wake-ups and destruction,
  requests are started in the order they were submitted, each at most once; a worker that sleeps has
  nothing queued and was not asked to exit (no wake-up is lost, although \<open>xrp_queue_push\<close> signals
  only when the queue was empty); and a worker that returned without having destroyed the queue from
  inside its own callback has started every request.
\<close>

theorem worker_safety:
  assumes "wq_reachable s"
  shows "\<exists>pending. queue_repr (wq s) pending \<and> submitted s = started s @ pending \<and>
    (wstate s = W_Waiting \<longrightarrow> pending = [] \<and> \<not> rq_exit (wq s)) \<and>
    (wstate s = W_Exited \<longrightarrow> sync_exit s \<or> pending = [])"
  using wq_reachable_inv [OF assms] by (auto simp: wq_inv_def)


text \<open>A run in which two requests are submitted before the worker first takes the lock.\<close>

definition wq_two :: wq_sys where
  "wq_two = \<lparr>wq = \<lparr>rq_head = Some 4, rq_tail = Some 9, rq_exit = False,
                    rq_next = [4 \<mapsto> Some 9, 9 \<mapsto> None]\<rparr>,
     wstate = W_Top, sync_exit = False, submitted = [4, 9], started = []\<rparr>"

lemma wq_two_reachable: "wq_reachable wq_two"
proof -
  let ?s1 = "\<lparr>wq = \<lparr>rq_head = Some 4, rq_tail = Some 4, rq_exit = False, rq_next = [4 \<mapsto> None]\<rparr>,
     wstate = W_Top, sync_exit = False, submitted = [4], started = []\<rparr>"
  have "wq_step wq_init ?s1"
    using wq_step.submit [of wq_init 4]
    by (simp add: wq_init_def xrp_queue_init_def xrp_queue_push_def set_next_def wake_def)
  moreover have "wq_step ?s1 wq_two"
    using wq_step.submit [of ?s1 9 "wq wq_two" False]
    by (simp add: wq_two_def xrp_queue_push_def set_next_def fun_eq_iff)
  ultimately show ?thesis by (blast intro: wq_reachable.intros)
qed

theorem worker_safety_witness:
  "\<exists>pending. queue_repr (wq wq_two) pending \<and> [4, 9] = pending"
  using worker_safety [OF wq_two_reachable] by (simp add: wq_two_def)


end
