(* ===== verification/Object_Store.thy ===== *)
theory Object_Store
  imports Xrp_Prelude
begin

text \<open>
  The state of the host library: the reference-counted objects of \<open>xrp_host_common.h\<close> on a heap, the
  environment the library calls, and the log of those calls. \<open>world_ok\<close> is the reference-counting
  invariant every API function preserves: the count of an object is the number of references that
  clients and other objects hold on it.
\<close>

section \<open>Data\<close>

text \<open>\<open>enum xrp_access_flags\<close>: a C enum used as a bit set.\<close>

type_synonym xrp_access_flags = u32

definition XRP_READ :: xrp_access_flags where "XRP_READ = 1"
definition XRP_WRITE :: xrp_access_flags where "XRP_WRITE = 2"
definition XRP_READ_WRITE :: xrp_access_flags where "XRP_READ_WRITE = 3"

datatype xrp_open_type = XRP_OPEN_NORMAL_TYPE | XRP_OPEN_FACEID_TYPE | XRP_OPEN_TYPE_MAX

datatype device_type = XRP_DEVICE_NORMAL | XRP_DEVICE_NEWMODE

datatype buf_type = XRP_BUFFER_TYPE_HOST | XRP_BUFFER_TYPE_DEVICE

text \<open>
  A host address handed to the driver: NULL, an address supplied by the client or by the ion
  allocator (never read by the library), or memory the library filled itself, given by its contents.
\<close>

datatype hptr = H_Null | H_Addr u64 | H_Data bytes

text \<open>\<open>impl\<close> is the union of a descriptor and a service handle; a device uses one of them.\<close>

record xrp_device =
  dev_fd :: int
  dev_generation :: u32
  dev_type :: device_type

text \<open>Addresses and sizes of the described memory are machine words; \<open>device\<close> is a heap pointer.\<close>

record xrp_buffer =
  buf_device :: ptr
  buf_type :: buf_type
  buf_ptr :: u64
  buf_apptr :: u64
  buf_size :: u64
  map_count :: u64
  map_flags :: xrp_access_flags
  ion_fd :: int
  ionhandle :: u64

record xrp_buffer_group =
  n_buffers :: nat
  capacity :: nat
  gbuffer :: "(addr \<times> xrp_access_flags) slots"

record xrp_request =
  rq_in_data :: hptr
  rq_in_data_size :: u64
  rq_in_data_fd :: int
  rq_out_data :: hptr
  rq_out_data_size :: u64
  rq_out_data_fd :: int
  rq_buffer_group :: ptr
  rq_event :: ptr

text \<open>
  The queue's linked list of requests is represented by the list of its contents; the theory of the
  request queue shows that its pointer operations implement such a list.
\<close>

record xrp_queue =
  q_device :: ptr
  use_nsid :: bool
  q_priority :: int
  nsid :: bytes
  pending :: "xrp_request list"

record xrp_event =
  ev_queue :: ptr
  ev_status :: xrp_status

datatype body =
    Device xrp_device
  | Buffer xrp_buffer
  | Group xrp_buffer_group
  | Queue xrp_queue
  | Event xrp_event

record object =
  ref_count :: u64
  contents :: body

section \<open>The environment\<close>

text \<open>The argument of the queue ioctl, with what its address fields point to.\<close>

record xrp_ioctl_buffer =
  ib_flags :: u32
  ib_size :: u32
  ib_addr :: u64
  ib_fd :: int

record xrp_ioctl_queue =
  iq_flags :: u32
  iq_in_data_size :: u32
  iq_out_data_size :: u32
  iq_buffer_size :: u32
  iq_in_data_addr :: hptr
  iq_in_data_fd :: int
  iq_out_data_addr :: hptr
  iq_out_data_fd :: int
  iq_buffers :: "xrp_ioctl_buffer list"
  iq_nsid :: bytes

text \<open>\<open>enum sprd_vdsp_worktype\<close> of \<open>vdsp_interface.h\<close>, and the two modes in which a node is opened.\<close>

datatype sprd_vdsp_worktype = SPRD_VDSP_WORK_NORMAL | SPRD_VDSP_WORK_FACEID | SPRD_VDSP_WORK_MAXTYPE

datatype open_mode = O_RDONLY | O_RDWR

text \<open>\<open>Open n m\<close> opens the node \<open>/dev/vdsp<n>\<close>.\<close>

datatype call =
    Open u32 open_mode
  | Close int
  | Cavdsp_open sprd_vdsp_worktype
  | Cavdsp_close int u32
  | Ion_alloc u32 bool
  | Ion_free u64
  | Ioctl_queue int xrp_ioctl_queue
  | Ioctl_faceid int u32 u32
  | Ioctl_powerhint int int u32
  | Ioctl_dvfs int u32 u32
  | Open_ion open_mode
  | Mmap int u32
  | Munmap u64 u32
  | Link_death nat
  | Unlink_death nat

text \<open>
  The answers of the environment, by the number of questions asked before: the C allocator, the
  kernel's \<open>open\<close> and \<open>ioctl\<close>, the service client \<open>sprd_cavdsp_open_device\<close> (a descriptor and a
  generation, or failure), the ion allocator (handle, descriptor and mapped address), \<open>mmap\<close> and the
  binder's \<open>linkToDeath\<close>.
\<close>

record environment =
  malloc_ok :: "nat \<Rightarrow> bool"
  open_fd :: "nat \<Rightarrow> int"
  ioctl_ret :: "nat \<Rightarrow> int"
  cavdsp_handle :: "nat \<Rightarrow> (int \<times> u32) option"
  ion_mem :: "nat \<Rightarrow> (u64 \<times> int \<times> u64) option"
  mmap_addr :: "nat \<Rightarrow> u64 option"
  link_status :: "nat \<Rightarrow> int"

text \<open>Addresses are handed out in increasing order, so a freed address is never reused.\<close>

record world =
  heap :: "addr \<rightharpoonup> object"
  next_addr :: addr
  env :: environment
  ticks :: nat
  log :: "call list"

definition ask :: "(environment \<Rightarrow> nat \<Rightarrow> 'r) \<Rightarrow> world \<Rightarrow> 'r \<times> world" where
  "ask f w = (f (env w) (ticks w), w\<lparr>ticks := Suc (ticks w)\<rparr>)"

definition record_call :: "call \<Rightarrow> world \<Rightarrow> world" where
  "record_call c w = w\<lparr>log := log w @ [c]\<rparr>"

section \<open>Access to objects\<close>

definition get_device :: "addr \<Rightarrow> world \<Rightarrow> xrp_device option" where
  "get_device a w = (case map_option contents (heap w a) of Some (Device d) \<Rightarrow> Some d | _ \<Rightarrow> None)"

definition get_buffer :: "addr \<Rightarrow> world \<Rightarrow> xrp_buffer option" where
  "get_buffer a w = (case map_option contents (heap w a) of Some (Buffer b) \<Rightarrow> Some b | _ \<Rightarrow> None)"

definition get_group :: "addr \<Rightarrow> world \<Rightarrow> xrp_buffer_group option" where
  "get_group a w = (case map_option contents (heap w a) of Some (Group g) \<Rightarrow> Some g | _ \<Rightarrow> None)"

definition get_queue :: "addr \<Rightarrow> world \<Rightarrow> xrp_queue option" where
  "get_queue a w = (case map_option contents (heap w a) of Some (Queue q) \<Rightarrow> Some q | _ \<Rightarrow> None)"

definition get_event :: "addr \<Rightarrow> world \<Rightarrow> xrp_event option" where
  "get_event a w = (case map_option contents (heap w a) of Some (Event e) \<Rightarrow> Some e | _ \<Rightarrow> None)"

text \<open>A store into an object that is still allocated.\<close>

definition put :: "addr \<Rightarrow> body \<Rightarrow> world \<Rightarrow> world option" where
  "put a b w = (case heap w a of
                  None \<Rightarrow> None
                | Some obj \<Rightarrow> Some (w\<lparr>heap := (heap w)(a \<mapsto> obj\<lparr>contents := b\<rparr>)\<rparr>))"

section \<open>Reference counting\<close>

text \<open>\<open>calloc\<close> of an object whose cleared fields are \<open>b\<close>.\<close>

definition alloc_refcounted :: "body \<Rightarrow> world \<Rightarrow> ptr \<times> world" where
  "alloc_refcounted b w =
     (let (ok, w1) = ask malloc_ok w
      in if ok
         then (Some (next_addr w1),
               w1\<lparr>heap := (heap w1)(next_addr w1 \<mapsto> \<lparr>ref_count = 1, contents = b\<rparr>),
                  next_addr := Suc (next_addr w1)\<rparr>)
         else (None, w1))"

definition retain_refcounted :: "addr \<Rightarrow> world \<Rightarrow> world option" where
  "retain_refcounted a w = (case heap w a of
       None \<Rightarrow> None
     | Some obj \<Rightarrow> Some (w\<lparr>heap := (heap w)(a \<mapsto> obj\<lparr>ref_count := ref_count obj + 1\<rparr>)\<rparr>))"

definition last_release_refcounted :: "addr \<Rightarrow> world \<Rightarrow> (bool \<times> world) option" where
  "last_release_refcounted a w = (case heap w a of
       None \<Rightarrow> None
     | Some obj \<Rightarrow> Some (ref_count obj - 1 = 0,
                       w\<lparr>heap := (heap w)(a \<mapsto> obj\<lparr>ref_count := ref_count obj - 1\<rparr>)\<rparr>))"

definition free_object :: "addr \<Rightarrow> world \<Rightarrow> world option" where
  "free_object a w = (if a \<in> dom (heap w) then Some (w\<lparr>heap := (heap w)(a := None)\<rparr>) else None)"

definition zero_device :: xrp_device where
  "zero_device = \<lparr>dev_fd = 0, dev_generation = 0, dev_type = XRP_DEVICE_NORMAL\<rparr>"

definition zero_buffer :: xrp_buffer where
  "zero_buffer = \<lparr>buf_device = None, buf_type = XRP_BUFFER_TYPE_HOST, buf_ptr = 0, buf_apptr = 0,
     buf_size = 0, map_count = 0, map_flags = 0, ion_fd = 0, ionhandle = 0\<rparr>"

definition zero_group :: xrp_buffer_group where
  "zero_group = \<lparr>n_buffers = 0, capacity = 0, gbuffer = []\<rparr>"

definition zero_queue :: xrp_queue where
  "zero_queue = \<lparr>q_device = None, use_nsid = False, q_priority = 0,
     nsid = replicate 32 0, pending = []\<rparr>"

definition zero_event :: xrp_event where
  "zero_event = \<lparr>ev_queue = None, ev_status = XRP_STATUS_SUCCESS\<rparr>"

section \<open>The invariant\<close>

datatype kind = K_Device | K_Buffer | K_Group | K_Queue | K_Event ptr

fun kind_of :: "body \<Rightarrow> kind" where
  "kind_of (Device d) = K_Device"
| "kind_of (Buffer b) = K_Buffer"
| "kind_of (Group g) = K_Group"
| "kind_of (Queue q) = K_Queue"
| "kind_of (Event e) = K_Event (ev_queue e)"

definition kinds :: "world \<Rightarrow> addr \<Rightarrow> kind option" where
  "kinds w a = map_option (kind_of \<circ> contents) (heap w a)"

definition ptr_refs :: "ptr \<Rightarrow> addr multiset" where
  "ptr_refs p = (case p of None \<Rightarrow> {#} | Some a \<Rightarrow> {#a#})"

definition group_entries :: "xrp_buffer_group \<Rightarrow> (addr \<times> xrp_access_flags) list" where
  "group_entries g = map the (take (n_buffers g) (gbuffer g))"

definition request_refs :: "xrp_request \<Rightarrow> addr multiset" where
  "request_refs rq = ptr_refs (rq_buffer_group rq) + ptr_refs (rq_event rq)"

definition pending_refs :: "xrp_request list \<Rightarrow> addr multiset" where
  "pending_refs rqs = sum_list (map request_refs rqs)"

text \<open>The references an object holds, and what makes its pointers meaningful.\<close>

fun body_refs :: "body \<Rightarrow> addr multiset" where
  "body_refs (Device d) = {#}"
| "body_refs (Buffer b) =
     (if buf_type b = XRP_BUFFER_TYPE_DEVICE then ptr_refs (buf_device b) else {#})"
| "body_refs (Group g) = mset (map fst (group_entries g))"
| "body_refs (Queue q) = ptr_refs (q_device q) + pending_refs (pending q)"
| "body_refs (Event e) = ptr_refs (ev_queue e)"

definition request_ok :: "(addr \<Rightarrow> kind option) \<Rightarrow> addr \<Rightarrow> xrp_request \<Rightarrow> bool" where
  "request_ok K q rq \<longleftrightarrow>
     (\<forall>g. rq_buffer_group rq = Some g \<longrightarrow> K g = Some K_Group) \<and>
     (\<forall>e. rq_event rq = Some e \<longrightarrow> K e = Some (K_Event (Some q)))"

fun body_ok :: "(addr \<Rightarrow> kind option) \<Rightarrow> addr \<Rightarrow> body \<Rightarrow> bool" where
  "body_ok K a (Device d) \<longleftrightarrow> True"
| "body_ok K a (Buffer b) \<longleftrightarrow>
     (buf_type b = XRP_BUFFER_TYPE_DEVICE \<longrightarrow> (\<exists>d. buf_device b = Some d \<and> K d = Some K_Device))"
| "body_ok K a (Group g) \<longleftrightarrow>
     n_buffers g \<le> capacity g \<and> length (gbuffer g) = capacity g \<and>
     holds (gbuffer g) (group_entries g) \<and> length (group_entries g) = n_buffers g \<and>
     (\<forall>b \<in> fst ` set (group_entries g). K b = Some K_Buffer)"
| "body_ok K a (Queue q) \<longleftrightarrow>
     (\<exists>d. q_device q = Some d \<and> K d = Some K_Device) \<and> length (nsid q) = 32 \<and>
     (\<forall>rq \<in> set (pending q). request_ok K a rq)"
| "body_ok K a (Event e) \<longleftrightarrow> (\<exists>q. ev_queue e = Some q \<and> K q = Some K_Queue)"

text \<open>An object whose count dropped to zero is being torn down and owns nothing any more.\<close>

definition owns :: "object \<Rightarrow> addr multiset" where
  "owns obj = (if ref_count obj = 0 then {#} else body_refs (contents obj))"

definition heap_refs :: "(addr \<rightharpoonup> object) \<Rightarrow> addr multiset" where
  "heap_refs h = (\<Sum>a\<in>dom h. owns (the (h a)))"

text \<open>\<open>world_ok w c\<close>: \<open>c\<close> is the multiset of the references held outside the heap.\<close>

definition world_ok :: "world \<Rightarrow> addr multiset \<Rightarrow> bool" where
  "world_ok w c \<longleftrightarrow>
     finite (dom (heap w)) \<and> (\<forall>a \<in> dom (heap w). a < next_addr w) \<and>
     set_mset (c + heap_refs (heap w)) \<subseteq> dom (heap w) \<and>
     (\<forall>a obj. heap w a = Some obj \<longrightarrow> unat (ref_count obj) = count (c + heap_refs (heap w)) a) \<and>
     (\<forall>a obj. heap w a = Some obj \<longrightarrow> ref_count obj \<noteq> 0 \<longrightarrow> body_ok (kinds w) a (contents obj))"

text \<open>There is room for \<open>n\<close> more references.\<close>

definition room :: "world \<Rightarrow> addr multiset \<Rightarrow> nat \<Rightarrow> bool" where
  "room w c n \<longleftrightarrow> size (c + heap_refs (heap w)) + n < 2 ^ 64"

text \<open>The objects being torn down, and how a call may change the rest of the heap.\<close>

definition dying :: "world \<Rightarrow> addr \<rightharpoonup> object" where
  "dying w a = (case heap w a of
                  Some obj \<Rightarrow> if ref_count obj = 0 then Some obj else None
                | None \<Rightarrow> None)"

definition evolves :: "addr set \<Rightarrow> world \<Rightarrow> world \<Rightarrow> bool" where
  "evolves A w w' \<longleftrightarrow> next_addr w \<le> next_addr w' \<and> env w' = env w \<and>
     (\<forall>a. a \<notin> A \<longrightarrow> dying w' a = dying w a) \<and>
     (\<forall>a < next_addr w. a \<in> dom (heap w') \<longrightarrow> kinds w' a = kinds w a)"

section \<open>Lemmas on the reference multiset\<close>

lemma heap_refs_insert:
  "finite (dom h) \<Longrightarrow> a \<notin> dom h \<Longrightarrow> heap_refs (h(a \<mapsto> obj)) = owns obj + heap_refs h"
  by (auto simp: heap_refs_def intro!: sum.cong)

lemma heap_refs_remove:
  assumes "finite (dom h)" and "h a = Some obj"
  shows "heap_refs h = owns obj + heap_refs (h(a := None))"
proof -
  have "h = (h(a := None))(a \<mapsto> obj)" using assms(2) by (auto simp: fun_eq_iff)
  moreover have "finite (dom (h(a := None)))" "a \<notin> dom (h(a := None))" using assms(1) by auto
  ultimately show ?thesis by (metis heap_refs_insert)
qed

lemma heap_refs_update:
  assumes "finite (dom h)" and "h a = Some obj"
  shows "heap_refs (h(a \<mapsto> obj')) + owns obj = heap_refs h + owns obj'"
proof -
  have "heap_refs (h(a \<mapsto> obj')) = owns obj' + heap_refs (h(a := None))"
    using heap_refs_insert [of "h(a := None)" a obj'] assms(1) by auto
  then show ?thesis using heap_refs_remove [OF assms] by (simp add: ac_simps)
qed

lemma in_heap_refs:
  "finite (dom h) \<Longrightarrow> h a = Some obj \<Longrightarrow> x \<in># owns obj \<Longrightarrow> x \<in># heap_refs h"
  using heap_refs_remove [of h a obj] by simp

lemma pending_refs_simps [simp]:
  "pending_refs [] = {#}"
  "pending_refs (rq # rqs) = request_refs rq + pending_refs rqs"
  "pending_refs (rqs @ rqs') = pending_refs rqs + pending_refs rqs'"
  by (simp_all add: pending_refs_def)

lemma in_pending_refs: "rq \<in> set rqs \<Longrightarrow> x \<in># request_refs rq \<Longrightarrow> x \<in># pending_refs rqs"
  by (induction rqs) auto

lemma ptr_refs_simps [simp]: "ptr_refs None = {#}" "ptr_refs (Some a) = {#a#}"
  by (simp_all add: ptr_refs_def)

lemma body_ok_cong:
  assumes "body_ok K a b" and "\<And>x. x \<in># body_refs b \<Longrightarrow> K' x = K x"
  shows "body_ok K' a b"
proof (cases b)
  case (Queue q)
  have "request_ok K' a rq" if "rq \<in> set (pending q)" for rq
    using that assms Queue in_pending_refs [OF that]
    by (auto simp: request_ok_def request_refs_def)
  with assms Queue show ?thesis by auto
next
  case (Buffer b')
  with assms show ?thesis by (auto split: if_splits)
qed (use assms in auto)

lemma kinds_heap_cong: "heap w' = heap w \<Longrightarrow> kinds w' = kinds w"
  by (simp add: kinds_def fun_eq_iff)

lemma world_ok_heap_cong:
  "heap w' = heap w \<Longrightarrow> next_addr w' = next_addr w \<Longrightarrow> world_ok w' c = world_ok w c"
  using kinds_heap_cong [of w' w] by (simp add: world_ok_def)

lemma world_simps [simp]:
  "world_ok (w\<lparr>ticks := t\<rparr>) c = world_ok w c" "world_ok (w\<lparr>log := l\<rparr>) c = world_ok w c"
  "kinds (w\<lparr>ticks := t\<rparr>) = kinds w" "kinds (w\<lparr>log := l\<rparr>) = kinds w"
  "dying (w\<lparr>ticks := t\<rparr>) = dying w" "dying (w\<lparr>log := l\<rparr>) = dying w"
  "room (w\<lparr>ticks := t\<rparr>) c n = room w c n" "room (w\<lparr>log := l\<rparr>) c n = room w c n"
  by (rule world_ok_heap_cong kinds_heap_cong; simp)+ (auto simp: dying_def room_def fun_eq_iff)

lemma evolves_simps [simp]:
  "evolves A w (w'\<lparr>ticks := t\<rparr>) = evolves A w w'" "evolves A w (w'\<lparr>log := l\<rparr>) = evolves A w w'"
  "evolves A (w\<lparr>ticks := t\<rparr>) w' = evolves A w w'" "evolves A (w\<lparr>log := l\<rparr>) w' = evolves A w w'"
  by (auto simp: evolves_def)

lemma evolves_refl [simp, intro]: "evolves A w w"
  by (simp add: evolves_def)

lemma kinds_dom: "kinds w a = None \<longleftrightarrow> a \<notin> dom (heap w)"
  by (auto simp: kinds_def)

lemma evolves_trans [trans]:
  assumes "evolves A w w'" and "evolves A w' w''"
  shows "evolves A w w''"
  using assms unfolding evolves_def by (metis kinds_dom order.strict_trans2 order_trans)

lemma evolves_mono: "evolves A w w' \<Longrightarrow> A \<subseteq> B \<Longrightarrow> evolves B w w'"
  by (auto simp: evolves_def)

lemma world_ok_dom: "world_ok w c \<Longrightarrow> a \<in># c + heap_refs (heap w) \<Longrightarrow> a \<in> dom (heap w)"
  unfolding world_ok_def by blast

lemma world_ok_client: "world_ok w c \<Longrightarrow> a \<in># c \<Longrightarrow> a \<in> dom (heap w)"
  by (simp add: world_ok_dom)

lemma evolves_kind:
  assumes "evolves A w w'" and "world_ok w' c" and "a \<in># c" and "a < next_addr w"
  shows "kinds w' a = kinds w a"
  using assms world_ok_client [OF assms(2,3)] by (simp add: evolves_def)

lemma world_ok_next: "world_ok w c \<Longrightarrow> a \<in> dom (heap w) \<Longrightarrow> a < next_addr w"
  by (simp add: world_ok_def)

lemma world_ok_count:
  "world_ok w c \<Longrightarrow> heap w a = Some obj \<Longrightarrow> unat (ref_count obj) = count (c + heap_refs (heap w)) a"
  unfolding world_ok_def by blast

lemma world_ok_body:
  "world_ok w c \<Longrightarrow> heap w a = Some obj \<Longrightarrow> ref_count obj \<noteq> 0 \<Longrightarrow> body_ok (kinds w) a (contents obj)"
  unfolding world_ok_def by blast

lemma world_ok_alive:
  "world_ok w c \<Longrightarrow> heap w a = Some obj \<Longrightarrow> a \<in># c + heap_refs (heap w) \<longleftrightarrow> ref_count obj \<noteq> 0"
  by (metis count_greater_zero_iff neq0_conv unat_eq_zero world_ok_count)

section \<open>Preservation of the invariant\<close>

text \<open>Changing one object, when the references in the world change only in that object's number.\<close>

lemma world_ok_update:
  assumes ok: "world_ok w c" and a: "heap w a = Some obj"
    and w': "heap w' = (heap w)(a \<mapsto> obj')" "next_addr w' = next_addr w"
    and refs: "\<And>x. x \<noteq> a \<Longrightarrow>
        count (c' + heap_refs (heap w')) x = count (c + heap_refs (heap w)) x"
    and cnt: "unat (ref_count obj') = count (c' + heap_refs (heap w')) a"
    and kind: "kind_of (contents obj') = kind_of (contents obj)"
    and body: "ref_count obj' \<noteq> 0 \<Longrightarrow> body_ok (kinds w) a (contents obj')"
  shows "world_ok w' c'" and "kinds w' = kinds w"
proof -
  show K: "kinds w' = kinds w" using w' a kind by (auto simp: kinds_def fun_eq_iff)
  have D: "dom (heap w') = dom (heap w)" using w' a by auto
  have "x \<in> dom (heap w)" if "x \<in># c' + heap_refs (heap w')" for x
  proof (cases "x = a")
    case False
    then have "x \<in># c + heap_refs (heap w)" using that refs [of x] by (metis count_greater_zero_iff)
    with ok show ?thesis by (rule world_ok_dom)
  qed (use a in auto)
  moreover have "unat (ref_count o') = count (c' + heap_refs (heap w')) x"
    if "heap w' x = Some o'" for x o'
    using that cnt refs [of x] world_ok_count [OF ok, of x o'] w' by (cases "x = a") auto
  moreover have "body_ok (kinds w) x (contents o')"
    if "heap w' x = Some o'" "ref_count o' \<noteq> 0" for x o'
    using that body world_ok_body [OF ok, of x o'] w' by (cases "x = a") auto
  ultimately show "world_ok w' c'"
    using ok unfolding world_ok_def D K w'(2) by (intro conjI subsetI allI impI) blast+
qed

lemma mset_exchange:
  fixes X :: "'a multiset"
  assumes "X + R = H + B" and "C' + B = C + R"
  shows "C' + X = C + H"
proof (rule multiset_eqI)
  fix x
  from assms have "count (X + R) x = count (H + B) x" and "count (C' + B) x = count (C + R) x"
    by simp_all
  then show "count (C' + X) x = count (C + H) x" by simp
qed

text \<open>A store that moves references between the client and the object.\<close>

lemma world_ok_put:
  assumes ok: "world_ok w c" and a: "heap w a = Some obj" and live: "ref_count obj \<noteq> 0"
    and refs: "c' + body_refs b = c + body_refs (contents obj)"
    and kind: "kind_of b = kind_of (contents obj)" and body: "body_ok (kinds w) a b"
  shows "\<exists>w'. put a b w = Some w' \<and> world_ok w' c' \<and> evolves {} w w' \<and> kinds w' = kinds w \<and>
    heap w' = (heap w)(a \<mapsto> obj\<lparr>contents := b\<rparr>) \<and> log w' = log w \<and> ticks w' = ticks w \<and>
    c' + heap_refs (heap w') = c + heap_refs (heap w)"
proof -
  let ?o = "obj\<lparr>contents := b\<rparr>" let ?w = "w\<lparr>heap := (heap w)(a \<mapsto> ?o)\<rparr>"
  have fin: "finite (dom (heap w))" using ok by (simp add: world_ok_def)
  have "heap_refs (heap ?w) + body_refs (contents obj) = heap_refs (heap w) + body_refs b"
    using heap_refs_update [OF fin a, of ?o] live by (simp add: owns_def)
  then have tot: "c' + heap_refs (heap ?w) = c + heap_refs (heap w)"
    using refs by (rule mset_exchange)
  have wk: "world_ok ?w c'" "kinds ?w = kinds w"
    by (rule world_ok_update [OF ok a, of ?w ?o c'];
        use tot world_ok_count [OF ok a] kind body in simp)+
  have "dying ?w = dying w" using a live by (auto simp: dying_def fun_eq_iff)
  then have "evolves {} w ?w" using wk(2) by (simp add: evolves_def)
  then show ?thesis using wk tot a by (simp add: put_def)
qed

text \<open>\<open>retain\<close> gives the client one more reference.\<close>

lemma size_bounds_count: "count M a \<le> size (M :: 'a multiset)"
  by (metis count_le_replicate_mset_subset_eq order_refl size_mset_mono size_replicate_mset)

lemma retain_refcounted_ok:
  assumes ok: "world_ok w c" and a: "a \<in># c + heap_refs (heap w)" and room: "room w c 1"
  shows "\<exists>w'. retain_refcounted a w = Some w' \<and> world_ok w' (add_mset a c) \<and> evolves {} w w' \<and>
    kinds w' = kinds w \<and> heap_refs (heap w') = heap_refs (heap w) \<and> log w' = log w \<and>
    ticks w' = ticks w \<and> (\<exists>obj. heap w a = Some obj \<and>
      heap w' = (heap w)(a \<mapsto> obj\<lparr>ref_count := ref_count obj + 1\<rparr>))"
proof -
  obtain obj where h: "heap w a = Some obj" using world_ok_dom [OF ok a] by blast
  let ?o = "obj\<lparr>ref_count := ref_count obj + 1\<rparr>" let ?w = "w\<lparr>heap := (heap w)(a \<mapsto> ?o)\<rparr>"
  have live: "ref_count obj \<noteq> 0" using world_ok_alive [OF ok h] a by simp
  have "Suc (unat (ref_count obj)) < 2 ^ 64"
    using world_ok_count [OF ok h] size_bounds_count [of "c + heap_refs (heap w)" a] room
    by (simp add: room_def)
  then have inc: "unat (ref_count ?o) = Suc (unat (ref_count obj))"
    by (simp add: unat_inc unat_lt_max)
  then have live': "ref_count ?o \<noteq> 0" by (metis nat.distinct(1) unat_0)
  have fin: "finite (dom (heap w))" using ok by (simp add: world_ok_def)
  have H: "heap_refs (heap ?w) = heap_refs (heap w)"
    using heap_refs_update [OF fin h, of ?o] live live' by (simp add: owns_def)
  have wk: "world_ok ?w (add_mset a c)" "kinds ?w = kinds w"
    by (rule world_ok_update [OF ok h, of ?w ?o "add_mset a c"];
        use H inc world_ok_count [OF ok h] world_ok_body [OF ok h live] in simp)+
  have "dying ?w = dying w" using h live live' by (auto simp: dying_def fun_eq_iff)
  then have "evolves {} w ?w" using wk(2) by (simp add: evolves_def)
  then show ?thesis using wk h H by (simp add: retain_refcounted_def)
qed

text \<open>Dropping one of several references; dropping the last one, which hands over what it owned.\<close>

lemma last_release_more:
  assumes ok: "world_ok w (add_mset a c)" and h: "heap w a = Some obj" and more: "ref_count obj \<noteq> 1"
  shows "\<exists>w'. last_release_refcounted a w = Some (False, w') \<and> world_ok w' c \<and> evolves {} w w' \<and>
    kinds w' = kinds w \<and> heap_refs (heap w') = heap_refs (heap w) \<and> log w' = log w \<and>
    heap w' = (heap w)(a \<mapsto> obj\<lparr>ref_count := ref_count obj - 1\<rparr>)"
proof -
  let ?o = "obj\<lparr>ref_count := ref_count obj - 1\<rparr>" let ?w = "w\<lparr>heap := (heap w)(a \<mapsto> ?o)\<rparr>"
  have live: "ref_count obj \<noteq> 0" using world_ok_alive [OF ok h] by simp
  have live': "ref_count ?o \<noteq> 0" using more by simp
  have fin: "finite (dom (heap w))" using ok by (simp add: world_ok_def)
  have H: "heap_refs (heap ?w) = heap_refs (heap w)"
    using heap_refs_update [OF fin h, of ?o] live live' by (simp add: owns_def)
  have wk: "world_ok ?w c" "kinds ?w = kinds w"
    by (rule world_ok_update [OF ok h, of ?w ?o c];
        use H live world_ok_count [OF ok h] world_ok_body [OF ok h live] in \<open>simp add: unat_dec\<close>)+
  have "dying ?w = dying w" using h live live' by (auto simp: dying_def fun_eq_iff)
  then have "evolves {} w ?w" using wk(2) by (simp add: evolves_def)
  then show ?thesis using wk h H live' by (simp add: last_release_refcounted_def)
qed

lemma last_release_last:
  assumes ok: "world_ok w (add_mset a c)" and h: "heap w a = Some obj" and one: "ref_count obj = 1"
  shows "\<exists>w'. last_release_refcounted a w = Some (True, w') \<and>
    world_ok w' (c + body_refs (contents obj)) \<and> evolves {a} w w' \<and> dying w a = None \<and>
    kinds w' = kinds w \<and> heap w' = (heap w)(a \<mapsto> obj\<lparr>ref_count := 0\<rparr>) \<and> log w' = log w \<and>
    body_ok (kinds w) a (contents obj) \<and> a \<notin># c + body_refs (contents obj) + heap_refs (heap w') \<and>
    (\<forall>n. room w (add_mset a c) n \<longrightarrow> room w' (c + body_refs (contents obj)) (Suc n))"
proof -
  let ?o = "obj\<lparr>ref_count := 0\<rparr>" let ?w = "w\<lparr>heap := (heap w)(a \<mapsto> ?o)\<rparr>"
  let ?c = "c + body_refs (contents obj)"
  have fin: "finite (dom (heap w))" using ok by (simp add: world_ok_def)
  have "heap_refs (heap ?w) + body_refs (contents obj) = heap_refs (heap w) + {#}"
    using heap_refs_update [OF fin h, of ?o] one by (simp add: owns_def)
  then have T: "?c + heap_refs (heap ?w) = c + heap_refs (heap w)"
    by (rule mset_exchange) simp
  have cnt: "count (c + heap_refs (heap w)) a = 0" using world_ok_count [OF ok h] one by simp
  have live: "ref_count obj \<noteq> 0" using one by simp
  have Tx: "count (?c + heap_refs ((heap w)(a \<mapsto> ?o))) x = count (c + heap_refs (heap w)) x" for x
    using arg_cong [OF T, of "\<lambda>M. count M x"] by simp
  have wk: "world_ok ?w ?c" "kinds ?w = kinds w"
    by (rule world_ok_update [OF ok h, of ?w ?o ?c]; use cnt in \<open>simp add: Tx del: count_union\<close>)+
  have "dying ?w x = dying w x" if "x \<noteq> a" for x using that by (simp add: dying_def)
  then have "evolves {a} w ?w" using wk(2) by (simp add: evolves_def)
  moreover have "dying w a = None" using h live by (simp add: dying_def)
  moreover have "a \<notin># ?c + heap_refs (heap ?w)" unfolding T using cnt by (simp add: not_in_iff)
  moreover have "room ?w ?c (Suc n)" if "room w (add_mset a c) n" for n
    using that unfolding room_def T by simp
  ultimately show ?thesis using wk h one world_ok_body [OF ok h live]
    by (simp add: last_release_refcounted_def)
qed

text \<open>Freeing an object that was torn down.\<close>

lemma free_object_ok:
  assumes ok: "world_ok w' c" and ev: "evolves {a} w w'" and a: "dying w' a = Some obj" "dying w a = None"
  shows "\<exists>w''. free_object a w' = Some w'' \<and> world_ok w'' c \<and> evolves {} w w'' \<and>
    heap w'' = (heap w')(a := None) \<and> log w'' = log w' \<and> heap_refs (heap w'') = heap_refs (heap w')"
proof -
  let ?w = "w'\<lparr>heap := (heap w')(a := None)\<rparr>"
  have h: "heap w' a = Some obj" "ref_count obj = 0"
    using a(1) by (auto simp: dying_def split: option.splits if_splits)
  have fin: "finite (dom (heap w'))" using ok by (simp add: world_ok_def)
  have H: "heap_refs (heap ?w) = heap_refs (heap w')"
    using heap_refs_remove [OF fin h(1)] h(2) by (simp add: owns_def)
  have dead: "a \<notin># c + heap_refs (heap w')" using world_ok_alive [OF ok h(1)] h(2) by simp
  have K: "kinds ?w = (kinds w')(a := None)" by (auto simp: kinds_def fun_eq_iff)
  have "x \<in> dom (heap ?w)" if "x \<in># c + heap_refs (heap ?w)" for x
    using that dead world_ok_dom [OF ok, of x] unfolding H by auto
  moreover have "body_ok (kinds ?w) x (contents o')" if "heap ?w x = Some o'" "ref_count o' \<noteq> 0" for x o'
  proof -
    have x: "heap w' x = Some o'" using that(1) by (auto split: if_splits)
    show ?thesis
    proof (rule body_ok_cong)
      show "body_ok (kinds w') x (contents o')" using world_ok_body [OF ok x that(2)] .
      fix y assume "y \<in># body_refs (contents o')"
      then have "y \<in># heap_refs (heap w')"
        using in_heap_refs [OF fin x] that(2) by (simp add: owns_def)
      then show "kinds ?w y = kinds w' y" using dead unfolding K by auto
    qed
  qed
  moreover have "unat (ref_count o') = count (c + heap_refs (heap ?w)) x" if "heap ?w x = Some o'" for x o'
    using that world_ok_count [OF ok, of x o'] unfolding H by (simp split: if_splits)
  moreover have "finite (dom (heap ?w))" "\<forall>x \<in> dom (heap ?w). x < next_addr ?w"
    using ok by (auto simp: world_ok_def)
  ultimately have "world_ok ?w c" unfolding world_ok_def by blast
  moreover have "dying ?w x = dying w x" for x
  proof (cases "x = a")
    case False
    then have "dying ?w x = dying w' x" by (simp add: dying_def)
    with ev False show ?thesis by (simp add: evolves_def)
  qed (use a(2) in \<open>simp add: dying_def\<close>)
  then have "evolves {} w ?w" using ev K by (auto simp: evolves_def)
  ultimately show ?thesis using h H by (auto simp: free_object_def)
qed

text \<open>A fresh object, once its fields are filled in.\<close>

lemma world_ok_new:
  assumes ok: "world_ok w (c + body_refs b)" and w': "heap w' = (heap w)(a \<mapsto> \<lparr>ref_count = 1, contents = b\<rparr>)"
    and a: "a = next_addr w" "next_addr w' = Suc a" "env w' = env w"
    and body: "body_ok (kinds w) a b"
  shows "world_ok w' (add_mset a c)" and "evolves {} w w'"
    and "add_mset a c + heap_refs (heap w') = add_mset a (c + body_refs b + heap_refs (heap w))"
proof -
  let ?o = "\<lparr>ref_count = 1, contents = b\<rparr> :: object"
  let ?R = "c + body_refs b + heap_refs (heap w)"
  have fin: "finite (dom (heap w))" and new: "a \<notin> dom (heap w)"
    using ok a(1) by (auto simp: world_ok_def)
  have H: "heap_refs (heap w') = body_refs b + heap_refs (heap w)"
    using heap_refs_insert [OF fin new, of ?o] w' by (simp add: owns_def)
  show T: "add_mset a c + heap_refs (heap w') = add_mset a ?R" unfolding H by simp
  have R: "x \<in> dom (heap w)" if "x \<in># ?R" for x using world_ok_dom [OF ok that] .
  then have "a \<notin># ?R" using new by blast
  have K: "kinds w' = (kinds w)(a \<mapsto> kind_of b)" using w' by (auto simp: kinds_def fun_eq_iff)
  have Kx: "kinds w' x = kinds w x" if "x \<in># ?R" for x using that \<open>a \<notin># ?R\<close> K by auto
  have "body_ok (kinds w') x (contents o')" if "heap w' x = Some o'" "ref_count o' \<noteq> 0" for x o'
  proof (cases "x = a")
    case True
    then show ?thesis using body that w' by (auto intro!: body_ok_cong [OF body] Kx)
  next
    case False
    then have x: "heap w x = Some o'" using that w' by simp
    show ?thesis
    proof (rule body_ok_cong)
      show "body_ok (kinds w) x (contents o')" using world_ok_body [OF ok x that(2)] .
      fix y assume "y \<in># body_refs (contents o')"
      then have "y \<in># ?R" using in_heap_refs [OF fin x, of y] that(2) by (simp add: owns_def)
      then show "kinds w' y = kinds w y" by (rule Kx)
    qed
  qed
  moreover have "unat (ref_count o') = count (add_mset a ?R) x" if "heap w' x = Some o'" for x o'
    using that w' \<open>a \<notin># ?R\<close> world_ok_count [OF ok, of x o'] by (auto simp: not_in_iff split: if_splits)
  moreover have "finite (dom (heap w'))" "\<forall>x \<in> dom (heap w'). x < next_addr w'"
    using ok w' a by (auto simp: world_ok_def less_Suc_eq)
  moreover have "x \<in> dom (heap w')" if "x \<in># add_mset a ?R" for x
    using that R w' by auto
  ultimately show "world_ok w' (add_mset a c)" unfolding world_ok_def T by blast
  have "heap w a = None" using new by blast
  then have "dying w' = dying w" using w' by (auto simp: dying_def fun_eq_iff)
  then show "evolves {} w w'" using a K by (auto simp: evolves_def)
qed

section \<open>Steps on references\<close>

text \<open>
  \<open>moves k w c w' c'\<close>: the call took the world \<open>w\<close>, in which clients held \<open>c\<close>, to \<open>w'\<close>, in which they
  hold \<open>c'\<close>; the invariant holds again, nothing is left half torn down, and at most \<open>k\<close> references
  were created. Such steps compose.
\<close>

definition moves :: "nat \<Rightarrow> world \<Rightarrow> addr multiset \<Rightarrow> world \<Rightarrow> addr multiset \<Rightarrow> bool" where
  "moves k w c w' c' \<longleftrightarrow> world_ok w' c' \<and> evolves {} w w' \<and>
     size (c' + heap_refs (heap w')) \<le> size (c + heap_refs (heap w)) + k"

lemma moves_ok: "moves k w c w' c' \<Longrightarrow> world_ok w' c'"
  by (simp add: moves_def)

lemma moves_room: "moves k w c w' c' \<Longrightarrow> room w c (n + k) \<Longrightarrow> room w' c' n"
  by (auto simp: moves_def room_def)

lemma moves_trans: "moves j w c w' c' \<Longrightarrow> moves k w' c' w'' c'' \<Longrightarrow> moves (j + k) w c w'' c''"
  unfolding moves_def by (auto intro: evolves_trans)

lemma moves_refl: "world_ok w c \<Longrightarrow> moves 0 w c w c"
  by (simp add: moves_def)

lemma moves_mono: "moves j w c w' c' \<Longrightarrow> j \<le> k \<Longrightarrow> moves k w c w' c'"
  unfolding moves_def by linarith

lemma moves_env: "moves k w c w' c' \<Longrightarrow> env w' = env w"
  by (simp add: moves_def evolves_def)

lemma dying_kept: "moves k w c w' c' \<Longrightarrow> dying w a = Some obj \<Longrightarrow> heap w' a = Some obj"
  by (auto simp: moves_def evolves_def dying_def split: option.splits if_splits)

lemma moves_simps [simp]:
  "moves k w c (w'\<lparr>ticks := t\<rparr>) c' = moves k w c w' c'" "moves k w c (w'\<lparr>log := l\<rparr>) c' = moves k w c w' c'"
  "moves k (w\<lparr>ticks := t\<rparr>) c w' c' = moves k w c w' c'" "moves k (w\<lparr>log := l\<rparr>) c w' c' = moves k w c w' c'"
  by (simp_all add: moves_def)

text \<open>A reference held by the client before and after still points to an object of the same kind.\<close>

lemma record_call_simps [simp]:
  "heap (record_call k w) = heap w" "next_addr (record_call k w) = next_addr w"
  "log (record_call k w) = log w @ [k]" "env (record_call k w) = env w"
  "ticks (record_call k w) = ticks w"
  "moves n w c (record_call k w') c' = moves n w c w' c'"
  "moves n (record_call k w) c w' c' = moves n w c w' c'"
  "world_ok (record_call k w) c = world_ok w c" "kinds (record_call k w) = kinds w"
  "dying (record_call k w) = dying w" "room (record_call k w) c n = room w c n"
  "evolves A w (record_call k w') = evolves A w w'" "evolves A (record_call k w) w' = evolves A w w'"
  by (simp_all add: record_call_def)

lemma moves_kind:
  assumes "moves k w c w' c'" and "world_ok w c" and "a \<in># c" and "a \<in># c'"
  shows "kinds w' a = kinds w a"
  using assms evolves_kind [of "{}" w w' c' a] world_ok_next [OF assms(2) world_ok_client [OF assms(2,3)]]
  by (simp add: moves_def)

lemma kindsE:
  assumes "kinds w a = Some k"
  obtains obj where "heap w a = Some obj" and "kind_of (contents obj) = k"
  using assms by (auto simp: kinds_def)

lemma kind_of_iff [simp]:
  "kind_of b = K_Device \<longleftrightarrow> (\<exists>x. b = Device x)" "kind_of b = K_Buffer \<longleftrightarrow> (\<exists>x. b = Buffer x)"
  "kind_of b = K_Group \<longleftrightarrow> (\<exists>x. b = Group x)" "kind_of b = K_Queue \<longleftrightarrow> (\<exists>x. b = Queue x)"
  "kind_of b = K_Event q \<longleftrightarrow> (\<exists>x. b = Event x \<and> ev_queue x = q)"
  by (cases b; auto)+

lemma device_kindE:
  "kinds w a = Some K_Device \<Longrightarrow>
   (\<And>obj x. heap w a = Some obj \<Longrightarrow> contents obj = Device x \<Longrightarrow> thesis) \<Longrightarrow> thesis"
  by (erule kindsE) auto

lemma buffer_kindE:
  "kinds w a = Some K_Buffer \<Longrightarrow>
   (\<And>obj x. heap w a = Some obj \<Longrightarrow> contents obj = Buffer x \<Longrightarrow> thesis) \<Longrightarrow> thesis"
  by (erule kindsE) auto

lemma group_kindE:
  "kinds w a = Some K_Group \<Longrightarrow>
   (\<And>obj x. heap w a = Some obj \<Longrightarrow> contents obj = Group x \<Longrightarrow> thesis) \<Longrightarrow> thesis"
  by (erule kindsE) auto

lemma queue_kindE:
  "kinds w a = Some K_Queue \<Longrightarrow>
   (\<And>obj x. heap w a = Some obj \<Longrightarrow> contents obj = Queue x \<Longrightarrow> thesis) \<Longrightarrow> thesis"
  by (erule kindsE) auto

lemma event_kindE:
  "kinds w a = Some (K_Event q) \<Longrightarrow>
   (\<And>obj x. heap w a = Some obj \<Longrightarrow> contents obj = Event x \<Longrightarrow> ev_queue x = q \<Longrightarrow> thesis) \<Longrightarrow> thesis"
  by (erule kindsE) auto

lemma getters [simp]:
  "heap w a = Some obj \<Longrightarrow> contents obj = Device d \<Longrightarrow> get_device a w = Some d"
  "heap w a = Some obj \<Longrightarrow> contents obj = Buffer b \<Longrightarrow> get_buffer a w = Some b"
  "heap w a = Some obj \<Longrightarrow> contents obj = Group g \<Longrightarrow> get_group a w = Some g"
  "heap w a = Some obj \<Longrightarrow> contents obj = Queue q \<Longrightarrow> get_queue a w = Some q"
  "heap w a = Some obj \<Longrightarrow> contents obj = Event e \<Longrightarrow> get_event a w = Some e"
  by (simp_all add: get_device_def get_buffer_def get_group_def get_queue_def get_event_def)

lemma moves_retain:
  assumes ok: "world_ok w c" and a: "a \<in># c + heap_refs (heap w)" and room: "room w c 1"
  shows "\<exists>w' obj. retain_refcounted a w = Some w' \<and> moves 1 w c w' (add_mset a c) \<and> kinds w' = kinds w \<and>
    heap w a = Some obj \<and> heap w' = (heap w)(a \<mapsto> obj\<lparr>ref_count := ref_count obj + 1\<rparr>) \<and> log w' = log w \<and>
    ticks w' = ticks w"
  using retain_refcounted_ok [OF assms] by (auto simp: moves_def)

lemma moves_put:
  assumes ok: "world_ok w c" and a: "heap w a = Some obj" and live: "ref_count obj \<noteq> 0"
    and refs: "c' + body_refs b = c + body_refs (contents obj)"
    and kind: "kind_of b = kind_of (contents obj)" and body: "body_ok (kinds w) a b"
  shows "\<exists>w'. put a b w = Some w' \<and> moves 0 w c w' c' \<and> kinds w' = kinds w \<and>
    heap w' = (heap w)(a \<mapsto> obj\<lparr>contents := b\<rparr>) \<and> log w' = log w \<and> ticks w' = ticks w"
  using world_ok_put [OF assms] by (auto simp: moves_def simp del: size_union)

lemma moves_new:
  assumes "world_ok w (c + body_refs b)" and "heap w' = (heap w)(a \<mapsto> \<lparr>ref_count = 1, contents = b\<rparr>)"
    and "a = next_addr w" and "next_addr w' = Suc a" and "env w' = env w" and "body_ok (kinds w) a b"
  shows "moves 1 w (c + body_refs b) w' (add_mset a c)"
  using world_ok_new [OF assms] by (simp add: moves_def)

text \<open>
  The shape of every release: either the object stays, or its references pass to the releasing
  client, which gives them up and then frees the memory.
\<close>

lemma release_cases:
  assumes ok: "world_ok w (add_mset a c)" and h: "heap w a = Some obj"
  obtains (more) w' where "last_release_refcounted a w = Some (False, w')" and "ref_count obj \<noteq> 1"
      and "moves 0 w (add_mset a c) w' c" and "log w' = log w" and "kinds w' = kinds w"
      and "heap w' = (heap w)(a \<mapsto> obj\<lparr>ref_count := ref_count obj - 1\<rparr>)"
  | (last) w' where "last_release_refcounted a w = Some (True, w')" and "ref_count obj = 1"
      and "world_ok w' (c + body_refs (contents obj))" and "log w' = log w" and "kinds w' = kinds w"
      and "heap w' = (heap w)(a \<mapsto> obj\<lparr>ref_count := 0\<rparr>)" and "body_ok (kinds w) a (contents obj)"
      and "evolves {a} w w'" and "dying w a = None"
      and "size (add_mset a c + heap_refs (heap w)) =
           Suc (size (c + body_refs (contents obj) + heap_refs (heap w')))"
proof (cases "ref_count obj = 1")
  case False
  with last_release_more [OF ok h] that(1) show thesis by (auto simp: moves_def)
next
  case True
  have fin: "finite (dom (heap w))" using ok by (simp add: world_ok_def)
  have "heap_refs ((heap w)(a \<mapsto> obj\<lparr>ref_count := 0\<rparr>)) + body_refs (contents obj) = heap_refs (heap w)"
    using heap_refs_update [OF fin h, of "obj\<lparr>ref_count := 0\<rparr>"] True by (simp add: owns_def)
  then have "size (heap_refs (heap w)) =
    size (heap_refs ((heap w)(a \<mapsto> obj\<lparr>ref_count := 0\<rparr>))) + size (body_refs (contents obj))"
    by (metis size_union)
  with True last_release_last [OF ok h] that(2) show thesis by auto
qed

lemma release_finish:
  assumes w1: "evolves {a} w w1" "dying w a = None" and w2: "moves k w1 c1 w2 c2"
    and a: "dying w1 a = Some obj"
    and sz: "size (c0 + heap_refs (heap w)) = Suc (size (c1 + heap_refs (heap w1)))"
  shows "\<exists>w'. free_object a w2 = Some w' \<and> moves k w c0 w' c2 \<and> heap w' = (heap w2)(a := None) \<and>
    log w' = log w2"
proof -
  from w2 have ok: "world_ok w2 c2" and ev: "evolves {a} w1 w2" and d: "dying w2 a = Some obj"
    using a by (auto simp: moves_def evolves_def intro: evolves_mono)
  from free_object_ok [OF ok evolves_trans [OF w1(1) ev] d w1(2)] w2 sz show ?thesis
    by (auto simp: moves_def)
qed

text \<open>
  No surviving object outside \<open>A\<close> changed its contents (counts apart), and all queues and events
  outside \<open>A\<close> survived.
\<close>

fun pinned :: "body \<Rightarrow> bool" where
  "pinned (Queue _) \<longleftrightarrow> True"
| "pinned (Event _) \<longleftrightarrow> True"
| "pinned _ \<longleftrightarrow> False"

definition alters :: "addr set \<Rightarrow> world \<Rightarrow> world \<Rightarrow> bool" where
  "alters A w w' \<longleftrightarrow> next_addr w \<le> next_addr w' \<and>
     (\<forall>x < next_addr w. \<forall>obj'. x \<notin> A \<longrightarrow> heap w' x = Some obj' \<longrightarrow>
        (\<exists>obj. heap w x = Some obj \<and> contents obj' = contents obj)) \<and>
     (\<forall>x obj. x \<notin> A \<longrightarrow> heap w x = Some obj \<longrightarrow> pinned (contents obj) \<longrightarrow>
        (\<exists>obj'. heap w' x = Some obj' \<and> contents obj' = contents obj))"

abbreviation keeps :: "world \<Rightarrow> world \<Rightarrow> bool" where
  "keeps \<equiv> alters {}"

lemma alters_refl [simp, intro]: "alters A w w"
  by (simp add: alters_def)

lemma alters_trans [trans]: "alters A w w' \<Longrightarrow> alters A w' w'' \<Longrightarrow> alters A w w''"
proof (unfold alters_def, elim conjE, intro conjI allI impI, goal_cases)
  case 1
  then show ?case by simp
next
  case (2 x obj'')
  then show ?case by (metis order.strict_trans2)
next
  case (3 x obj)
  then show ?case by metis
qed

lemma alters_mono: "alters A w w' \<Longrightarrow> A \<subseteq> B \<Longrightarrow> alters B w w'"
  unfolding alters_def by blast

lemma alters_simps [simp]:
  "alters A w (w'\<lparr>ticks := t\<rparr>) = alters A w w'" "alters A w (w'\<lparr>log := l\<rparr>) = alters A w w'"
  "alters A (w\<lparr>ticks := t\<rparr>) w' = alters A w w'" "alters A (w\<lparr>log := l\<rparr>) w' = alters A w w'"
  by (simp_all add: alters_def)

lemma alters_record [simp]:
  "alters A w (record_call k w') = alters A w w'" "alters A (record_call k w) w' = alters A w w'"
  by (simp_all add: record_call_def)

lemma keeps_count:
  "heap w a = Some obj \<Longrightarrow> heap w' = (heap w)(a \<mapsto> obj\<lparr>ref_count := n\<rparr>) \<Longrightarrow> next_addr w \<le> next_addr w' \<Longrightarrow>
   keeps w w'"
  by (auto simp: alters_def)

lemma keeps_free:
  "heap w' = (heap w)(a := None) \<Longrightarrow> next_addr w \<le> next_addr w' \<Longrightarrow> heap w a = Some obj \<Longrightarrow>
   \<not> pinned (contents obj) \<Longrightarrow> keeps w w'"
  by (auto simp: alters_def)

lemma alters_put:
  "heap w' = (heap w)(a := v) \<Longrightarrow> next_addr w \<le> next_addr w' \<Longrightarrow> a \<in> A \<Longrightarrow> alters A w w'"
  by (auto simp: alters_def)

text \<open>What a client reads in an object it holds, after a call that does not alter it.\<close>

lemma alters_contents:
  assumes "alters A w w'" and "a \<notin> A" and "heap w a = Some obj" and "a < next_addr w" and "heap w' a = Some obj'"
  shows "contents obj' = contents obj"
  using assms by (auto simp: alters_def)

text \<open>Only resources were given back to the environment.\<close>

fun cleanup_call :: "call \<Rightarrow> bool" where
  "cleanup_call (Close _) \<longleftrightarrow> True"
| "cleanup_call (Cavdsp_close _ _) \<longleftrightarrow> True"
| "cleanup_call (Ion_free _) \<longleftrightarrow> True"
| "cleanup_call (Munmap _ _) \<longleftrightarrow> True"
| "cleanup_call (Unlink_death _) \<longleftrightarrow> True"
| "cleanup_call _ \<longleftrightarrow> False"

definition quiet :: "world \<Rightarrow> world \<Rightarrow> bool" where
  "quiet w w' \<longleftrightarrow> (\<exists>l. log w' = log w @ l \<and> (\<forall>k \<in> set l. cleanup_call k))"

lemma quiet_same: "log w' = log w \<Longrightarrow> quiet w w'"
  by (simp add: quiet_def)

lemma quiet_snoc: "log w' = log w @ [k] \<Longrightarrow> cleanup_call k \<Longrightarrow> quiet w w'"
  by (simp add: quiet_def)

lemma quiet_trans [trans]: "quiet w w' \<Longrightarrow> quiet w' w'' \<Longrightarrow> quiet w w''"
  unfolding quiet_def by (metis Un_iff append.assoc set_append)

lemma quiet_log_cong: "quiet w w' \<Longrightarrow> log v = log w \<Longrightarrow> log v' = log w' \<Longrightarrow> quiet v v'"
  by (simp add: quiet_def)

lemma moves_next: "moves k w c w' c' \<Longrightarrow> next_addr w \<le> next_addr w'"
  by (simp add: moves_def evolves_def)

section \<open>Devices held\<close>

text \<open>A device is kept alive by a reference of the client's or by a queue in use.\<close>

definition held :: "world \<Rightarrow> addr multiset \<Rightarrow> addr \<Rightarrow> bool" where
  "held w c d \<longleftrightarrow> d \<in># c \<or>
     (\<exists>a obj q. heap w a = Some obj \<and> ref_count obj \<noteq> 0 \<and> contents obj = Queue q \<and> q_device q = Some d)"

lemma held_direct: "d \<in># c \<Longrightarrow> held w c d"
  by (simp add: held_def)

lemma held_simps [simp]:
  "held (w\<lparr>ticks := t\<rparr>) c d = held w c d" "held (w\<lparr>log := l\<rparr>) c d = held w c d"
  by (simp_all add: held_def)

lemma held_ref:
  assumes ok: "world_ok w c" and x: "held w c d"
  shows "d \<in># c + heap_refs (heap w)"
proof (cases "d \<in># c")
  case False
  with x obtain a obj q where "heap w a = Some obj" "ref_count obj \<noteq> 0" "contents obj = Queue q" "q_device q = Some d"
    by (auto simp: held_def)
  with ok show ?thesis
    using in_heap_refs [of "heap w" a obj d] by (simp add: owns_def world_ok_def)
qed simp

text \<open>It survives every call that alters no queue and takes no reference from the client.\<close>

definition inert :: "world \<Rightarrow> addr set \<Rightarrow> bool" where
  "inert w A \<longleftrightarrow> (\<forall>a \<in> A. heap w a = None \<or> kinds w a = Some K_Group)"

lemma inert_simps [simp]: "inert w {}" "inert w {a} \<longleftrightarrow> heap w a = None \<or> kinds w a = Some K_Group"
  by (simp_all add: inert_def)

lemma held_kept:
  assumes m: "moves k w c w' c'" and sub: "c \<subseteq># c'" and al: "alters A w w'" and A: "inert w A"
    and x: "held w c d"
  shows "held w' c' d"
proof (cases "d \<in># c")
  case True
  with sub show ?thesis by (meson held_direct mset_subset_eqD)
next
  case False
  with x obtain a obj q where h: "heap w a = Some obj" "ref_count obj \<noteq> 0" "contents obj = Queue q" "q_device q = Some d"
    by (auto simp: held_def)
  then have "a \<notin> A" using A by (auto simp: inert_def kinds_def)
  then obtain obj' where h': "heap w' a = Some obj'" "contents obj' = Queue q"
    using al h(1,3) unfolding alters_def by (metis pinned.simps(1))
  have "dying w' a = dying w a" using m by (simp add: moves_def evolves_def)
  then have "ref_count obj' \<noteq> 0" using h(1,2) h'(1) by (auto simp: dying_def split: if_splits)
  with h' h(4) show ?thesis by (auto simp: held_def)
qed

text \<open>A call never changes the kind of an object that is still referenced.\<close>

lemma moves_kind_held:
  assumes "moves k w c w' c'" and "world_ok w c" and "held w c x" and "held w' c' x"
  shows "kinds w' x = kinds w x"
proof -
  have "x < next_addr w" using held_ref [OF assms(2,3)] world_ok_dom [OF assms(2)] world_ok_next [OF assms(2)] by blast
  moreover have "x \<in> dom (heap w')"
    using held_ref [OF moves_ok [OF assms(1)] assms(4)] world_ok_dom moves_ok [OF assms(1)] by blast
  ultimately show ?thesis using assms(1) by (simp add: moves_def evolves_def)
qed

section \<open>Leaks\<close>

text \<open>
  When nobody holds a reference, nothing is half torn down and no request is pending, the heap is
  empty: devices and queues are only kept alive by objects above them in the order of \<open>rank\<close>.
\<close>

fun rank :: "body \<Rightarrow> nat" where
  "rank (Device d) = 0"
| "rank (Buffer b) = 1"
| "rank (Queue q) = 1"
| "rank (Group g) = 2"
| "rank (Event e) = 2"

definition no_pending :: "world \<Rightarrow> bool" where
  "no_pending w \<longleftrightarrow> (\<forall>a obj q. heap w a = Some obj \<longrightarrow> contents obj = Queue q \<longrightarrow> pending q = [])"

lemma ref_from_above:
  assumes "body_ok (kinds w) a b" and "x \<in># body_refs b" and "heap w x = Some obj"
    and "\<And>q. b = Queue q \<Longrightarrow> pending q = []"
  shows "rank (contents obj) < rank b"
proof (cases b)
  case (Buffer b')
  with assms show ?thesis by (auto simp: kinds_def split: if_splits)
next
  case (Group g)
  then have "kinds w x = Some K_Buffer" using assms(1,2) by auto
  with Group assms(3) show ?thesis by (auto simp: kinds_def)
next
  case (Event e)
  with assms show ?thesis by (auto simp: kinds_def)
next
  case (Queue q)
  with assms show ?thesis by (auto simp: kinds_def)
qed (use assms in auto)

lemma unreferenced_heap_empty:
  assumes ok: "world_ok w {#}" and dead: "dying w = Map.empty" and np: "no_pending w"
  shows "heap w = Map.empty"
proof (rule ccontr)
  assume "heap w \<noteq> Map.empty"
  let ?r = "\<lambda>a. rank (contents (the (heap w a)))"
  have fin: "finite (dom (heap w))" using ok by (simp add: world_ok_def)
  moreover from \<open>heap w \<noteq> Map.empty\<close> have "dom (heap w) \<noteq> {}" by simp
  ultimately have "Max (?r ` dom (heap w)) \<in> ?r ` dom (heap w)" by (intro Max_in) auto
  then obtain a where a: "a \<in> dom (heap w)" and "Max (?r ` dom (heap w)) = ?r a"
    by (rule imageE)
  from this(2) have top: "?r x \<le> ?r a" if "x \<in> dom (heap w)" for x
    using fin that Max_ge [of "?r ` dom (heap w)" "?r x"] by simp
  from a obtain obj where h: "heap w a = Some obj" by blast
  have "dying w a = None" using dead by simp
  then have "ref_count obj \<noteq> 0" using h by (auto simp: dying_def)
  then have "a \<in># heap_refs (heap w)" using world_ok_alive [OF ok h] by simp
  then obtain x where x: "x \<in> dom (heap w)" "a \<in># owns (the (heap w x))"
    using fin by (auto simp: heap_refs_def set_mset_sum)
  then obtain o' where o': "heap w x = Some o'" "ref_count o' \<noteq> 0" "a \<in># body_refs (contents o')"
    by (auto simp: owns_def split: if_splits)
  have "rank (contents obj) < rank (contents o')"
    using world_ok_body [OF ok o'(1,2)] o'(3) h np o'(1)
    by (intro ref_from_above) (auto simp: no_pending_def)
  then show False using top [OF x(1)] h o'(1) by simp
qed

section \<open>The interface of reference counting\<close>

text \<open>
  The contract every kind of object offers: whoever holds a reference may retain the object, and may
  give its reference back, if there is room for the references the release itself may need.
\<close>

primrec repeat_op :: "nat \<Rightarrow> (world \<Rightarrow> world option) \<Rightarrow> world \<Rightarrow> world option" where
  "repeat_op 0 f w = Some w"
| "repeat_op (Suc n) f w = do { w1 \<leftarrow> f w; repeat_op n f w1 }"

locale refcounted =
  fixes retain :: "addr \<Rightarrow> world \<Rightarrow> world option"
    and release :: "addr \<Rightarrow> world \<Rightarrow> world option"
    and of_kind :: "kind \<Rightarrow> bool"
    and need :: nat
  assumes retain_law: "world_ok w c \<Longrightarrow> a \<in># c \<Longrightarrow> kinds w a = Some k \<Longrightarrow> of_kind k \<Longrightarrow> room w c 1 \<Longrightarrow>
      \<exists>w'. retain a w = Some w' \<and> moves 1 w c w' (add_mset a c) \<and> keeps w w'"
    and release_law: "world_ok w (add_mset a c) \<Longrightarrow> kinds w a = Some k \<Longrightarrow> of_kind k \<Longrightarrow>
      room w (add_mset a c) need \<Longrightarrow>
      \<exists>w'. release a w = Some w' \<and> moves 0 w (add_mset a c) w' c \<and> keeps w w'"
begin

lemma retain_many:
  assumes "world_ok w c" and "a \<in># c" and "kinds w a = Some k" and "of_kind k" and "room w c n"
  shows "\<exists>w'. repeat_op n (retain a) w = Some w' \<and> moves n w c w' (replicate_mset n a + c) \<and> keeps w w'"
  using assms
proof (induction n arbitrary: w c)
  case 0
  then show ?case by (simp add: moves_refl)
next
  case (Suc n)
  have "room w c 1" using Suc.prems(5) by (simp add: room_def)
  then obtain w1 where w1: "retain a w = Some w1" "moves 1 w c w1 (add_mset a c)" "keeps w w1"
    using retain_law Suc.prems(1-4) by blast
  have "kinds w1 a = Some k" using moves_kind [OF w1(2) Suc.prems(1,2)] Suc.prems(3) by simp
  moreover have "room w1 (add_mset a c) n" using moves_room [OF w1(2)] Suc.prems(5) by simp
  ultimately obtain w' where w': "repeat_op n (retain a) w1 = Some w'" "keeps w1 w'"
    "moves n w1 (add_mset a c) w' (replicate_mset n a + add_mset a c)"
    using Suc.IH [OF moves_ok [OF w1(2)]] Suc.prems(4) by auto
  show ?case using w1(1) w'(1) moves_trans [OF w1(2) w'(3)] alters_trans [OF w1(3) w'(2)] by simp
qed

lemma release_many:
  assumes "world_ok w (replicate_mset n a + c)" and "n > 0 \<Longrightarrow> kinds w a = Some k" and "of_kind k"
    and "room w (replicate_mset n a + c) need"
  shows "\<exists>w'. repeat_op n (release a) w = Some w' \<and> moves 0 w (replicate_mset n a + c) w' c \<and> keeps w w'"
  using assms
proof (induction n arbitrary: w)
  case 0
  then show ?case by (simp add: moves_refl)
next
  case (Suc n)
  let ?c = "replicate_mset n a + c"
  obtain w1 where w1: "release a w = Some w1" "moves 0 w (add_mset a ?c) w1 ?c" "keeps w w1"
    using release_law [of w a ?c k] Suc.prems by auto
  have "kinds w1 a = Some k" if "n > 0"
    using moves_kind [OF w1(2), of a] Suc.prems(1,2) that by (cases n) auto
  moreover have "room w1 ?c need" using moves_room [OF w1(2), of need] Suc.prems(4) by simp
  ultimately obtain w' where w': "repeat_op n (release a) w1 = Some w'" "moves 0 w1 ?c w' c" "keeps w1 w'"
    using Suc.IH [OF moves_ok [OF w1(2)]] Suc.prems(3) by blast
  show ?case using w1(1) w'(1) moves_trans [OF w1(2) w'(2)] alters_trans [OF w1(3) w'(3)] by simp
qed

text \<open>Balanced use of an object the client holds leaves it, and everything else, as it was.\<close>

lemma balanced:
  assumes "world_ok w c" and "a \<in># c" and "kinds w a = Some k" and "of_kind k" and "room w c (n + need)"
  shows "\<exists>w1 w2. repeat_op n (retain a) w = Some w1 \<and> repeat_op n (release a) w1 = Some w2 \<and>
    world_ok w2 c \<and> dying w2 = dying w \<and> kinds w2 a = Some k \<and> keeps w w2"
proof -
  have "room w c n" using assms(5) by (simp add: room_def)
  then obtain w1 where w1: "repeat_op n (retain a) w = Some w1"
    "moves n w c w1 (replicate_mset n a + c)" "keeps w w1"
    using retain_many assms(1-4) by blast
  have k1: "kinds w1 a = Some k" using moves_kind [OF w1(2) assms(1,2)] assms(2,3) by simp
  have "room w1 (replicate_mset n a + c) need"
    using moves_room [OF w1(2), of need] assms(5) by (simp add: add.commute)
  then obtain w2 where w2: "repeat_op n (release a) w1 = Some w2"
    "moves 0 w1 (replicate_mset n a + c) w2 c" "keeps w1 w2"
    using release_many [OF moves_ok [OF w1(2)]] k1 assms(4) by blast
  have m: "moves n w c w2 c" using moves_trans [OF w1(2) w2(2)] by simp
  have "kinds w2 a = Some k" using moves_kind [OF m assms(1,2,2)] assms(3) by simp
  then show ?thesis
    using w1(1) w2(1) m alters_trans [OF w1(3) w2(3)] by (auto simp: moves_def evolves_def fun_eq_iff)
qed

end

section \<open>The initial state\<close>

definition world_init :: "environment \<Rightarrow> world" where
  "world_init e = \<lparr>heap = Map.empty, next_addr = 16, env = e, ticks = 0, log = []\<rparr>"

lemma heap_refs_empty [simp]: "heap_refs Map.empty = {#}"
  by (simp add: heap_refs_def)

lemma world_init_ok: "world_ok (world_init e) {#}"
  by (simp add: world_ok_def world_init_def)

text \<open>An environment that grants every request, and the state with one open device, for examples.\<close>

definition env_good :: environment where
  "env_good = \<lparr>malloc_ok = (\<lambda>_. True), open_fd = (\<lambda>_. 3), ioctl_ret = (\<lambda>_. 0),
     cavdsp_handle = (\<lambda>_. Some (1, 7)), ion_mem = (\<lambda>n. Some (of_nat (100 + n), 5, 0x1000)),
     mmap_addr = (\<lambda>_. Some 0x9000), link_status = (\<lambda>_. 0)\<rparr>"

definition world_dev :: "environment \<Rightarrow> world" where
  "world_dev e = (world_init e)\<lparr>
     heap := [16 \<mapsto> \<lparr>ref_count = 1,
       contents = Device \<lparr>dev_fd = 3, dev_generation = 0, dev_type = XRP_DEVICE_NEWMODE\<rparr>\<rparr>],
     next_addr := 17, log := [Open 0 O_RDONLY]\<rparr>"

lemma world_dev_simps [simp]:
  "heap (world_dev e) 16 = Some \<lparr>ref_count = 1,
     contents = Device \<lparr>dev_fd = 3, dev_generation = 0, dev_type = XRP_DEVICE_NEWMODE\<rparr>\<rparr>"
  "next_addr (world_dev e) = 17" "env (world_dev e) = e" "ticks (world_dev e) = 0"
  "log (world_dev e) = [Open 0 O_RDONLY]" "kinds (world_dev e) 16 = Some K_Device"
  by (simp_all add: world_dev_def world_init_def kinds_def)

lemma env_good_ion: "\<forall>n. ion_mem (env (world_dev env_good)) n \<noteq> None"
  by (simp add: env_good_def)

lemma world_dev_refs: "heap_refs (heap (world_dev e)) = {#}"
  by (simp add: world_dev_def heap_refs_def owns_def)

lemma world_dev_ok: "world_ok (world_dev e) {#16#}"
  unfolding world_ok_def world_dev_refs by (auto simp: world_dev_def world_init_def)

lemma world_dev_room: "n < 1000 \<Longrightarrow> room (world_dev e) {#16#} n"
  unfolding room_def world_dev_refs by simp

end
