(* ===== verification/Device_Buffer.thy ===== *)
theory Device_Buffer
  imports Object_Store
begin

text \<open>
  Devices and buffers: the device and buffer API of \<open>xrp_host_common.c\<close> and its implementation in
  \<open>xrp_linux.c\<close>, in the configuration with \<open>USE_SPRD_MODE\<close>. A function with a \<open>status\<close> out-parameter
  returns the value stored there next to its result; \<open>None\<close> as a returned pointer is NULL.
\<close>

section \<open>Devices\<close>

fun translate_opentype :: "xrp_open_type \<Rightarrow> sprd_vdsp_worktype" where
  "translate_opentype XRP_OPEN_NORMAL_TYPE = SPRD_VDSP_WORK_NORMAL"
| "translate_opentype XRP_OPEN_FACEID_TYPE = SPRD_VDSP_WORK_FACEID"
| "translate_opentype _ = SPRD_VDSP_WORK_MAXTYPE"

definition xrp_open_device :: "xrp_open_type \<Rightarrow> world \<Rightarrow> ((ptr \<times> xrp_status) \<times> world) option" where
  "xrp_open_device type w =
     (case ask cavdsp_handle (record_call (Cavdsp_open (translate_opentype type)) w) of
        (None, w1) \<Rightarrow> Some ((None, XRP_STATUS_FAILURE), w1)
      | (Some (fd, generation), w1) \<Rightarrow>
          (case alloc_refcounted (Device zero_device) w1 of
             (None, w2) \<Rightarrow> Some ((None, XRP_STATUS_FAILURE), w2)
           | (Some device, w2) \<Rightarrow> do {
               w3 \<leftarrow> put device (Device \<lparr>dev_fd = fd, dev_generation = generation,
                                        dev_type = XRP_DEVICE_NORMAL\<rparr>) w2;
               Some ((Some device, XRP_STATUS_SUCCESS), w3)
             }))"

fun open_mode_of :: "xrp_open_type \<Rightarrow> open_mode option" where
  "open_mode_of XRP_OPEN_NORMAL_TYPE = Some O_RDONLY"
| "open_mode_of XRP_OPEN_FACEID_TYPE = Some O_RDWR"
| "open_mode_of XRP_OPEN_TYPE_MAX = None"

definition xrp_open_device_newmode ::
    "int \<Rightarrow> xrp_open_type \<Rightarrow> world \<Rightarrow> ((ptr \<times> xrp_status) \<times> world) option" where
  "xrp_open_device_newmode idx type w =
     (let (fd, w1) = (case open_mode_of type of
                        None \<Rightarrow> (- 1, w)
                      | Some m \<Rightarrow> ask open_fd (record_call (Open (word_of_int idx) m) w))
      in if fd = - 1 then Some ((None, XRP_STATUS_FAILURE), w1)
         else case alloc_refcounted (Device zero_device) w1 of
             (None, w2) \<Rightarrow> Some ((None, XRP_STATUS_FAILURE), w2)
           | (Some device, w2) \<Rightarrow> do {
               w3 \<leftarrow> put device (Device (zero_device\<lparr>dev_fd := fd, dev_type := XRP_DEVICE_NEWMODE\<rparr>)) w2;
               Some ((Some device, XRP_STATUS_SUCCESS), w3)
             })"

fun close_call :: "xrp_device \<Rightarrow> call" where
  "close_call d = (case dev_type d of
      XRP_DEVICE_NORMAL \<Rightarrow> Cavdsp_close (dev_fd d) (dev_generation d)
    | XRP_DEVICE_NEWMODE \<Rightarrow> Close (dev_fd d))"

definition xrp_impl_release_device :: "addr \<Rightarrow> world \<Rightarrow> world option" where
  "xrp_impl_release_device device w = do {
     d \<leftarrow> get_device device w;
     Some (record_call (close_call d) w)
   }"

definition xrp_retain_device :: "addr \<Rightarrow> world \<Rightarrow> world option" where
  "xrp_retain_device device w = retain_refcounted device w"

definition xrp_release_device :: "addr \<Rightarrow> world \<Rightarrow> world option" where
  "xrp_release_device device w = do {
     (last, w1) \<leftarrow> last_release_refcounted device w;
     (if last then do { w2 \<leftarrow> xrp_impl_release_device device w1; free_object device w2 } else Some w1)
   }"

section \<open>Buffers\<close>

definition update_buffer :: "addr \<Rightarrow> (xrp_buffer \<Rightarrow> xrp_buffer) \<Rightarrow> world \<Rightarrow> world option" where
  "update_buffer a f w = do { b \<leftarrow> get_buffer a w; put a (Buffer (f b)) w }"

text \<open>
  The ion wrappers of \<open>sprd_vdsp_ion.cpp\<close>. The class \<open>MemIon\<close> belongs to the platform: what its
  constructor obtains is an answer of the environment.
\<close>

definition sprd_alloc_ionmem :: "u32 \<Rightarrow> bool \<Rightarrow> world \<Rightarrow> (u64 \<times> int \<times> u64) option \<times> world" where
  [simp]: "sprd_alloc_ionmem sz iscache w = ask ion_mem (record_call (Ion_alloc sz iscache) w)"

definition sprd_free_ionmem :: "u64 \<Rightarrow> world \<Rightarrow> world" where
  [simp]: "sprd_free_ionmem handle w = (if handle \<noteq> 0 then record_call (Ion_free handle) w else w)"

text \<open>
  \<open>sprd_alloc_ionmem\<close> takes a \<open>uint32_t\<close>: the requested size is truncated on the way, while the
  buffer keeps the full one.
\<close>

definition xrp_impl_create_device_buffer ::
    "ptr \<Rightarrow> addr \<Rightarrow> u64 \<Rightarrow> world \<Rightarrow> (xrp_status \<times> world) option" where
  "xrp_impl_create_device_buffer device buffer sz w = do {
     d \<leftarrow> device;
     w1 \<leftarrow> xrp_retain_device d w;
     w2 \<leftarrow> update_buffer buffer (\<lambda>b. b\<lparr>buf_device := device\<rparr>) w1;
     (case sprd_alloc_ionmem (ucast sz) True w2 of
        (None, w3) \<Rightarrow> do {
          b \<leftarrow> get_buffer buffer w3;
          d' \<leftarrow> buf_device b;
          w4 \<leftarrow> xrp_release_device d' w3;
          Some (XRP_STATUS_FAILURE, w4)
        }
      | (Some (handle, fd, viraddr), w3) \<Rightarrow> do {
          w4 \<leftarrow> update_buffer buffer
                  (\<lambda>b. b\<lparr>buf_ptr := viraddr, ionhandle := handle, ion_fd := fd, buf_size := sz\<rparr>) w3;
          Some (XRP_STATUS_SUCCESS, w4)
        })
   }"

definition xrp_impl_release_device_buffer :: "addr \<Rightarrow> world \<Rightarrow> world option" where
  "xrp_impl_release_device_buffer buffer w = do {
     b \<leftarrow> get_buffer buffer w;
     let w1 = sprd_free_ionmem (ionhandle b) w;
     d \<leftarrow> buf_device b;
     xrp_release_device d w1
   }"

text \<open>
  The last store, \<open>buf->apptr = NULL\<close>, is executed on every path on which \<open>buf\<close> was allocated: when
  the device allocation failed, \<open>buf\<close> has been freed and set to NULL.
\<close>

definition xrp_create_buffer ::
    "ptr \<Rightarrow> u64 \<Rightarrow> u64 \<Rightarrow> int \<Rightarrow> world \<Rightarrow> ((ptr \<times> xrp_status) \<times> world) option" where
  "xrp_create_buffer device sz host_ptr fd w =
     (if host_ptr = 0 \<and> device = None then Some ((None, XRP_STATUS_FAILURE), w)
      else case alloc_refcounted (Buffer zero_buffer) w of
        (None, w1) \<Rightarrow> Some ((None, XRP_STATUS_FAILURE), w1)
      | (Some a, w1) \<Rightarrow> do {
          (buf, s, w2) \<leftarrow>
            (if fd \<noteq> - 1 then do {
               w2 \<leftarrow> update_buffer a (\<lambda>b. b\<lparr>buf_type := XRP_BUFFER_TYPE_HOST, buf_ptr := host_ptr,
                                           buf_size := sz, ion_fd := fd\<rparr>) w1;
               Some (Some a, XRP_STATUS_SUCCESS, w2)
             } else do {
               w2 \<leftarrow> update_buffer a (\<lambda>b. b\<lparr>buf_type := XRP_BUFFER_TYPE_DEVICE\<rparr>) w1;
               (s, w3) \<leftarrow> xrp_impl_create_device_buffer device a sz w2;
               (if s \<noteq> XRP_STATUS_SUCCESS
                then do { w4 \<leftarrow> free_object a w3; Some (None, s, w4) }
                else Some (Some a, s, w3))
             });
          p \<leftarrow> buf;
          w3 \<leftarrow> update_buffer p (\<lambda>b. b\<lparr>buf_apptr := 0\<rparr>) w2;
          Some ((buf, s), w3)
        })"

definition xrp_retain_buffer :: "addr \<Rightarrow> world \<Rightarrow> world option" where
  "xrp_retain_buffer buffer w = retain_refcounted buffer w"

definition xrp_release_buffer :: "addr \<Rightarrow> world \<Rightarrow> world option" where
  "xrp_release_buffer buffer w = do {
     (last, w1) \<leftarrow> last_release_refcounted buffer w;
     (if last then do {
        b \<leftarrow> get_buffer buffer w1;
        w2 \<leftarrow> (if buf_type b = XRP_BUFFER_TYPE_DEVICE
               then xrp_impl_release_device_buffer buffer w1 else Some w1);
        free_object buffer w2
      } else Some w1)
   }"

text \<open>\<open>xrp_map_buffer\<close> returns a host address, 0 for NULL.\<close>

definition xrp_map_buffer :: "addr \<Rightarrow> u64 \<Rightarrow> u64 \<Rightarrow> xrp_access_flags \<Rightarrow> world \<Rightarrow>
    ((u64 \<times> xrp_status) \<times> world) option" where
  "xrp_map_buffer buffer offset len flags w = do {
     b \<leftarrow> get_buffer buffer w;
     (if offset \<le> buf_size b \<and> len \<le> buf_size b - offset
      then do {
        w1 \<leftarrow> retain_refcounted buffer w;
        w2 \<leftarrow> update_buffer buffer
                (\<lambda>b. b\<lparr>map_count := map_count b + 1, map_flags := or (map_flags b) flags\<rparr>) w1;
        Some ((buf_ptr b + offset, XRP_STATUS_SUCCESS), w2)
      }
      else Some ((0, XRP_STATUS_FAILURE), w))
   }"

definition xrp_unmap_buffer :: "addr \<Rightarrow> u64 \<Rightarrow> world \<Rightarrow> (xrp_status \<times> world) option" where
  "xrp_unmap_buffer buffer p w = do {
     b \<leftarrow> get_buffer buffer w;
     (if buf_ptr b \<le> p \<and> p - buf_ptr b \<le> buf_size b
      then do {
        w1 \<leftarrow> update_buffer buffer (\<lambda>b. b\<lparr>map_count := map_count b - 1\<rparr>) w;
        w2 \<leftarrow> xrp_release_buffer buffer w1;
        Some (XRP_STATUS_SUCCESS, w2)
      }
      else Some (XRP_STATUS_FAILURE, w))
   }"

text \<open>\<open>enum xrp_buffer_info\<close>; the last constructor stands for any other value of the C enum.\<close>

datatype xrp_buffer_info =
  XRP_BUFFER_SIZE_SIZE_T | XRP_BUFFER_HOST_POINTER_PTR | XRP_BUFFER_INFO_INVALID

text \<open>The value copied to \<open>out\<close>, if any. Both \<open>size_t\<close> and a pointer take 8 bytes.\<close>

definition xrp_buffer_get_info ::
    "addr \<Rightarrow> xrp_buffer_info \<Rightarrow> u64 \<Rightarrow> world \<Rightarrow> (u64 option \<times> xrp_status) option" where
  "xrp_buffer_get_info buffer info out_sz w = do {
     b \<leftarrow> get_buffer buffer w;
     let src = (case info of
                  XRP_BUFFER_SIZE_SIZE_T \<Rightarrow> Some (buf_size b)
                | XRP_BUFFER_HOST_POINTER_PTR \<Rightarrow>
                    Some (if buf_type b \<noteq> XRP_BUFFER_TYPE_HOST then 0 else buf_ptr b)
                | XRP_BUFFER_INFO_INVALID \<Rightarrow> None);
     Some (case src of
             None \<Rightarrow> (None, XRP_STATUS_FAILURE)
           | Some v \<Rightarrow> if out_sz = 8 then (Some v, XRP_STATUS_SUCCESS) else (None, XRP_STATUS_FAILURE))
   }"

section \<open>Releasing\<close>

lemma release_device_ok:
  assumes ok: "world_ok w (add_mset d c)" and k: "kinds w d = Some K_Device"
  shows "\<exists>w' obj dev. xrp_release_device d w = Some w' \<and> moves 0 w (add_mset d c) w' c \<and> keeps w w' \<and>
    heap w d = Some obj \<and> contents obj = Device dev \<and>
    heap w' = (heap w)(d := if ref_count obj = 1 then None
                            else Some (obj\<lparr>ref_count := ref_count obj - 1\<rparr>)) \<and>
    log w' = log w @ (if ref_count obj = 1 then [close_call dev] else []) \<and> quiet w w'"
proof -
  from k obtain obj dev where h: "heap w d = Some obj" "contents obj = Device dev"
    by (rule device_kindE)
  from ok h(1) show ?thesis
  proof (cases rule: release_cases)
    case (more w')
    have "keeps w w'" using h(1) more(6) moves_next [OF more(3)] by (rule keeps_count)
    with more h show ?thesis by (simp add: xrp_release_device_def quiet_same)
  next
    case (last w1)
    let ?w1 = "record_call (close_call dev) w1"
    have g: "get_device d w1 = Some dev" using last(6) h by simp
    have "moves 0 w1 c ?w1 c" using last(3) h by (simp add: moves_refl)
    moreover have "dying w1 d = Some (obj\<lparr>ref_count := 0\<rparr>)" using last(6) by (simp add: dying_def)
    ultimately obtain w' where w': "free_object d ?w1 = Some w'" "moves 0 w (add_mset d c) w' c"
      "heap w' = (heap ?w1)(d := None)" "log w' = log ?w1"
      using release_finish [OF last(8,9), of 0 c ?w1 c _ "add_mset d c"] last(10) h by auto
    have hp: "heap w' = (heap w)(d := None)" using w'(3) last(6) by simp
    have "keeps w w'" using keeps_free [OF hp moves_next [OF w'(2)] h(1)] h(2) by simp
    then show ?thesis using last w' h g hp
      by (simp add: xrp_release_device_def xrp_impl_release_device_def quiet_def split: device_type.splits)
  qed
qed

lemma release_buffer_ok:
  assumes ok: "world_ok w (add_mset b c)" and k: "kinds w b = Some K_Buffer"
  shows "\<exists>w'. xrp_release_buffer b w = Some w' \<and> moves 0 w (add_mset b c) w' c \<and> keeps w w' \<and> quiet w w'"
proof -
  from k obtain obj buf where h: "heap w b = Some obj" "contents obj = Buffer buf"
    by (rule buffer_kindE)
  from ok h(1) show ?thesis
  proof (cases rule: release_cases)
    case (more w')
    have "keeps w w'" using h(1) more(6) moves_next [OF more(3)] by (rule keeps_count)
    with more show ?thesis by (simp add: xrp_release_buffer_def quiet_same)
  next
    case (last w1)
    have g: "get_buffer b w1 = Some buf" and s1: "keeps w w1"
      using last(6,8) h by (auto simp: evolves_def intro: keeps_count)
    have dy: "dying w1 b = Some (obj\<lparr>ref_count := 0\<rparr>)" using last(6) by (simp add: dying_def)
    have "\<exists>w2. (if buf_type buf = XRP_BUFFER_TYPE_DEVICE
                then xrp_impl_release_device_buffer b w1 else Some w1) = Some w2 \<and>
            moves 0 w1 (c + body_refs (contents obj)) w2 c \<and> keeps w1 w2 \<and> quiet w1 w2"
    proof (cases "buf_type buf = XRP_BUFFER_TYPE_DEVICE")
      case True
      then obtain d where d: "buf_device buf = Some d" "kinds w d = Some K_Device"
        using last(7) h by auto
      let ?w = "sprd_free_ionmem (ionhandle buf) w1"
      have "world_ok ?w (add_mset d c)" "kinds ?w d = Some K_Device"
        using last(3,5) h d True by simp_all
      from release_device_ok [OF this] obtain w2 where w2: "xrp_release_device d ?w = Some w2"
        "moves 0 ?w (add_mset d c) w2 c" "keeps ?w w2" "quiet ?w w2" by blast
      then have "quiet w1 w2" by (auto simp: quiet_def split: if_splits)
      with w2 d g True h show ?thesis
        by (auto simp: xrp_impl_release_device_buffer_def Let_def split: if_splits)
    next
      case False
      with last(3) h show ?thesis by (simp add: moves_refl quiet_same)
    qed
    then obtain w2 where w2: "(if buf_type buf = XRP_BUFFER_TYPE_DEVICE
                then xrp_impl_release_device_buffer b w1 else Some w1) = Some w2"
      "moves 0 w1 (c + body_refs (contents obj)) w2 c" "keeps w1 w2" "quiet w1 w2" by blast
    from release_finish [OF last(8,9) w2(2) dy last(10)] obtain w' where
      w': "free_object b w2 = Some w'" "moves 0 w (add_mset b c) w' c" "heap w' = (heap w2)(b := None)"
      "log w' = log w2" by blast
    have q: "quiet w w'" using w2(4) last(4) w'(4) by (simp add: quiet_def)
    have "next_addr w2 \<le> next_addr w'" using w'(1) by (auto simp: free_object_def split: if_splits)
    then have "keeps w2 w'" using keeps_free [OF w'(3) _ dying_kept [OF w2(2) dy]] h(2) by simp
    with s1 w2(3) have "keeps w w'" by (blast intro: alters_trans)
    then show ?thesis using last(1) g w2(1) w' q by (simp add: xrp_release_buffer_def)
  qed
qed

section \<open>Creating\<close>

text \<open>The outcome of a call that creates an object of kind \<open>knd\<close>, with at most \<open>k\<close> new references.\<close>

definition created :: "nat \<Rightarrow> kind \<Rightarrow> world \<Rightarrow> addr multiset \<Rightarrow> ptr \<Rightarrow> xrp_status \<Rightarrow> world \<Rightarrow> bool" where
  "created k knd w c r s w' \<longleftrightarrow> keeps w w' \<and>
     (case r of
        None \<Rightarrow> s = XRP_STATUS_FAILURE \<and> moves 0 w c w' c
      | Some a \<Rightarrow> s = XRP_STATUS_SUCCESS \<and> moves k w c w' (add_mset a c) \<and> kinds w' a = Some knd)"

lemma alloc_cases:
  obtains (fail) "alloc_refcounted b w = (None, w\<lparr>ticks := Suc (ticks w)\<rparr>)"
      and "\<not> malloc_ok (env w) (ticks w)"
  | (new) "alloc_refcounted b w =
      (Some (next_addr w), w\<lparr>ticks := Suc (ticks w),
         heap := (heap w)(next_addr w \<mapsto> \<lparr>ref_count = 1, contents = b\<rparr>), next_addr := Suc (next_addr w)\<rparr>)"
  by (cases "malloc_ok (env w) (ticks w)") (auto simp: alloc_refcounted_def ask_def)

lemma created_new:
  assumes "world_ok w (c + body_refs b)" and "heap w' = (heap w)(next_addr w \<mapsto> \<lparr>ref_count = 1, contents = b\<rparr>)"
    and "next_addr w' = Suc (next_addr w)" and "env w' = env w" and "body_ok (kinds w) (next_addr w) b"
  shows "moves 1 w (c + body_refs b) w' (add_mset (next_addr w) c)"
    and "kinds w' (next_addr w) = Some (kind_of b)" and "keeps w w'"
proof -
  have "heap w (next_addr w) = None" using world_ok_next [OF assms(1)] by blast
  then show "moves 1 w (c + body_refs b) w' (add_mset (next_addr w) c)"
    "kinds w' (next_addr w) = Some (kind_of b)" "keeps w w'"
    using moves_new [OF assms(1,2) refl assms(3-5)] assms(2,3) by (auto simp: kinds_def alters_def)
qed

lemma open_device_ok:
  assumes "world_ok w c"
  shows "\<exists>r s w'. xrp_open_device type w = Some ((r, s), w') \<and> created 1 K_Device w c r s w'"
proof (cases "cavdsp_handle (env w) (ticks w)")
  case None
  with assms show ?thesis
    by (simp add: xrp_open_device_def ask_def record_call_def created_def moves_refl)
next
  case (Some h)
  obtain fd g where h: "h = (fd, g)" by force
  let ?w = "record_call (Cavdsp_open (translate_opentype type)) w\<lparr>ticks := Suc (ticks w)\<rparr>"
  let ?b = "Device \<lparr>dev_fd = fd, dev_generation = g, dev_type = XRP_DEVICE_NORMAL\<rparr>"
  have ask: "ask cavdsp_handle (record_call (Cavdsp_open (translate_opentype type)) w) = (Some h, ?w)"
    using Some by (simp add: ask_def)
  show ?thesis
  proof (cases rule: alloc_cases [of "Device zero_device" ?w])
    case fail
    with ask h assms show ?thesis by (simp add: xrp_open_device_def created_def moves_refl)
  next
    case new
    let ?a = "next_addr w"
    let ?w' = "?w\<lparr>ticks := Suc (Suc (ticks w)), heap := (heap w)(?a \<mapsto> \<lparr>ref_count = 1, contents = ?b\<rparr>),
                  next_addr := Suc ?a\<rparr>"
    have "xrp_open_device type w = Some ((Some ?a, XRP_STATUS_SUCCESS), ?w')"
      using ask h new by (simp add: xrp_open_device_def put_def)
    moreover have "moves 1 w c ?w' (add_mset ?a c)" "kinds ?w' ?a = Some K_Device" "keeps w ?w'"
      using created_new [of w c ?b ?w'] assms by simp_all
    ultimately show ?thesis by (auto simp: created_def)
  qed
qed

lemma open_device_newmode_ok:
  assumes "world_ok w c"
  shows "\<exists>r s w'. xrp_open_device_newmode idx type w = Some ((r, s), w') \<and> created 1 K_Device w c r s w'"
proof -
  obtain fd w1 where w1: "(case open_mode_of type of None \<Rightarrow> (- 1, w)
      | Some m \<Rightarrow> ask open_fd (record_call (Open (word_of_int idx) m) w)) = (fd, w1)" by force
  then have same: "heap w1 = heap w" "next_addr w1 = next_addr w" "env w1 = env w"
    and ok1: "world_ok w1 c" and ev: "moves 0 w c w1 c" "keeps w w1"
    using assms by (auto simp: ask_def moves_refl split: option.splits)
  show ?thesis
  proof (cases "fd = - 1")
    case True
    with w1 ev show ?thesis by (simp add: xrp_open_device_newmode_def created_def)
  next
    case False
    let ?b = "Device (zero_device\<lparr>dev_fd := fd, dev_type := XRP_DEVICE_NEWMODE\<rparr>)"
    show ?thesis
    proof (cases rule: alloc_cases [of "Device zero_device" w1])
      case fail
      with w1 False ev show ?thesis by (simp add: xrp_open_device_newmode_def created_def)
    next
      case new
      let ?a = "next_addr w1"
      let ?w' = "w1\<lparr>ticks := Suc (ticks w1), heap := (heap w1)(?a \<mapsto> \<lparr>ref_count = 1, contents = ?b\<rparr>),
                    next_addr := Suc ?a\<rparr>"
      have "xrp_open_device_newmode idx type w = Some ((Some ?a, XRP_STATUS_SUCCESS), ?w')"
        using w1 False new by (simp add: xrp_open_device_newmode_def put_def)
      moreover have "moves 1 w1 c ?w' (add_mset ?a c)" "kinds ?w' ?a = Some K_Device" "keeps w1 ?w'"
        using created_new [of w1 c ?b ?w'] ok1 by simp_all
      ultimately show ?thesis
        using moves_trans [OF ev(1)] alters_trans [OF ev(2)] by (auto simp: created_def)
    qed
  qed
qed

text \<open>A request for a buffer that the code can serve or refuse without undefined behaviour.\<close>

definition buffer_request_ok :: "world \<Rightarrow> addr multiset \<Rightarrow> ptr \<Rightarrow> u64 \<Rightarrow> int \<Rightarrow> bool" where
  "buffer_request_ok w c device host_ptr fd \<longleftrightarrow>
     (fd = - 1 \<longrightarrow> (\<forall>n. ion_mem (env w) n \<noteq> None) \<and>
        (case device of None \<Rightarrow> host_ptr = 0
                        | Some d \<Rightarrow> d \<in># c + heap_refs (heap w) \<and> kinds w d = Some K_Device))"

lemma create_host_buffer:
  assumes ok: "world_ok w c" and fd: "fd \<noteq> - 1"
  shows "\<exists>r s w'. xrp_create_buffer device sz host_ptr fd w = Some ((r, s), w') \<and>
    created 1 K_Buffer w c r s w' \<and> log w' = log w \<and>
    (r = None \<longrightarrow> device = None \<or> (\<exists>n. \<not> malloc_ok (env w) n)) \<and>
    (\<forall>a. r = Some a \<longrightarrow> get_buffer a w' = Some (zero_buffer\<lparr>buf_ptr := host_ptr, buf_size := sz, ion_fd := fd\<rparr>))"
proof (cases "host_ptr = 0 \<and> device = None")
  case True
  with ok show ?thesis by (auto simp: xrp_create_buffer_def created_def moves_refl)
next
  case False
  show ?thesis
  proof (cases rule: alloc_cases [of "Buffer zero_buffer" w])
    case fail
    with ok False show ?thesis by (auto simp: xrp_create_buffer_def created_def moves_refl)
  next
    case new
    let ?b = "zero_buffer\<lparr>buf_ptr := host_ptr, buf_size := sz, ion_fd := fd\<rparr>" let ?a = "next_addr w"
    let ?w' = "w\<lparr>ticks := Suc (ticks w), heap := (heap w)(?a \<mapsto> \<lparr>ref_count = 1, contents = Buffer ?b\<rparr>),
                 next_addr := Suc ?a\<rparr>"
    have "xrp_create_buffer device sz host_ptr fd w = Some ((Some ?a, XRP_STATUS_SUCCESS), ?w')"
      using new False fd
      by (simp add: xrp_create_buffer_def update_buffer_def get_buffer_def put_def zero_buffer_def)
    moreover have "moves 1 w c ?w' (add_mset ?a c)" "kinds ?w' ?a = Some K_Buffer" "keeps w ?w'"
      using created_new [of w c "Buffer ?b" ?w'] ok by (simp_all add: zero_buffer_def)
    ultimately show ?thesis by (auto simp: created_def)
  qed
qed

lemma create_device_buffer:
  assumes ok: "world_ok w c" and room: "room w c 2" and d: "d \<in># c + heap_refs (heap w)" "kinds w d = Some K_Device"
    and ion: "\<forall>n. ion_mem (env w) n \<noteq> None"
  shows "\<exists>r s w'. xrp_create_buffer (Some d) sz host_ptr (- 1) w = Some ((r, s), w') \<and>
    created 2 K_Buffer w c r s w' \<and> (r = None \<longrightarrow> (\<exists>n. \<not> malloc_ok (env w) n)) \<and>
    (\<forall>a. r = Some a \<longrightarrow> (\<exists>h fd va n. ion_mem (env w) n = Some (h, fd, va) \<and>
       log w' = log w @ [Ion_alloc (ucast sz) True] \<and>
       get_buffer a w' = Some (zero_buffer\<lparr>buf_device := Some d, buf_type := XRP_BUFFER_TYPE_DEVICE,
         buf_ptr := va, buf_size := sz, ion_fd := fd, ionhandle := h\<rparr>)))"
proof (cases rule: alloc_cases [of "Buffer zero_buffer" w])
  case fail
  with ok show ?thesis by (auto simp: xrp_create_buffer_def created_def moves_refl)
next
  case new
  let ?t = "Suc (ticks w)"
  obtain h fd va where mem: "ion_mem (env w) ?t = Some (h, fd, va)"
    using ion by (metis option.exhaust prod_cases3)
  let ?b = "zero_buffer\<lparr>buf_device := Some d, buf_type := XRP_BUFFER_TYPE_DEVICE,
              buf_ptr := va, buf_size := sz, ion_fd := fd, ionhandle := h\<rparr>"
  let ?a = "next_addr w"
  have "room w c 1" using room by (simp add: room_def)
  then obtain w1 obj where w1: "moves 1 w c w1 (add_mset d c)" "kinds w1 = kinds w"
    "heap w d = Some obj" "heap w1 = (heap w)(d \<mapsto> obj\<lparr>ref_count := ref_count obj + 1\<rparr>)"
    using moves_retain [OF ok d(1)] by auto
  have da: "d \<noteq> ?a" using world_ok_next [OF ok] w1(3) by blast
  have next1: "next_addr w1 = next_addr w" if "retain_refcounted d w = Some w1"
    using that w1(3) by (auto simp: retain_refcounted_def)
  let ?w1 = "w\<lparr>heap := (heap w)(d \<mapsto> obj\<lparr>ref_count := ref_count obj + 1\<rparr>)\<rparr>"
  let ?w' = "w\<lparr>ticks := Suc ?t, log := log w @ [Ion_alloc (ucast sz) True],
               heap := (heap ?w1)(?a \<mapsto> \<lparr>ref_count = 1, contents = Buffer ?b\<rparr>), next_addr := Suc ?a\<rparr>"
  have "xrp_create_buffer (Some d) sz host_ptr (- 1) w = Some ((Some ?a, XRP_STATUS_SUCCESS), ?w')"
    using new mem w1(3) da
    by (simp add: xrp_create_buffer_def xrp_impl_create_device_buffer_def update_buffer_def get_buffer_def
        put_def zero_buffer_def xrp_retain_device_def retain_refcounted_def ask_def record_call_def
        fun_upd_twist)
  moreover have m1: "moves 1 w c ?w1 (add_mset d c)"
    using moves_retain [OF ok d(1) \<open>room w c 1\<close>] w1(3) by (auto simp: retain_refcounted_def)
  have ok1: "world_ok ?w1 (c + body_refs (Buffer ?b))" using moves_ok [OF m1] by simp
  have k1: "kinds ?w1 = kinds w" using w1(3) by (auto simp: kinds_def fun_eq_iff)
  have "body_ok (kinds ?w1) ?a (Buffer ?b)" using d(2) k1 by simp
  from created_new [OF ok1, of ?w', simplified, OF this [simplified]]
  have "moves 1 ?w1 (add_mset d c) ?w' (add_mset ?a c)" "kinds ?w' ?a = Some K_Buffer" "keeps ?w1 ?w'"
    by simp_all
  moreover have "keeps w ?w1" using w1(3) by (auto intro: keeps_count)
  ultimately show ?thesis
    using moves_trans [OF m1, of 1 ?w' "add_mset ?a c"] alters_trans [of "{}" w ?w1 ?w'] mem
    by (intro exI [of _ "Some ?a"] exI [of _ XRP_STATUS_SUCCESS] exI [of _ ?w'])
      (auto simp: created_def numeral_2_eq_2 get_buffer_def)
qed

lemma created_mono: "created j knd w c r s w' \<Longrightarrow> j \<le> k \<Longrightarrow> created k knd w c r s w'"
  by (auto simp: created_def split: option.splits intro: moves_mono)

lemma create_buffer_ok:
  assumes ok: "world_ok w c" and room: "room w c 2" and req: "buffer_request_ok w c device host_ptr fd"
  shows "\<exists>r s w'. xrp_create_buffer device sz host_ptr fd w = Some ((r, s), w') \<and>
    created 2 K_Buffer w c r s w' \<and> (fd \<noteq> - 1 \<longrightarrow> log w' = log w) \<and>
    (r = None \<longrightarrow> device = None \<or> (\<exists>n. \<not> malloc_ok (env w) n)) \<and>
    (\<forall>a. r = Some a \<longrightarrow> (\<exists>buf. get_buffer a w' = Some buf \<and> buf_size buf = sz \<and> map_count buf = 0 \<and>
       (if fd \<noteq> - 1
        then buf_type buf = XRP_BUFFER_TYPE_HOST \<and> buf_ptr buf = host_ptr \<and> ion_fd buf = fd
        else buf_type buf = XRP_BUFFER_TYPE_DEVICE \<and> buf_device buf = device)))"
proof (cases "fd = - 1")
  case False
  from create_host_buffer [OF ok this, of device sz host_ptr] False show ?thesis
    by (fastforce simp: zero_buffer_def intro: created_mono)
next
  case True
  show ?thesis
  proof (cases device)
    case None
    with True req ok show ?thesis
      by (auto simp: xrp_create_buffer_def buffer_request_ok_def created_def moves_refl)
  next
    case (Some d)
    with True req create_device_buffer [OF ok room, of d sz host_ptr] show ?thesis
      by (fastforce simp: buffer_request_ok_def zero_buffer_def)
  qed
qed

section \<open>Mapping\<close>

text \<open>The range check of \<open>xrp_map_buffer\<close> does not overflow.\<close>

lemma map_range_iff:
  "offset \<le> sz \<and> len \<le> sz - offset \<longleftrightarrow> unat offset + unat len \<le> unat (sz :: u64)"
proof (cases "offset \<le> sz")
  case True
  then have "unat (sz - offset) = unat sz - unat offset" by (rule unat_sub)
  with True show ?thesis by (auto simp: word_le_nat_alt)
qed (simp add: word_le_nat_alt)

text \<open>A store that keeps the storage of a buffer.\<close>

lemma get_bufferE:
  assumes "get_buffer b w = Some buf"
  obtains obj where "heap w b = Some obj" and "contents obj = Buffer buf"
  using assms by (auto simp: get_buffer_def split: option.splits body.splits)

lemma update_buffer_ok:
  assumes ok: "world_ok w c" and b: "b \<in># c" and buf: "get_buffer b w = Some buf"
    and same: "buf_type (f buf) = buf_type buf" "buf_device (f buf) = buf_device buf"
  shows "\<exists>w'. update_buffer b f w = Some w' \<and> moves 0 w c w' c \<and> kinds w' = kinds w \<and>
    get_buffer b w' = Some (f buf) \<and> next_addr w' = next_addr w \<and> alters {b} w w'"
proof -
  obtain obj where h: "heap w b = Some obj" "contents obj = Buffer buf" using buf by (rule get_bufferE)
  have live: "ref_count obj \<noteq> 0" using world_ok_alive [OF ok h(1)] b by simp
  have refs: "c + body_refs (Buffer (f buf)) = c + body_refs (contents obj)"
    using h(2) same by simp
  have body: "body_ok (kinds w) b (Buffer (f buf))"
    using world_ok_body [OF ok h(1) live] h(2) same by simp
  obtain w' where w': "put b (Buffer (f buf)) w = Some w'" "moves 0 w c w' c" "kinds w' = kinds w"
    "heap w' = (heap w)(b \<mapsto> obj\<lparr>contents := Buffer (f buf)\<rparr>)"
    using moves_put [OF ok h(1) live refs _ body] h(2) by auto
  moreover have "alters {b} w w'" using w'(4) moves_next [OF w'(2)] by (rule alters_put) simp
  ultimately show ?thesis using buf h by (auto simp: update_buffer_def put_def)
qed

lemma map_buffer_ok:
  assumes ok: "world_ok w c" and b: "b \<in># c" and room: "room w c 1"
    and buf: "get_buffer b w = Some buf" and range: "unat offset + unat len \<le> unat (buf_size buf)"
  shows "\<exists>w'. xrp_map_buffer b offset len flags w = Some ((buf_ptr buf + offset, XRP_STATUS_SUCCESS), w') \<and>
    moves 1 w c w' (add_mset b c) \<and> kinds w' = kinds w \<and>
    get_buffer b w' = Some (buf\<lparr>map_count := map_count buf + 1, map_flags := or (map_flags buf) flags\<rparr>) \<and>
    alters {b} w w'"
proof -
  obtain w1 obj where w1: "retain_refcounted b w = Some w1" "moves 1 w c w1 (add_mset b c)"
    "kinds w1 = kinds w" "heap w b = Some obj"
    "heap w1 = (heap w)(b \<mapsto> obj\<lparr>ref_count := ref_count obj + 1\<rparr>)"
    using moves_retain [OF ok _ room, of b] b by auto
  have g1: "get_buffer b w1 = Some buf" using buf w1(4,5) by (auto elim: get_bufferE)
  let ?f = "\<lambda>b. b\<lparr>map_count := map_count b + 1, map_flags := or (map_flags b) flags\<rparr>"
  obtain w2 where w2: "update_buffer b ?f w1 = Some w2" "moves 0 w1 (add_mset b c) w2 (add_mset b c)"
    "kinds w2 = kinds w1" "get_buffer b w2 = Some (?f buf)" "alters {b} w1 w2"
    using update_buffer_ok [OF moves_ok [OF w1(2)] _ g1, of ?f] by auto
  have "alters {b} w w1" using w1(5) moves_next [OF w1(2)] by (rule alters_put) simp
  then have al: "alters {b} w w2" using w2(5) by (rule alters_trans)
  have "xrp_map_buffer b offset len flags w = Some ((buf_ptr buf + offset, XRP_STATUS_SUCCESS), w2)"
    using buf range [folded map_range_iff] w1(1) w2(1) by (simp add: xrp_map_buffer_def)
  then show ?thesis using moves_trans [OF w1(2) w2(2)] w2(3,4) w1(3) al by auto
qed

lemma unmap_buffer_ok:
  assumes ok: "world_ok w (add_mset b c)" and buf: "get_buffer b w = Some buf"
    and range: "buf_ptr buf \<le> p" "p - buf_ptr buf \<le> buf_size buf"
  shows "\<exists>w'. xrp_unmap_buffer b p w = Some (XRP_STATUS_SUCCESS, w') \<and> moves 0 w (add_mset b c) w' c \<and>
    (b \<in># c + heap_refs (heap w') \<longrightarrow> get_buffer b w' = Some (buf\<lparr>map_count := map_count buf - 1\<rparr>)) \<and>
    alters {b} w w'"
proof -
  let ?f = "\<lambda>b. b\<lparr>map_count := map_count b - 1\<rparr>"
  obtain w1 where w1: "update_buffer b ?f w = Some w1" "moves 0 w (add_mset b c) w1 (add_mset b c)"
    "kinds w1 = kinds w" "get_buffer b w1 = Some (?f buf)" "alters {b} w w1"
    using update_buffer_ok [OF ok _ buf, of ?f] by auto
  have "kinds w1 b = Some K_Buffer" using w1(4) by (auto simp: kinds_def elim: get_bufferE)
  then obtain w2 where w2: "xrp_release_buffer b w1 = Some w2" "moves 0 w1 (add_mset b c) w2 c" "keeps w1 w2"
    using release_buffer_ok [of w1 b c] moves_ok [OF w1(2)] by auto
  have "get_buffer b w2 = Some (?f buf)" if bc: "b \<in># c + heap_refs (heap w2)"
  proof -
    obtain obj2 where h2: "heap w2 b = Some obj2"
      using world_ok_dom [OF moves_ok [OF w2(2)]] bc by blast
    obtain obj1 where h1: "heap w1 b = Some obj1" "contents obj1 = Buffer (?f buf)"
      using w1(4) by (rule get_bufferE)
    then have "b < next_addr w1" using world_ok_next [OF moves_ok [OF w1(2)]] by blast
    with w2(3) h2 h1 have "contents obj2 = Buffer (?f buf)" by (fastforce simp: alters_def)
    with h2 show ?thesis by simp
  qed
  moreover have "xrp_unmap_buffer b p w = Some (XRP_STATUS_SUCCESS, w2)"
    using buf range w1(1) w2(1) by (simp add: xrp_unmap_buffer_def)
  moreover have "alters {b} w w2" using w1(5) alters_mono [OF w2(3)] by (blast intro: alters_trans)
  ultimately show ?thesis using moves_trans [OF w1(2) w2(2)] by auto
qed

section \<open>Devices and buffers as reference-counted objects\<close>

lemma retain_keeps:
  assumes "world_ok w c" and "a \<in># c" and "room w c 1"
  shows "\<exists>w'. retain_refcounted a w = Some w' \<and> moves 1 w c w' (add_mset a c) \<and> keeps w w'"
  using moves_retain [OF assms(1) _ assms(3), of a] assms(2) keeps_count moves_next by fastforce

interpretation device_refs: refcounted xrp_retain_device xrp_release_device "\<lambda>k. k = K_Device" 0
proof
  fix w c a k
  show "\<exists>w'. xrp_retain_device a w = Some w' \<and> moves 1 w c w' (add_mset a c) \<and> keeps w w'"
    if "world_ok w c" "a \<in># c" "room w c 1"
    using retain_keeps [OF that] by (simp add: xrp_retain_device_def)
  show "\<exists>w'. xrp_release_device a w = Some w' \<and> moves 0 w (add_mset a c) w' c \<and> keeps w w'"
    if "world_ok w (add_mset a c)" "kinds w a = Some k" "k = K_Device"
    using release_device_ok [of w a c] that by blast
qed

interpretation buffer_refs: refcounted xrp_retain_buffer xrp_release_buffer "\<lambda>k. k = K_Buffer" 0
proof
  fix w c a k
  show "\<exists>w'. xrp_retain_buffer a w = Some w' \<and> moves 1 w c w' (add_mset a c) \<and> keeps w w'"
    if "world_ok w c" "a \<in># c" "room w c 1"
    using retain_keeps [OF that] by (simp add: xrp_retain_buffer_def)
  show "\<exists>w'. xrp_release_buffer a w = Some w' \<and> moves 0 w (add_mset a c) w' c \<and> keeps w w'"
    if "world_ok w (add_mset a c)" "kinds w a = Some k" "k = K_Buffer"
    using release_buffer_ok [of w a c] that by blast
qed

section \<open>Properties\<close>

text \<open>
  Creating a buffer: whatever the C allocator answers, a request the code can serve or refuse
  returns without undefined behaviour and keeps the reference counts exact. It fails with NULL,
  status FAILURE and an unchanged heap, or succeeds with a new object holding one reference, of the
  requested size and not mapped: a host buffer on the given address and descriptor when the
  descriptor is not -1, else a device buffer that holds one more reference on its device.
\<close>

theorem create_buffer_correct:
  assumes "world_ok w c" and "room w c 2" and "buffer_request_ok w c device host_ptr fd"
  shows "\<exists>r s w'. xrp_create_buffer device sz host_ptr fd w = Some ((r, s), w') \<and> keeps w w' \<and>
    (case r of
       None \<Rightarrow> s = XRP_STATUS_FAILURE \<and> world_ok w' c \<and> dying w' = dying w
     | Some a \<Rightarrow> s = XRP_STATUS_SUCCESS \<and> world_ok w' (add_mset a c) \<and> dying w' = dying w \<and>
         (\<exists>buf. get_buffer a w' = Some buf \<and> buf_size buf = sz \<and> map_count buf = 0 \<and>
            (if fd \<noteq> - 1
             then buf_type buf = XRP_BUFFER_TYPE_HOST \<and> buf_ptr buf = host_ptr \<and> ion_fd buf = fd
             else buf_type buf = XRP_BUFFER_TYPE_DEVICE \<and> buf_device buf = device)))"
  using create_buffer_ok [OF assms, of sz]
  by (fastforce simp: created_def moves_def evolves_def fun_eq_iff split: option.splits)

theorem create_buffer_correct_witness:
  "\<exists>r s w'. xrp_create_buffer (Some 16) 64 0 (- 1) (world_dev env_good) = Some ((r, s), w')"
  using create_buffer_correct [OF world_dev_ok world_dev_room, of env_good "Some 16" 0 "- 1" 64]
    env_good_ion by (auto simp: buffer_request_ok_def)

text \<open>
  C17. Mapping a range of a buffer the client holds: the call succeeds exactly when offset plus
  length, as unbounded numbers, lie within the size; it then returns the address at that offset, adds
  one reference and one mapping and accumulates the access flags. Otherwise it returns NULL and
  FAILURE and nothing changes.
\<close>

theorem map_buffer_correct:
  assumes "world_ok w c" and "b \<in># c" and "room w c 1" and "get_buffer b w = Some buf"
  shows "if unat offset + unat len \<le> unat (buf_size buf)
    then \<exists>w'. xrp_map_buffer b offset len flags w = Some ((buf_ptr buf + offset, XRP_STATUS_SUCCESS), w') \<and>
           world_ok w' (add_mset b c) \<and>
           get_buffer b w' = Some (buf\<lparr>map_count := map_count buf + 1, map_flags := or (map_flags buf) flags\<rparr>)
    else xrp_map_buffer b offset len flags w = Some ((0, XRP_STATUS_FAILURE), w)"
proof (cases "unat offset + unat len \<le> unat (buf_size buf)")
  case True
  with map_buffer_ok [OF assms True, of flags] show ?thesis by (auto simp: moves_def)
next
  case False
  with map_range_iff [of offset "buf_size buf" len] assms(4) show ?thesis
    by (auto simp: xrp_map_buffer_def)
qed

definition world_buf :: world where
  "world_buf = the (map_option snd (xrp_create_buffer None 64 0x2000 9 (world_init env_good)))"

lemma world_buf_eq:
  "world_buf = \<lparr>heap = [16 \<mapsto> \<lparr>ref_count = 1, contents = Buffer (zero_buffer\<lparr>buf_ptr := 0x2000, buf_size := 64, ion_fd := 9\<rparr>)\<rparr>],
     next_addr = 17, env = env_good, ticks = 1, log = []\<rparr>"
  by (simp add: world_buf_def xrp_create_buffer_def alloc_refcounted_def ask_def world_init_def env_good_def
      update_buffer_def get_buffer_def put_def zero_buffer_def)

lemma world_buf_facts:
  "world_ok world_buf {#16#}" "n < 1000 \<Longrightarrow> room world_buf {#16#} n"
  "get_buffer 16 world_buf = Some (zero_buffer\<lparr>buf_ptr := 0x2000, buf_size := 64, ion_fd := 9\<rparr>)"
  by (auto simp: world_buf_eq world_ok_def room_def heap_refs_def owns_def zero_buffer_def get_buffer_def)

theorem map_buffer_correct_witness:
  "\<exists>w'. xrp_map_buffer 16 16 48 XRP_READ_WRITE world_buf = Some ((0x2010, XRP_STATUS_SUCCESS), w') \<and>
     world_ok w' {#16, 16#}"
  using map_buffer_correct [OF world_buf_facts(1) _ world_buf_facts(2,3), of 16 48 XRP_READ_WRITE]
  by (auto simp: zero_buffer_def)

text \<open>
  Mapping and unmapping: unmapping the address that a successful map returned succeeds, whatever
  the position in the buffer, and gives back the client's references, the number of mappings and
  everything else of the buffer except the accumulated flags. (The buffer's memory must not wrap
  around the address space.)
\<close>

theorem map_unmap_roundtrip:
  assumes "world_ok w c" and "b \<in># c" and "room w c 1" and "get_buffer b w = Some buf"
    and "unat (buf_ptr buf) + unat (buf_size buf) < 2 ^ 64"
    and "xrp_map_buffer b offset len flags w = Some ((p, XRP_STATUS_SUCCESS), w1)"
  shows "\<exists>w2. xrp_unmap_buffer b p w1 = Some (XRP_STATUS_SUCCESS, w2) \<and> world_ok w2 c \<and>
           get_buffer b w2 = Some (buf\<lparr>map_flags := or (map_flags buf) flags\<rparr>)"
proof -
  let ?b = "buf\<lparr>map_count := map_count buf + 1, map_flags := or (map_flags buf) flags\<rparr>"
  have r: "offset \<le> buf_size buf \<and> len \<le> buf_size buf - offset"
    using assms(4,6) by (auto simp: xrp_map_buffer_def split: if_splits)
  from map_buffer_ok [OF assms(1-4) r [unfolded map_range_iff], of flags] assms(6)
  have w1: "p = buf_ptr buf + offset" "moves 1 w c w1 (add_mset b c)" "get_buffer b w1 = Some ?b"
    by auto
  have o: "unat offset \<le> unat (buf_size buf)" using r by (simp add: word_le_nat_alt)
  then have "unat (buf_ptr buf + offset) = unat (buf_ptr buf) + unat offset"
    using assms(5) by (subst unat_add_lem [THEN iffD1]) auto
  then have "buf_ptr ?b \<le> p" "p - buf_ptr ?b \<le> buf_size ?b"
    using r w1(1) by (simp_all add: word_le_nat_alt)
  from unmap_buffer_ok [OF moves_ok [OF w1(2)] w1(3) this] assms(2) show ?thesis
    by (auto simp: moves_def)
qed

theorem map_unmap_roundtrip_witness:
  "\<exists>p w1 w2. xrp_map_buffer 16 16 48 XRP_READ world_buf = Some ((p, XRP_STATUS_SUCCESS), w1) \<and>
     xrp_unmap_buffer 16 p w1 = Some (XRP_STATUS_SUCCESS, w2) \<and> world_ok w2 {#16#}"
proof -
  obtain w1 where "xrp_map_buffer 16 16 48 XRP_READ world_buf = Some ((0x2010, XRP_STATUS_SUCCESS), w1)"
    using map_buffer_ok [OF world_buf_facts(1) _ world_buf_facts(2,3), of 16 48 XRP_READ]
    by (auto simp: zero_buffer_def)
  with map_unmap_roundtrip [OF world_buf_facts(1) _ world_buf_facts(2,3) _ this] show ?thesis
    by (auto simp: zero_buffer_def)
qed

text \<open>
  C18. Releasing a device the client holds never faults; while other references remain it only lowers
  the count and closes nothing; the last release closes the handle once, with the call its type asks
  for, and frees the device.
\<close>

theorem release_device_correct:
  assumes "world_ok w (add_mset d c)" and "get_device d w = Some dev"
  shows "\<exists>w'. xrp_release_device d w = Some w' \<and> world_ok w' c \<and>
    (if d \<in># c + heap_refs (heap w)
     then get_device d w' = Some dev \<and> log w' = log w
     else heap w' d = None \<and> log w' = log w @ [close_call dev])"
proof -
  have "kinds w d = Some K_Device"
    using assms(2) by (auto simp: get_device_def kinds_def split: option.splits body.splits)
  from release_device_ok [OF assms(1) this] obtain w' obj where w': "xrp_release_device d w = Some w'"
    "world_ok w' c" "heap w d = Some obj" "contents obj = Device dev"
    "heap w' = (heap w)(d := if ref_count obj = 1 then None
                             else Some (obj\<lparr>ref_count := ref_count obj - 1\<rparr>))"
    "log w' = log w @ (if ref_count obj = 1 then [close_call dev] else [])"
    using assms(2) by (auto simp: moves_def)
  have "unat (ref_count obj) = Suc (count (c + heap_refs (heap w)) d)"
    using world_ok_count [OF assms(1) w'(3)] by simp
  then have "d \<in># c + heap_refs (heap w) \<longleftrightarrow> ref_count obj \<noteq> 1"
    by (metis One_nat_def count_greater_zero_iff nat.inject neq0_conv unat_1 word_unat_eq_iff)
  with w' show ?thesis by auto
qed

theorem release_device_correct_witness:
  "\<exists>w'. xrp_release_device 16 (world_dev env_good) = Some w' \<and> world_ok w' {#} \<and>
     log w' = [Open 0 O_RDONLY, Close 3]"
  using release_device_correct [of "world_dev env_good" 16 "{#}"] world_dev_ok
  by (auto simp: world_dev_refs get_device_def)

text \<open>
  Opening a node in the new mode and releasing the only reference: the heap is as before and the
  environment saw one \<open>open\<close>, read-only for normal and read-write for face-id devices, and one
  \<open>close\<close> of the descriptor it returned.
\<close>

theorem open_close_newmode:
  assumes "world_ok w c" and "xrp_open_device_newmode idx type w = Some ((Some d, s), w1)"
  shows "\<exists>m w2. open_mode_of type = Some m \<and> s = XRP_STATUS_SUCCESS \<and>
    xrp_release_device d w1 = Some w2 \<and> heap w2 = heap w \<and>
    log w2 = log w @ [Open (word_of_int idx) m, Close (open_fd (env w) (ticks w))]"
proof (cases "open_mode_of type")
  case None
  with assms(2) show ?thesis by (simp add: xrp_open_device_newmode_def)
next
  case (Some m)
  have new: "heap w (next_addr w) = None" using assms(1) by (auto simp: world_ok_def)
  show ?thesis using Some assms(2) new
    by (auto simp: xrp_open_device_newmode_def ask_def alloc_refcounted_def put_def xrp_release_device_def
        last_release_refcounted_def xrp_impl_release_device_def get_device_def free_object_def
        zero_device_def fun_eq_iff split: if_splits)
qed

theorem open_close_newmode_witness:
  "\<exists>w1 w2. xrp_open_device_newmode 0 XRP_OPEN_FACEID_TYPE (world_init env_good) =
     Some ((Some 16, XRP_STATUS_SUCCESS), w1) \<and> xrp_release_device 16 w1 = Some w2 \<and>
     log w2 = [Open 0 O_RDWR, Close 3]"
proof -
  obtain w1 where "xrp_open_device_newmode 0 XRP_OPEN_FACEID_TYPE (world_init env_good) =
      Some ((Some 16, XRP_STATUS_SUCCESS), w1)"
    by (simp add: xrp_open_device_newmode_def ask_def alloc_refcounted_def put_def world_init_def env_good_def)
  with open_close_newmode [OF world_init_ok this] show ?thesis
    by (auto simp: world_init_def env_good_def)
qed

lemma impl_create_fails:
  assumes "\<forall>n. ion_mem (env w) n = None" and "xrp_impl_create_device_buffer device a sz w = Some (s, w')"
  shows "s = XRP_STATUS_FAILURE"
proof -
  have "env w1 = env w" if "retain_refcounted d w = Some w1" for d w1
    using that by (auto simp: retain_refcounted_def split: option.splits)
  moreover have "env w2 = env w1" if "update_buffer a f w1 = Some w2" for w1 w2 f
    using that by (auto simp: update_buffer_def put_def bind_eq_Some_conv split: option.splits)
  ultimately show ?thesis using assms
    by (auto simp: xrp_impl_create_device_buffer_def xrp_retain_device_def ask_def bind_eq_Some_conv)
qed

text \<open>
  A failed allocation of device memory is not reported: whenever the ion allocator refuses, the
  code frees the buffer, sets its pointer to NULL and then stores through it.
\<close>

theorem create_buffer_null_deref:
  assumes "malloc_ok (env w) (ticks w)" and "\<forall>n. ion_mem (env w) n = None" and "device = Some d"
  shows "xrp_create_buffer device sz host_ptr (- 1) w = None"
proof -
  let ?w1 = "w\<lparr>ticks := Suc (ticks w),
    heap := (heap w)(next_addr w \<mapsto> \<lparr>ref_count = 1, contents = Buffer zero_buffer\<rparr>),
    next_addr := Suc (next_addr w)\<rparr>"
  let ?upd = "update_buffer (next_addr w) (\<lambda>b. b\<lparr>buf_type := XRP_BUFFER_TYPE_DEVICE\<rparr>) ?w1"
  have alloc: "alloc_refcounted (Buffer zero_buffer) w = (Some (next_addr w), ?w1)"
    using assms(1) by (simp add: alloc_refcounted_def ask_def)
  show ?thesis
  proof (cases ?upd)
    case None
    with alloc assms(3) show ?thesis by (simp add: xrp_create_buffer_def)
  next
    case (Some w2)
    then have "env w2 = env w"
      by (auto simp: update_buffer_def put_def bind_eq_Some_conv split: option.splits)
    with assms(2) have ion: "\<forall>n. ion_mem (env w2) n = None" by simp
    show ?thesis
    proof (cases "xrp_impl_create_device_buffer device (next_addr w) sz w2")
      case None
      with alloc Some assms(3) show ?thesis by (simp add: xrp_create_buffer_def)
    next
      case (Some r)
      then obtain w3 where r: "r = (XRP_STATUS_FAILURE, w3)"
        using impl_create_fails [OF ion] by (cases r) auto
      with alloc Some \<open>?upd = Some w2\<close> assms(3) show ?thesis
        by (cases "free_object (next_addr w) w3") (simp_all add: xrp_create_buffer_def)
    qed
  qed
qed

definition env_no_ion :: environment where
  "env_no_ion = env_good\<lparr>ion_mem := \<lambda>_. None\<rparr>"

theorem create_buffer_null_deref_witness:
  "xrp_create_buffer (Some 16) 64 0 (- 1) (world_dev env_no_ion) = None"
  using create_buffer_null_deref [of "world_dev env_no_ion" "Some 16" 16 64 0]
  by (simp add: env_no_ion_def env_good_def)

text \<open>
  A device buffer of 4 GiB or more is created although the allocator is only asked for the size
  modulo 2^32, and all of the claimed size can be mapped.
\<close>

theorem device_buffer_truncated:
  assumes "world_ok w c" and "room w c 3" and "d \<in># c" and "kinds w d = Some K_Device"
    and "\<forall>n. ion_mem (env w) n \<noteq> None" and "2 ^ 32 \<le> unat sz"
    and "xrp_create_buffer (Some d) sz host_ptr (- 1) w = Some ((Some a, s), w')"
  shows "\<exists>n p w''. log w' = log w @ [Ion_alloc n True] \<and> unat n < unat sz \<and>
    xrp_map_buffer a 0 sz flags w' = Some ((p, XRP_STATUS_SUCCESS), w'')"
proof -
  have "room w c 2" using assms(2) by (simp add: room_def)
  from create_device_buffer [OF assms(1) this _ assms(4,5), of sz host_ptr] assms(3,7)
  obtain buf where w': "moves 2 w c w' (add_mset a c)" "log w' = log w @ [Ion_alloc (ucast sz) True]"
    "get_buffer a w' = Some buf" "buf_size buf = sz" by (auto simp: created_def)
  have "room w' (add_mset a c) 1" using moves_room [OF w'(1), of 1] assms(2) by (simp add: numeral_3_eq_3)
  with map_buffer_ok [OF moves_ok [OF w'(1)] _ this w'(3), of 0 sz flags] w'(4)
  have "\<exists>w''. xrp_map_buffer a 0 sz flags w' = Some ((buf_ptr buf, XRP_STATUS_SUCCESS), w'')" by auto
  moreover have "unat (ucast sz :: u32) < unat sz"
    using assms(6) unat_u32_less [of "ucast sz"] by simp
  ultimately show ?thesis using w'(2) by blast
qed

theorem device_buffer_truncated_witness:
  "\<exists>a s w' n p w''. xrp_create_buffer (Some 16) 0x100000010 0 (- 1) (world_dev env_good) = Some ((Some a, s), w') \<and>
     log w' = [Open 0 O_RDONLY, Ion_alloc n True] \<and> unat n < 0x100000010 \<and>
     xrp_map_buffer a 0 0x100000010 XRP_READ w' = Some ((p, XRP_STATUS_SUCCESS), w'')"
proof -
  obtain a s w' where c: "xrp_create_buffer (Some 16) 0x100000010 0 (- 1) (world_dev env_good) = Some ((Some a, s), w')"
    by (simp add: xrp_create_buffer_def alloc_refcounted_def ask_def xrp_impl_create_device_buffer_def
        xrp_retain_device_def retain_refcounted_def update_buffer_def get_buffer_def put_def env_good_def
        record_call_def)
  have "(2 :: nat) ^ 32 \<le> unat (0x100000010 :: u64)" by simp
  from device_buffer_truncated [OF world_dev_ok world_dev_room _ _ env_good_ion this c, of XRP_READ] c
  show ?thesis by fastforce
qed

end
