(* ===== verification/Buffer_Group.thy ===== *)
theory Buffer_Group
  imports Device_Buffer
begin

text \<open>
  Buffer groups, \<open>xrp_host_common.c\<close>: a growing array of buffer references with access flags. The
  abstract value of a group is the list \<open>group_entries\<close> of its buffers and flags; the operations are
  shown to append to, update and index that list while keeping the reference counts exact. The
  mutex of a group makes each operation atomic, which is how they are modelled.
\<close>

section \<open>Operations\<close>

text \<open>A loop over the elements of an array, or over its indices, whose body may fault.\<close>

primrec for_each :: "('a \<Rightarrow> world \<Rightarrow> world option) \<Rightarrow> 'a list \<Rightarrow> world \<Rightarrow> world option" where
  "for_each f [] w = Some w"
| "for_each f (i # is) w = do { w1 \<leftarrow> f i w; for_each f is w1 }"

definition xrp_create_buffer_group :: "world \<Rightarrow> (ptr \<times> xrp_status) \<times> world" where
  "xrp_create_buffer_group w =
     (case alloc_refcounted (Group zero_group) w of
        (Some grp, w1) \<Rightarrow> ((Some grp, XRP_STATUS_SUCCESS), w1)
      | (None, w1) \<Rightarrow> ((None, XRP_STATUS_FAILURE), w1))"

definition xrp_retain_buffer_group :: "addr \<Rightarrow> world \<Rightarrow> world option" where
  "xrp_retain_buffer_group grp w = retain_refcounted grp w"

definition release_group_slot :: "addr \<Rightarrow> nat \<Rightarrow> world \<Rightarrow> world option" where
  "release_group_slot grp i w = do {
     g \<leftarrow> get_group grp w;
     (b, _) \<leftarrow> slot_get (gbuffer g) i;
     xrp_release_buffer b w
   }"

definition xrp_release_buffer_group :: "addr \<Rightarrow> world \<Rightarrow> world option" where
  "xrp_release_buffer_group grp w = do {
     (last, w1) \<leftarrow> last_release_refcounted grp w;
     (if last then do {
        g \<leftarrow> get_group grp w1;
        w2 \<leftarrow> for_each (release_group_slot grp) [0..<n_buffers g] w1;
        free_object grp w2
      } else Some w1)
   }"

text \<open>The index of the new entry, or \<open>-1\<close> as a \<open>size_t\<close> when the array cannot grow.\<close>

definition xrp_add_buffer_to_group ::
    "addr \<Rightarrow> addr \<Rightarrow> xrp_access_flags \<Rightarrow> world \<Rightarrow> ((u64 \<times> xrp_status) \<times> world) option" where
  "xrp_add_buffer_to_group grp buffer flags w = do {
     g \<leftarrow> get_group grp w;
     let (ok, w1) = (if n_buffers g = capacity g then ask malloc_ok w else (True, w));
     (if \<not> ok then Some ((- 1, XRP_STATUS_FAILURE), w1)
      else do {
        w2 \<leftarrow> (if n_buffers g = capacity g
               then put grp (Group (g\<lparr>gbuffer := slots_realloc ((capacity g + 2) * 2) (gbuffer g),
                                        capacity := (capacity g + 2) * 2\<rparr>)) w1
               else Some w1);
        w3 \<leftarrow> xrp_retain_buffer buffer w2;
        g3 \<leftarrow> get_group grp w3;
        slots \<leftarrow> slot_set (gbuffer g3) (n_buffers g3) (buffer, flags);
        w4 \<leftarrow> put grp (Group (g3\<lparr>gbuffer := slots, n_buffers := n_buffers g3 + 1\<rparr>)) w3;
        Some ((of_nat (n_buffers g3), XRP_STATUS_SUCCESS), w4)
      })
   }"

definition xrp_set_buffer_in_group ::
    "addr \<Rightarrow> nat \<Rightarrow> addr \<Rightarrow> xrp_access_flags \<Rightarrow> world \<Rightarrow> (xrp_status \<times> world) option" where
  "xrp_set_buffer_in_group grp index buffer flags w = do {
     w1 \<leftarrow> xrp_retain_buffer buffer w;
     g \<leftarrow> get_group grp w1;
     (if index < n_buffers g
      then do {
        (old_buffer, _) \<leftarrow> slot_get (gbuffer g) index;
        slots \<leftarrow> slot_set (gbuffer g) index (buffer, flags);
        w2 \<leftarrow> put grp (Group (g\<lparr>gbuffer := slots\<rparr>)) w1;
        w3 \<leftarrow> xrp_release_buffer old_buffer w2;
        Some (XRP_STATUS_SUCCESS, w3)
      }
      else do {
        w3 \<leftarrow> xrp_release_buffer buffer w1;
        Some (XRP_STATUS_FAILURE, w3)
      })
   }"

definition xrp_get_buffer_from_group ::
    "addr \<Rightarrow> nat \<Rightarrow> world \<Rightarrow> ((ptr \<times> xrp_status) \<times> world) option" where
  "xrp_get_buffer_from_group grp idx w = do {
     g \<leftarrow> get_group grp w;
     (if idx < n_buffers g
      then do {
        (b, _) \<leftarrow> slot_get (gbuffer g) idx;
        w1 \<leftarrow> xrp_retain_buffer b w;
        Some ((Some b, XRP_STATUS_SUCCESS), w1)
      }
      else Some ((None, XRP_STATUS_FAILURE), w))
   }"

text \<open>
  \<open>enum xrp_buffer_group_info\<close>, with a constructor for any other value of the C enum, and the values
  copied out: an access flag (4 bytes) or a size (8 bytes).
\<close>

datatype xrp_buffer_group_info =
  XRP_BUFFER_GROUP_BUFFER_FLAGS_ENUM | XRP_BUFFER_GROUP_SIZE_SIZE_T | XRP_BUFFER_GROUP_INFO_INVALID

datatype group_info_value = Flags_out xrp_access_flags | Size_out u64

definition xrp_buffer_group_get_info ::
    "addr \<Rightarrow> xrp_buffer_group_info \<Rightarrow> nat \<Rightarrow> u64 \<Rightarrow> world \<Rightarrow> (group_info_value option \<times> xrp_status) option" where
  "xrp_buffer_group_get_info grp info idx out_sz w = do {
     g \<leftarrow> get_group grp w;
     src \<leftarrow> (case info of
               XRP_BUFFER_GROUP_BUFFER_FLAGS_ENUM \<Rightarrow>
                 if idx \<ge> n_buffers g then Some None
                 else do { (_, f) \<leftarrow> slot_get (gbuffer g) idx; Some (Some (4, Flags_out f)) }
             | XRP_BUFFER_GROUP_SIZE_SIZE_T \<Rightarrow> Some (Some (8, Size_out (of_nat (n_buffers g))))
             | XRP_BUFFER_GROUP_INFO_INVALID \<Rightarrow> Some None);
     Some (case src of
             None \<Rightarrow> (None, XRP_STATUS_FAILURE)
           | Some (sz, v) \<Rightarrow> if sz = out_sz then (Some v, XRP_STATUS_SUCCESS) else (None, XRP_STATUS_FAILURE))
   }"

section \<open>Lemmas\<close>

definition entries :: "addr \<Rightarrow> world \<Rightarrow> (addr \<times> xrp_access_flags) list option" where
  "entries grp w = map_option group_entries (get_group grp w)"

lemma get_groupE:
  assumes "get_group a w = Some g"
  obtains obj where "heap w a = Some obj" and "contents obj = Group g"
  using assms by (auto simp: get_group_def split: option.splits body.splits)

lemma get_group_kind: "get_group a w = Some g \<Longrightarrow> kinds w a = Some K_Group"
  by (auto simp: kinds_def elim: get_groupE)

lemma kind_get_group: "kinds w a = Some K_Group \<Longrightarrow> \<exists>g. get_group a w = Some g"
  by (auto elim: group_kindE)

text \<open>What the invariant says of a group in use.\<close>

lemma group_facts:
  assumes "world_ok w c" and "a \<in># c" and "get_group a w = Some g"
  shows "n_buffers g \<le> capacity g" and "length (gbuffer g) = capacity g"
    and "holds (gbuffer g) (group_entries g)" and "length (group_entries g) = n_buffers g"
    and "\<And>b. b \<in> fst ` set (group_entries g) \<Longrightarrow> kinds w b = Some K_Buffer"
proof -
  obtain obj where h: "heap w a = Some obj" "contents obj = Group g" using assms(3) by (rule get_groupE)
  have "ref_count obj \<noteq> 0" using world_ok_alive [OF assms(1) h(1)] assms(2) by simp
  from world_ok_body [OF assms(1) h(1) this] h(2)
  show "n_buffers g \<le> capacity g" "length (gbuffer g) = capacity g"
    "holds (gbuffer g) (group_entries g)" "length (group_entries g) = n_buffers g"
    "\<And>b. b \<in> fst ` set (group_entries g) \<Longrightarrow> kinds w b = Some K_Buffer" by auto
qed

lemma group_entriesI:
  assumes "holds (gbuffer g) vs" and "length vs = n_buffers g"
  shows "group_entries g = vs"
  using assms by (simp add: group_entries_def holds_def)

lemma group_slot:
  assumes "holds (gbuffer g) (group_entries g)" and "i < length (group_entries g)"
  shows "slot_get (gbuffer g) i = Some (group_entries g ! i)"
  using assms by (rule holds_nth)

lemma update_group_ok:
  assumes ok: "world_ok w c" and a: "a \<in># c" and g: "get_group a w = Some g"
    and g': "n_buffers g' \<le> capacity g'" "length (gbuffer g') = capacity g'"
      "holds (gbuffer g') vs" "length vs = n_buffers g'"
      "\<And>b. b \<in> fst ` set vs \<Longrightarrow> kinds w b = Some K_Buffer"
    and refs: "c' + mset (map fst vs) = c + mset (map fst (group_entries g))"
  shows "\<exists>w'. put a (Group g') w = Some w' \<and> moves 0 w c w' c' \<and> kinds w' = kinds w \<and>
    get_group a w' = Some g' \<and> entries a w' = Some vs \<and> next_addr w' = next_addr w \<and>
    (\<forall>x. x \<noteq> a \<longrightarrow> heap w' x = heap w x) \<and> log w' = log w"
proof -
  obtain obj where h: "heap w a = Some obj" "contents obj = Group g" using g by (rule get_groupE)
  have live: "ref_count obj \<noteq> 0" using world_ok_alive [OF ok h(1)] a by simp
  have vs: "group_entries g' = vs" using g'(3,4) by (rule group_entriesI)
  have body: "body_ok (kinds w) a (Group g')" using g' vs by simp
  have "c' + body_refs (Group g') = c + body_refs (contents obj)" using refs h(2) vs by simp
  from moves_put [OF ok h(1) live this _ body] h(2) obtain w' where
    w': "put a (Group g') w = Some w'" "moves 0 w c w' c'" "kinds w' = kinds w" "log w' = log w"
    "heap w' = (heap w)(a \<mapsto> obj\<lparr>contents := Group g'\<rparr>)" by auto
  then show ?thesis using h vs by (auto simp: put_def entries_def)
qed

lemma create_buffer_group_ok:
  assumes "world_ok w c"
  shows "\<exists>r s w'. xrp_create_buffer_group w = ((r, s), w') \<and> created 1 K_Group w c r s w' \<and>
    log w' = log w \<and> (r = None \<longrightarrow> (\<exists>n. \<not> malloc_ok (env w) n)) \<and>
    (\<forall>a. r = Some a \<longrightarrow> entries a w' = Some [])"
proof (cases rule: alloc_cases [of "Group zero_group" w])
  case fail
  with assms show ?thesis by (auto simp: xrp_create_buffer_group_def created_def moves_refl)
next
  case new
  let ?a = "next_addr w"
  let ?w' = "w\<lparr>ticks := Suc (ticks w), heap := (heap w)(?a \<mapsto> \<lparr>ref_count = 1, contents = Group zero_group\<rparr>),
               next_addr := Suc ?a\<rparr>"
  have z: "group_entries zero_group = []" by (simp add: group_entries_def zero_group_def)
  have "moves 1 w c ?w' (add_mset ?a c)" "kinds ?w' ?a = Some K_Group" "keeps w ?w'"
    using created_new [of w c "Group zero_group" ?w'] assms z by (simp_all add: zero_group_def)
  with new show ?thesis
    by (auto simp: xrp_create_buffer_group_def created_def entries_def get_group_def z)
qed

text \<open>The loop of the last release, on a group that is being torn down.\<close>

lemma release_slots:
  assumes "world_ok w (c + mset (map fst (drop i vs)))" and "i \<le> length vs"
    and "dying w a = Some obj" and "contents obj = Group g" and "holds (gbuffer g) vs"
    and "\<And>b. b \<in> fst ` set (drop i vs) \<Longrightarrow> kinds w b = Some K_Buffer"
  shows "\<exists>w'. for_each (release_group_slot a) [i..<length vs] w = Some w' \<and>
    moves 0 w (c + mset (map fst (drop i vs))) w' c \<and> keeps w w' \<and> quiet w w'"
  using assms
proof (induction "length vs - i" arbitrary: i w)
  case 0
  then have "i = length vs" by simp
  with 0 show ?case by (simp add: moves_refl quiet_same)
next
  case (Suc n)
  then have i: "i < length vs" by simp
  obtain b f where bf: "vs ! i = (b, f)" by force
  have drop: "drop i vs = (b, f) # drop (Suc i) vs" using i bf by (metis Cons_nth_drop_Suc)
  let ?c = "c + mset (map fst (drop (Suc i) vs))"
  have ok: "world_ok w (add_mset b ?c)" using Suc.prems(1) drop by simp
  have kb: "kinds w b = Some K_Buffer" using Suc.prems(6) drop by simp
  obtain w1 where w1: "xrp_release_buffer b w = Some w1" "moves 0 w (add_mset b ?c) w1 ?c" "keeps w w1" "quiet w w1"
    using release_buffer_ok [OF ok kb] by blast
  have "heap w a = Some obj" using Suc.prems(3) by (auto simp: dying_def split: option.splits if_splits)
  then have step: "release_group_slot a i w = Some w1"
    using Suc.prems(4,5) i bf w1(1) by (simp add: release_group_slot_def holds_nth)
  have "kinds w1 x = Some K_Buffer" if "x \<in> fst ` set (drop (Suc i) vs)" for x
  proof -
    have "x \<in># ?c" using that by auto
    then have "kinds w1 x = kinds w x" using moves_kind [OF w1(2) ok] by simp
    moreover have "x \<in> fst ` set (drop i vs)" using that drop by simp
    ultimately show ?thesis using Suc.prems(6) by simp
  qed
  moreover have "dying w1 a = Some obj" using w1(2) Suc.prems(3) by (simp add: moves_def evolves_def)
  moreover have "n = length vs - Suc i" "Suc i \<le> length vs" using Suc.hyps(2) i by simp_all
  ultimately obtain w' where w': "for_each (release_group_slot a) [Suc i..<length vs] w1 = Some w'"
    "moves 0 w1 ?c w' c" "keeps w1 w'" "quiet w1 w'"
    using Suc.hyps(1) [OF _ moves_ok [OF w1(2)] _ _ Suc.prems(4,5)] by blast
  have "[i..<length vs] = i # [Suc i..<length vs]" using i by (rule upt_conv_Cons)
  then show ?case
    using step w'(1) moves_trans [OF w1(2) w'(2)] alters_trans [OF w1(3) w'(3)]
      quiet_trans [OF w1(4) w'(4)] drop by simp
qed

lemma release_group_ok:
  assumes ok: "world_ok w (add_mset a c)" and k: "kinds w a = Some K_Group"
  shows "\<exists>w'. xrp_release_buffer_group a w = Some w' \<and> moves 0 w (add_mset a c) w' c \<and> keeps w w' \<and> quiet w w'"
proof -
  from k obtain obj g where h: "heap w a = Some obj" "contents obj = Group g" by (rule group_kindE)
  from ok h(1) show ?thesis
  proof (cases rule: release_cases)
    case (more w')
    have "keeps w w'" using h(1) more(6) moves_next [OF more(3)] by (rule keeps_count)
    with more show ?thesis by (simp add: xrp_release_buffer_group_def quiet_same)
  next
    case (last w1)
    let ?vs = "group_entries g"
    have g: "get_group a w1 = Some g" and s1: "keeps w w1"
      using last(6,8) h by (auto simp: evolves_def intro: keeps_count)
    have dy: "dying w1 a = Some (obj\<lparr>ref_count := 0\<rparr>)" using last(6) by (simp add: dying_def)
    have "world_ok w1 (c + mset (map fst (drop 0 ?vs)))" using last(3) h(2) by simp
    from release_slots [OF this _ dy, of g] last(5,7) h(2) obtain w2 where
      w2: "for_each (release_group_slot a) [0..<n_buffers g] w1 = Some w2"
      "moves 0 w1 (c + body_refs (contents obj)) w2 c" "keeps w1 w2" "quiet w1 w2" by auto
    from release_finish [OF last(8,9) w2(2) dy last(10)] obtain w' where
      w': "free_object a w2 = Some w'" "moves 0 w (add_mset a c) w' c" "heap w' = (heap w2)(a := None)"
      "log w' = log w2" by blast
    have q: "quiet w w'" using w2(4) last(4) w'(4) by (simp add: quiet_def)
    have "next_addr w2 \<le> next_addr w'" using w'(1) by (auto simp: free_object_def split: if_splits)
    then have "keeps w2 w'" using keeps_free [OF w'(3) _ dying_kept [OF w2(2) dy]] h(2) by simp
    with s1 w2(3) have "keeps w w'" by (blast intro: alters_trans)
    then show ?thesis using last(1) g w2(1) w' q by (simp add: xrp_release_buffer_group_def)
  qed
qed

lemma moves_get_group:
  "heap w' a = heap w a \<Longrightarrow> get_group a w' = get_group a w"
  by (simp add: get_group_def)

lemma retain_other:
  assumes ok: "world_ok w c" and b: "b \<in># c" "kinds w b = Some K_Buffer" and room: "room w c 1"
  shows "\<exists>w'. xrp_retain_buffer b w = Some w' \<and> moves 1 w c w' (add_mset b c) \<and> kinds w' = kinds w \<and>
    (\<forall>x. x \<noteq> b \<longrightarrow> heap w' x = heap w x) \<and> keeps w w' \<and> log w' = log w \<and> ticks w' = ticks w"
proof -
  obtain w' obj where w': "retain_refcounted b w = Some w'" "moves 1 w c w' (add_mset b c)"
    "kinds w' = kinds w" "heap w b = Some obj"
    "heap w' = (heap w)(b \<mapsto> obj\<lparr>ref_count := ref_count obj + 1\<rparr>)" "log w' = log w" "ticks w' = ticks w"
    using moves_retain [OF ok _ room, of b] b(1) by auto
  have "keeps w w'" using keeps_count [OF w'(4,5) moves_next [OF w'(2)]] .
  with w' show ?thesis by (auto simp: xrp_retain_buffer_def)
qed

text \<open>A full array is first grown; the entries stay.\<close>

lemma grow_group_ok:
  fixes g :: xrp_buffer_group
  defines "cap \<equiv> (capacity g + 2) * 2"
  defines "g2 \<equiv> if n_buffers g = capacity g
    then g\<lparr>gbuffer := slots_realloc cap (gbuffer g), capacity := cap\<rparr> else g"
  assumes ok: "world_ok w c" and a: "a \<in># c" "get_group a w = Some g"
  shows "\<exists>w2. (if n_buffers g = capacity g then put a (Group g2) w else Some w) = Some w2 \<and>
    moves 0 w c w2 c \<and> kinds w2 = kinds w \<and> get_group a w2 = Some g2 \<and> alters {a} w w2 \<and> log w2 = log w \<and>
    group_entries g2 = group_entries g \<and> n_buffers g2 = n_buffers g \<and> n_buffers g2 < length (gbuffer g2)"
proof -
  note gf = group_facts [OF ok a]
  have g2: "group_entries g2 = group_entries g" "n_buffers g2 = n_buffers g" "n_buffers g2 < length (gbuffer g2)"
    using gf(1-4) by (auto simp: g2_def cap_def intro!: group_entriesI holds_realloc)
  show ?thesis
  proof (cases "n_buffers g = capacity g")
    case True
    have "holds (slots_realloc cap (gbuffer g)) (group_entries g)"
      using gf(3,4) True by (intro holds_realloc) (simp_all add: cap_def)
    from update_group_ok [OF ok a(1) a(2) _ _ _ _ _, of g2 "group_entries g" c] this gf(1,4,5) True g2 show ?thesis
      by (auto simp: g2_def cap_def alters_def)
  next
    case False
    with ok a g2 show ?thesis by (simp add: g2_def moves_refl)
  qed
qed

text \<open>A retained buffer is put in the next slot of an array that has room.\<close>

lemma store_next_ok:
  assumes ok: "world_ok w (add_mset b c)" and a: "a \<in># c" "get_group a w = Some g"
    and b: "kinds w b = Some K_Buffer" and lt: "n_buffers g < length (gbuffer g)"
  shows "\<exists>w'. put a (Group (g\<lparr>gbuffer := (gbuffer g)[n_buffers g := Some (b, f)],
                                 n_buffers := n_buffers g + 1\<rparr>)) w = Some w' \<and>
    moves 0 w (add_mset b c) w' c \<and> entries a w' = Some (group_entries g @ [(b, f)]) \<and>
    alters {a} w w' \<and> log w' = log w"
proof -
  let ?g = "g\<lparr>gbuffer := (gbuffer g)[n_buffers g := Some (b, f)], n_buffers := n_buffers g + 1\<rparr>"
  let ?vs = "group_entries g @ [(b, f)]"
  note gf = group_facts [OF ok _ a(2)]
  have h: "holds (gbuffer ?g) ?vs"
    using holds_snoc [of "gbuffer g" "group_entries g" "(b, f)"] gf(3,4) lt a(1) by simp
  have k: "kinds w x = Some K_Buffer" if "x \<in> fst ` set ?vs" for x using that gf(5) a(1) b by auto
  show ?thesis
    using update_group_ok [OF ok _ a(2) _ _ h _ k, of c] gf(2,4) lt a(1) by (auto simp: alters_def)
qed

lemma add_buffer_ok:
  assumes ok: "world_ok w c" and a: "a \<in># c" "get_group a w = Some g"
    and b: "b \<in># c" "kinds w b = Some K_Buffer" and room: "room w c 1"
  shows "(n_buffers g = capacity g \<and> \<not> malloc_ok (env w) (ticks w) \<and>
      xrp_add_buffer_to_group a b f w = Some ((- 1, XRP_STATUS_FAILURE), w\<lparr>ticks := Suc (ticks w)\<rparr>)) \<or>
    (\<exists>w'. xrp_add_buffer_to_group a b f w = Some ((of_nat (n_buffers g), XRP_STATUS_SUCCESS), w') \<and>
      moves 1 w c w' c \<and> entries a w' = Some (group_entries g @ [(b, f)]) \<and> alters {a} w w' \<and> log w' = log w)"
proof (cases "n_buffers g = capacity g \<and> \<not> malloc_ok (env w) (ticks w)")
  case True
  with a(2) show ?thesis by (simp add: xrp_add_buffer_to_group_def ask_def)
next
  case False
  let ?full = "n_buffers g = capacity g" let ?cap = "(capacity g + 2) * 2"
  let ?g2 = "if ?full then g\<lparr>gbuffer := slots_realloc ?cap (gbuffer g), capacity := ?cap\<rparr> else g"
  define w1 where "w1 = (if ?full then w\<lparr>ticks := Suc (ticks w)\<rparr> else w)"
  have w1: "(if ?full then ask malloc_ok w else (True, w)) = (True, w1)"
    using False by (auto simp: w1_def ask_def)
  have ok1: "world_ok w1 c" and g1: "get_group a w1 = Some g" and m1: "moves 0 w c w1 c"
    and k1: "kinds w1 = kinds w" and al1: "alters {a} w w1" and l1: "log w1 = log w"
    using ok a(2) by (auto simp: w1_def get_group_def moves_refl alters_def)
  obtain w2 where w2: "(if ?full then put a (Group ?g2) w1 else Some w1) = Some w2" "moves 0 w1 c w2 c"
    "kinds w2 = kinds w1" "get_group a w2 = Some ?g2" "alters {a} w1 w2" "log w2 = log w1"
    and vs2: "group_entries ?g2 = group_entries g" "n_buffers ?g2 = n_buffers g"
      "n_buffers ?g2 < length (gbuffer ?g2)"
    using grow_group_ok [OF ok1 a(1) g1] by blast
  have m2: "moves 0 w c w2 c" using moves_trans [OF m1 w2(2)] by simp
  have "room w2 c 1" using moves_room [OF m2, of 1] room by simp
  then obtain w3 where w3: "xrp_retain_buffer b w2 = Some w3" "moves 1 w2 c w3 (add_mset b c)"
    "kinds w3 = kinds w2" "\<forall>x. x \<noteq> b \<longrightarrow> heap w3 x = heap w2 x" "keeps w2 w3" "log w3 = log w2"
    using retain_other [OF moves_ok [OF m2] b(1)] b(2) w2(3) k1 by auto
  have "a \<noteq> b" using get_group_kind [OF a(2)] b(2) by auto
  then have g3: "get_group a w3 = Some ?g2" using w3(4) w2(4) moves_get_group [of w3 a w2] by simp
  have "kinds w3 b = Some K_Buffer" using b(2) w3(3) w2(3) k1 by simp
  then obtain w4 where w4: "put a (Group (?g2\<lparr>gbuffer := (gbuffer ?g2)[n_buffers ?g2 := Some (b, f)],
      n_buffers := n_buffers ?g2 + 1\<rparr>)) w3 = Some w4" "moves 0 w3 (add_mset b c) w4 c"
    "entries a w4 = Some (group_entries ?g2 @ [(b, f)])" "alters {a} w3 w4" "log w4 = log w3"
    using store_next_ok [OF moves_ok [OF w3(2)] a(1) g3 _ vs2(3)] by blast
  have "xrp_add_buffer_to_group a b f w = Some ((of_nat (n_buffers g), XRP_STATUS_SUCCESS), w4)"
    using a(2) w1 w2(1) w3(1) g3 w4(1) vs2
    by (simp add: xrp_add_buffer_to_group_def slot_set_def Let_def split del: if_split cong: if_cong)
  moreover have "moves 1 w c w4 c" using moves_trans [OF m2 moves_trans [OF w3(2) w4(2)]] by simp
  moreover have "alters {a} w w4"
    using alters_trans [OF al1 w2(5)] alters_mono [OF w3(5), of "{a}"] w4(4) by (meson alters_trans empty_subsetI)
  ultimately show ?thesis using w4(3,5) vs2(1) w3(6) w2(6) l1 by simp
qed

text \<open>What a call leaves alone keeps its contents, as long as somebody has a reference to it.\<close>

lemma buffer_kept:
  assumes "alters A w w'" and "x \<notin> A" and "world_ok w c" and "world_ok w' c'" and "x \<in># c' + heap_refs (heap w')"
    and "get_buffer x w = Some buf"
  shows "get_buffer x w' = Some buf"
proof -
  obtain obj where h: "heap w x = Some obj" "contents obj = Buffer buf" using assms(6) by (rule get_bufferE)
  obtain obj' where h': "heap w' x = Some obj'" using world_ok_dom [OF assms(4,5)] by blast
  have "x < next_addr w" using world_ok_next [OF assms(3)] h(1) by blast
  from alters_contents [OF assms(1,2) h(1) this h'] h h' show ?thesis by (simp add: get_buffer_def)
qed

lemma group_kept:
  assumes "alters A w w'" and "g \<notin> A" and "world_ok w c" and "world_ok w' c'" and "g \<in># c'"
    and "entries g w = Some vs"
  shows "entries g w' = Some vs"
proof -
  obtain gr where g: "get_group g w = Some gr" "group_entries gr = vs" using assms(6) by (auto simp: entries_def)
  obtain obj where h: "heap w g = Some obj" "contents obj = Group gr" using g(1) by (rule get_groupE)
  obtain obj' where h': "heap w' g = Some obj'" using world_ok_client [OF assms(4,5)] by blast
  have "g < next_addr w" using world_ok_next [OF assms(3)] h(1) by blast
  from alters_contents [OF assms(1,2) h(1) this h'] h h' g(2) show ?thesis by (simp add: entries_def get_group_def)
qed

lemma entries_kept:
  "keeps w w' \<Longrightarrow> world_ok w c \<Longrightarrow> world_ok w' c' \<Longrightarrow> a \<in># c' \<Longrightarrow> entries a w = Some vs \<Longrightarrow> entries a w' = Some vs"
  using group_kept [of "{}"] by blast

text \<open>Within the range, the retained buffer takes the slot and the one it replaces is released.\<close>

lemma replace_slot_ok:
  assumes ok: "world_ok w (add_mset b c)" and a: "a \<in># c" "get_group a w = Some g"
    and b: "kinds w b = Some K_Buffer" and i: "i < n_buffers g"
  shows "\<exists>old fo w1 w2. slot_get (gbuffer g) i = Some (old, fo) \<and>
    put a (Group (g\<lparr>gbuffer := (gbuffer g)[i := Some (b, f)]\<rparr>)) w = Some w1 \<and>
    xrp_release_buffer old w1 = Some w2 \<and> moves 0 w (add_mset b c) w2 c \<and> alters {a} w w2 \<and>
    entries a w2 = Some ((group_entries g)[i := (b, f)])"
proof -
  let ?vs = "group_entries g"
  let ?g = "g\<lparr>gbuffer := (gbuffer g)[i := Some (b, f)]\<rparr>" and ?vs' = "?vs[i := (b, f)]"
  note gf = group_facts [OF ok _ a(2)]
  obtain old fo where old: "?vs ! i = (old, fo)" by force
  have len: "i < length ?vs" using i gf(4) a(1) by simp
  have h: "holds (gbuffer ?g) ?vs'" using gf(3) len a(1) by (simp add: holds_update)
  have kb: "kinds w x = Some K_Buffer" if "x \<in> fst ` set ?vs'" for x
    using that set_update_subset_insert [of ?vs i "(b, f)"] gf(5) a(1) b by fastforce
  have "old \<in># mset (map fst ?vs)" using len old nth_mem [OF len] by force
  moreover have "mset (map fst ?vs') = add_mset b (mset (map fst ?vs) - {#old#})"
    using len old by (simp add: map_update mset_update)
  ultimately have refs: "add_mset old c + mset (map fst ?vs') = add_mset b c + mset (map fst ?vs)"
    by (metis (no_types, lifting) add_mset_add_single add_mset_commute insert_DiffM union_mset_add_mset_left
        union_mset_add_mset_right)
  obtain w1 where w1: "put a (Group ?g) w = Some w1" "moves 0 w (add_mset b c) w1 (add_mset old c)"
    "kinds w1 = kinds w" "entries a w1 = Some ?vs'" "alters {a} w w1"
    using update_group_ok [OF ok _ a(2) _ _ h _ kb refs] gf a(1) by (auto simp: alters_def)
  note ok1 = moves_ok [OF w1(2)]
  have "kinds w1 old = Some K_Buffer" using gf(5) [of old] a(1) \<open>old \<in># mset (map fst ?vs)\<close> w1(3) by auto
  then obtain w2 where w2: "xrp_release_buffer old w1 = Some w2" "moves 0 w1 (add_mset old c) w2 c" "keeps w1 w2"
    using release_buffer_ok [OF ok1] by blast
  have "slot_get (gbuffer g) i = Some (old, fo)" using group_slot [OF gf(3) len] a(1) old by simp
  moreover have "entries a w2 = Some ?vs'"
    using entries_kept [OF w2(3) ok1 moves_ok [OF w2(2)] a(1) w1(4)] a(1) by simp
  moreover have "alters {a} w w2" using w1(5) w2(3) by (meson alters_trans alters_mono empty_subsetI)
  ultimately show ?thesis using w1(1) w2(1) moves_trans [OF w1(2) w2(2)] by auto
qed

lemma set_buffer_ok:
  assumes ok: "world_ok w c" and a: "a \<in># c" "get_group a w = Some g"
    and b: "b \<in># c" "kinds w b = Some K_Buffer" and room: "room w c 1"
  shows "\<exists>s w'. xrp_set_buffer_in_group a i b f w = Some (s, w') \<and> moves 1 w c w' c \<and> alters {a} w w' \<and>
    (if i < n_buffers g
     then s = XRP_STATUS_SUCCESS \<and> entries a w' = Some ((group_entries g)[i := (b, f)])
     else s = XRP_STATUS_FAILURE \<and> entries a w' = Some (group_entries g))"
proof -
  obtain w1 where w1: "xrp_retain_buffer b w = Some w1" "moves 1 w c w1 (add_mset b c)"
    "kinds w1 = kinds w" "\<forall>x. x \<noteq> b \<longrightarrow> heap w1 x = heap w x" "keeps w w1"
    using retain_other [OF ok b room] by blast
  note ok1 = moves_ok [OF w1(2)]
  have "a \<noteq> b" using get_group_kind [OF a(2)] b(2) by auto
  then have g1: "get_group a w1 = Some g" using w1(4) a(2) moves_get_group [of w1 a w] by simp
  note gf = group_facts [OF ok1 _ g1]
  have b1: "kinds w1 b = Some K_Buffer" using b(2) w1(3) by simp
  show ?thesis
  proof (cases "i < n_buffers g")
    case True
    obtain old fo w2 w3 where w3: "slot_get (gbuffer g) i = Some (old, fo)"
      "put a (Group (g\<lparr>gbuffer := (gbuffer g)[i := Some (b, f)]\<rparr>)) w1 = Some w2"
      "xrp_release_buffer old w2 = Some w3" "moves 0 w1 (add_mset b c) w3 c" "alters {a} w1 w3"
      "entries a w3 = Some ((group_entries g)[i := (b, f)])"
      using replace_slot_ok [OF ok1 a(1) g1 b1 True] by blast
    then have "xrp_set_buffer_in_group a i b f w = Some (XRP_STATUS_SUCCESS, w3)"
      using True w1(1) g1 gf(1,2) a(1) by (simp add: xrp_set_buffer_in_group_def slot_set_def)
    moreover have "alters {a} w w3" using w1(5) w3(5) by (meson alters_trans alters_mono empty_subsetI)
    ultimately show ?thesis using True w3(6) moves_trans [OF w1(2) w3(4)] by auto
  next
    case False
    obtain w3 where w3: "xrp_release_buffer b w1 = Some w3" "moves 0 w1 (add_mset b c) w3 c" "keeps w1 w3"
      using release_buffer_ok [OF ok1 b1] by blast
    have "entries a w1 = Some (group_entries g)" using g1 by (simp add: entries_def)
    then have "entries a w3 = Some (group_entries g)"
      using entries_kept [OF w3(3) ok1 moves_ok [OF w3(2)] a(1)] a(1) by simp
    moreover have "alters {a} w w3" using w1(5) w3(3) by (meson alters_trans alters_mono empty_subsetI)
    moreover have "xrp_set_buffer_in_group a i b f w = Some (XRP_STATUS_FAILURE, w3)"
      using False w1(1) g1 w3(1) by (simp add: xrp_set_buffer_in_group_def)
    ultimately show ?thesis using False moves_trans [OF w1(2) w3(2)] by auto
  qed
qed

lemma get_buffer_ok:
  assumes ok: "world_ok w c" and a: "a \<in># c" "get_group a w = Some g" and room: "room w c 1"
  shows "if i < n_buffers g
    then \<exists>w'. xrp_get_buffer_from_group a i w =
                Some ((Some (fst (group_entries g ! i)), XRP_STATUS_SUCCESS), w') \<and>
           moves 1 w c w' (add_mset (fst (group_entries g ! i)) c) \<and>
           kinds w' (fst (group_entries g ! i)) = Some K_Buffer \<and> keeps w w'
    else xrp_get_buffer_from_group a i w = Some ((None, XRP_STATUS_FAILURE), w)"
proof (cases "i < n_buffers g")
  case True
  note gf = group_facts [OF ok a]
  obtain b f where bf: "group_entries g ! i = (b, f)" by force
  have len: "i < length (group_entries g)" using True gf(4) by simp
  then have mem: "b \<in> fst ` set (group_entries g)" using bf nth_mem [OF len] by force
  obtain obj where h: "heap w a = Some obj" "contents obj = Group g" using a(2) by (rule get_groupE)
  have "ref_count obj \<noteq> 0" using world_ok_alive [OF ok h(1)] a(1) by simp
  then have "b \<in># heap_refs (heap w)"
    using in_heap_refs [of "heap w" a obj b] ok h mem by (auto simp: world_ok_def owns_def)
  then obtain w' obj' where w': "retain_refcounted b w = Some w'" "moves 1 w c w' (add_mset b c)"
    "kinds w' = kinds w" "heap w b = Some obj'"
    "heap w' = (heap w)(b \<mapsto> obj'\<lparr>ref_count := ref_count obj' + 1\<rparr>)"
    using moves_retain [OF ok _ room, of b] by auto
  have "keeps w w'" using keeps_count [OF w'(4,5) moves_next [OF w'(2)]] .
  moreover have "xrp_get_buffer_from_group a i w = Some ((Some b, XRP_STATUS_SUCCESS), w')"
    using True a(2) group_slot [OF gf(3) len] bf w'(1)
    by (simp add: xrp_get_buffer_from_group_def xrp_retain_buffer_def)
  ultimately show ?thesis using True w'(2,3) gf(5) [OF mem] bf by simp
qed (use a in \<open>simp add: xrp_get_buffer_from_group_def\<close>)

interpretation group_refs: refcounted xrp_retain_buffer_group xrp_release_buffer_group "\<lambda>k. k = K_Group" 0
proof
  fix w c a k
  show "\<exists>w'. xrp_retain_buffer_group a w = Some w' \<and> moves 1 w c w' (add_mset a c) \<and> keeps w w'"
    if "world_ok w c" "a \<in># c" "room w c 1"
    using retain_keeps [OF that] by (simp add: xrp_retain_buffer_group_def)
  show "\<exists>w'. xrp_release_buffer_group a w = Some w' \<and> moves 0 w (add_mset a c) w' c \<and> keeps w w'"
    if "world_ok w (add_mset a c)" "kinds w a = Some k" "k = K_Group"
    using release_group_ok [of w a c] that by blast
qed

section \<open>Properties\<close>

text \<open>
  C19. Adding a buffer to a group: if the array is full and cannot grow, the call returns \<open>-1\<close> and
  FAILURE and the heap is unchanged. Otherwise it appends the buffer with its flags to the abstract
  list of the group, returns its index, takes one reference on the buffer, and alters no other
  object. In particular growing the array loses no entry and never writes past its end.
\<close>

theorem group_add_correct:
  assumes "world_ok w c" and "a \<in># c" and "entries a w = Some vs" and "b \<in># c" and "get_buffer b w = Some buf"
    and "room w c 1"
  shows "\<exists>r s w'. xrp_add_buffer_to_group a b f w = Some ((r, s), w') \<and> world_ok w' c \<and> dying w' = dying w \<and>
    alters {a} w w' \<and>
    (if s = XRP_STATUS_SUCCESS then r = of_nat (length vs) \<and> entries a w' = Some (vs @ [(b, f)])
     else s = XRP_STATUS_FAILURE \<and> r = - 1 \<and> heap w' = heap w)"
proof -
  obtain g where g: "get_group a w = Some g" "vs = group_entries g" using assms(3) by (auto simp: entries_def)
  have kb: "kinds w b = Some K_Buffer" using assms(5) by (auto simp: kinds_def elim: get_bufferE)
  have "length vs = n_buffers g" using group_facts(4) [OF assms(1,2) g(1)] g(2) by simp
  with add_buffer_ok [OF assms(1,2) g(1) assms(4) kb assms(6), of f] g(2) assms(1) show ?thesis
    by (fastforce simp: moves_def evolves_def alters_def fun_eq_iff)
qed

text \<open>
  Replacing an entry: an index in range gets the new buffer and flags, one reference is taken on
  the new buffer and the one on the old buffer is dropped (also when it is the same buffer); an index
  out of range changes no entry and no reference and reports FAILURE.
\<close>

theorem group_set_correct:
  assumes "world_ok w c" and "a \<in># c" and "entries a w = Some vs" and "b \<in># c" and "get_buffer b w = Some buf"
    and "room w c 1"
  shows "\<exists>s w'. xrp_set_buffer_in_group a i b f w = Some (s, w') \<and> world_ok w' c \<and> dying w' = dying w \<and>
    alters {a} w w' \<and>
    (if i < length vs then s = XRP_STATUS_SUCCESS \<and> entries a w' = Some (vs[i := (b, f)])
     else s = XRP_STATUS_FAILURE \<and> entries a w' = Some vs)"
proof -
  obtain g where g: "get_group a w = Some g" "vs = group_entries g" using assms(3) by (auto simp: entries_def)
  have kb: "kinds w b = Some K_Buffer" using assms(5) by (auto simp: kinds_def elim: get_bufferE)
  have "length vs = n_buffers g" using group_facts(4) [OF assms(1,2) g(1)] g(2) by simp
  with set_buffer_ok [OF assms(1,2) g(1) assms(4) kb assms(6), of i f] g(2) show ?thesis
    by (cases "i < length vs") (auto simp: moves_def evolves_def fun_eq_iff)
qed

text \<open>
  Reading a group back: the buffer at an index in range is returned with one more reference for
  the caller, and the flags query returns its flags; out of range both fail without effect; the size
  query returns the number of entries.
\<close>

theorem group_get_correct:
  assumes "world_ok w c" and "a \<in># c" and "entries a w = Some vs" and "room w c 1"
  shows "(if i < length vs
      then (\<exists>w'. xrp_get_buffer_from_group a i w = Some ((Some (fst (vs ! i)), XRP_STATUS_SUCCESS), w') \<and>
             world_ok w' (add_mset (fst (vs ! i)) c) \<and> keeps w w') \<and>
           xrp_buffer_group_get_info a XRP_BUFFER_GROUP_BUFFER_FLAGS_ENUM i 4 w =
             Some (Some (Flags_out (snd (vs ! i))), XRP_STATUS_SUCCESS)
      else xrp_get_buffer_from_group a i w = Some ((None, XRP_STATUS_FAILURE), w) \<and>
           xrp_buffer_group_get_info a XRP_BUFFER_GROUP_BUFFER_FLAGS_ENUM i 4 w =
             Some (None, XRP_STATUS_FAILURE)) \<and>
    xrp_buffer_group_get_info a XRP_BUFFER_GROUP_SIZE_SIZE_T i 8 w =
      Some (Some (Size_out (of_nat (length vs))), XRP_STATUS_SUCCESS)"
proof -
  obtain g where g: "get_group a w = Some g" "vs = group_entries g" using assms(3) by (auto simp: entries_def)
  note gf = group_facts [OF assms(1,2) g(1)]
  show ?thesis
    using get_buffer_ok [OF assms(1,2) g(1) assms(4), of i] gf(4) group_slot [OF gf(3), of i] g
    by (cases "vs ! i") (auto simp: moves_def xrp_buffer_group_get_info_def)
qed

text \<open>A client with one buffer and an empty group, for the examples.\<close>

definition world_grp :: world where
  "world_grp = \<lparr>heap =
      [16 \<mapsto> \<lparr>ref_count = 1, contents = Buffer (zero_buffer\<lparr>buf_ptr := 0x2000, buf_size := 64, ion_fd := 9\<rparr>)\<rparr>,
       17 \<mapsto> \<lparr>ref_count = 1, contents = Group zero_group\<rparr>],
     next_addr = 18, env = env_good, ticks = 2, log = []\<rparr>"

lemma world_grp_reached: "xrp_create_buffer_group world_buf = ((Some 17, XRP_STATUS_SUCCESS), world_grp)"
  by (simp add: world_buf_eq world_grp_def xrp_create_buffer_group_def alloc_refcounted_def ask_def
      env_good_def fun_upd_twist)

lemma world_grp_facts:
  "world_ok world_grp {#17, 16#}" "n < 1000 \<Longrightarrow> room world_grp {#17, 16#} n"
  "entries 17 world_grp = Some []" "\<exists>buf. get_buffer 16 world_grp = Some buf"
proof -
  have m: "moves 1 world_buf {#16#} world_grp {#17, 16#}"
    and e: "entries 17 world_grp = Some []"
    using create_buffer_group_ok [OF world_buf_facts(1)] world_grp_reached by (auto simp: created_def)
  show "world_ok world_grp {#17, 16#}" using m by (rule moves_ok)
  show "room world_grp {#17, 16#} n" if "n < 1000"
    by (rule moves_room [OF m]) (use that in \<open>simp add: world_buf_eq room_def heap_refs_def owns_def zero_buffer_def\<close>)
  show "entries 17 world_grp = Some []" by (rule e)
  show "\<exists>buf. get_buffer 16 world_grp = Some buf" by (simp add: world_grp_def get_buffer_def)
qed

theorem group_add_correct_witness:
  "\<exists>r s w'. xrp_add_buffer_to_group 17 16 XRP_WRITE world_grp = Some ((r, s), w') \<and> world_ok w' {#17, 16#}"
  using group_add_correct [OF world_grp_facts(1) _ world_grp_facts(3), of 16 _ XRP_WRITE] world_grp_facts(2,4)
  by fastforce

theorem group_set_correct_witness:
  "\<exists>w'. xrp_set_buffer_in_group 17 3 16 XRP_WRITE world_grp = Some (XRP_STATUS_FAILURE, w') \<and> world_ok w' {#17, 16#}"
  using group_set_correct [OF world_grp_facts(1) _ world_grp_facts(3), of 16 _ 3 XRP_WRITE] world_grp_facts(2,4)
  by auto

theorem group_get_correct_witness:
  "xrp_get_buffer_from_group 17 0 world_grp = Some ((None, XRP_STATUS_FAILURE), world_grp)"
  using group_get_correct [OF world_grp_facts(1) _ world_grp_facts(3), of 0] world_grp_facts(2) by auto

end
