(* ===== verification/Direct_Command.thy ===== *)
theory Direct_Command
  imports Buffer_Group
begin

text \<open>
  Sending a command to the driver: \<open>xrp_run_command_directly\<close> and
  \<open>xrp_run_faceid_command_directly\<close> of \<open>xrp_linux.c\<close>, and \<open>sprd_vdsp_send_command_directly\<close> of
  \<open>vdsp_interface_internal.c\<close>, which wraps the caller's buffers into a group around one ioctl.
\<close>

section \<open>Data\<close>

datatype sprd_vdsp_bufflag =
  SPRD_VDSP_XRP_READ | SPRD_VDSP_XRP_WRITE | SPRD_VDSP_XRP_READ_WRITE | SPRD_VDSP_XRP_ACCESS_MAX

datatype sprd_vdsp_status = SPRD_XRP_STATUS_SUCCESS | SPRD_XRP_STATUS_FAILURE | SPRD_XRP_STATUS_PENDING

text \<open>
  \<open>struct sprd_vdsp_inout\<close>. Its address field is a plain address for buffers and a host pointer for
  input and output, hence the type parameter.
\<close>

record 'p sprd_vdsp_inout =
  io_fd :: int
  vir_addr :: 'p
  phy_addr :: u32
  io_size :: u32
  io_flag :: sprd_vdsp_bufflag

text \<open>The two functions called \<open>translate_access_flag\<close>: to the interface's flags, and back.\<close>

definition translate_access_flag :: "xrp_access_flags \<Rightarrow> sprd_vdsp_bufflag" where
  "translate_access_flag flag =
     (if flag = XRP_READ then SPRD_VDSP_XRP_READ
      else if flag = XRP_WRITE then SPRD_VDSP_XRP_WRITE
      else if flag = XRP_READ_WRITE then SPRD_VDSP_XRP_READ_WRITE
      else SPRD_VDSP_XRP_ACCESS_MAX)"

fun translate_bufflag :: "sprd_vdsp_bufflag \<Rightarrow> xrp_access_flags" where
  "translate_bufflag SPRD_VDSP_XRP_READ = XRP_READ"
| "translate_bufflag SPRD_VDSP_XRP_WRITE = XRP_WRITE"
| "translate_bufflag SPRD_VDSP_XRP_READ_WRITE = XRP_READ_WRITE"
| "translate_bufflag SPRD_VDSP_XRP_ACCESS_MAX = XRP_READ"

section \<open>The ioctls\<close>

definition XRP_QUEUE_FLAG_NSID :: u32 where "XRP_QUEUE_FLAG_NSID = 0x4"
definition XRP_QUEUE_FLAG_PRIO :: u32 where "XRP_QUEUE_FLAG_PRIO = 0xff00"

definition XRP_QUEUE_VALID_FLAGS :: u32 where
  "XRP_QUEUE_VALID_FLAGS = or XRP_QUEUE_FLAG_NSID XRP_QUEUE_FLAG_PRIO"

definition queue_flags :: "bool \<Rightarrow> u32 \<Rightarrow> u32" where
  "queue_flags ns priority =
     or (if ns then XRP_QUEUE_FLAG_NSID else 0) (and (push_bit 8 priority) XRP_QUEUE_FLAG_PRIO)"

definition ioctl_buffer :: "addr \<Rightarrow> nat \<Rightarrow> world \<Rightarrow> xrp_ioctl_buffer option" where
  "ioctl_buffer grp i w = do {
     g \<leftarrow> get_group grp w;
     (b, flags) \<leftarrow> slot_get (gbuffer g) i;
     buf \<leftarrow> get_buffer b w;
     Some \<lparr>ib_flags = flags, ib_size = ucast (buf_size buf), ib_addr = buf_ptr buf, ib_fd = ion_fd buf\<rparr>
   }"

text \<open>A \<open>struct xrp_ioctl_buffer\<close> takes 24 bytes.\<close>

definition xrp_run_command_directly ::
    "addr \<Rightarrow> bytes \<Rightarrow> u32 \<Rightarrow> hptr \<Rightarrow> int \<Rightarrow> u64 \<Rightarrow> hptr \<Rightarrow> int \<Rightarrow> u64 \<Rightarrow> ptr \<Rightarrow> world \<Rightarrow>
     (xrp_status \<times> world) option" where
  "xrp_run_command_directly device ns priority in_data in_fd in_size out_data out_fd out_size grp w = do {
     bufs \<leftarrow> (case grp of
                None \<Rightarrow> Some []
              | Some a \<Rightarrow> do { g \<leftarrow> get_group a w; those (map (\<lambda>i. ioctl_buffer a i w) [0..<n_buffers g]) });
     d \<leftarrow> get_device device w;
     let q = \<lparr>iq_flags = queue_flags True priority, iq_in_data_size = ucast in_size,
              iq_out_data_size = ucast out_size, iq_buffer_size = of_nat (length bufs * 24),
              iq_in_data_addr = in_data, iq_in_data_fd = in_fd, iq_out_data_addr = out_data,
              iq_out_data_fd = out_fd, iq_buffers = bufs, iq_nsid = ns\<rparr>;
     let (ret, w1) = ask ioctl_ret (record_call (Ioctl_queue (dev_fd d) q) w);
     Some (if ret < 0 then XRP_STATUS_FAILURE else XRP_STATUS_SUCCESS, w1)
   }"

definition xrp_run_faceid_command_directly ::
    "addr \<Rightarrow> int \<Rightarrow> int \<Rightarrow> world \<Rightarrow> (xrp_status \<times> world) option" where
  "xrp_run_faceid_command_directly device in_fd out_fd w = do {
     d \<leftarrow> get_device device w;
     let (ret, w1) = ask ioctl_ret (record_call (Ioctl_faceid (dev_fd d) (word_of_int in_fd) (word_of_int out_fd)) w);
     Some (if ret < 0 then XRP_STATUS_FAILURE else XRP_STATUS_SUCCESS, w1)
   }"

section \<open>Building the group\<close>

text \<open>
  The loop shared by the senders: create a buffer for each descriptor and add it to the group. The
  result says whether it ran to the end and lists the entries of the \<open>buf\<close> array that the cleanup
  loops will release: on failure at \<open>i\<close> those before \<open>i\<close>.
\<close>

primrec add_buffers :: "addr \<Rightarrow> addr \<Rightarrow> (u64 sprd_vdsp_inout \<Rightarrow> xrp_access_flags) \<Rightarrow>
    u64 sprd_vdsp_inout list \<Rightarrow> addr list \<Rightarrow> world \<Rightarrow> ((bool \<times> addr list) \<times> world) option" where
  "add_buffers device grp flag_of [] bufs w = Some ((True, bufs), w)"
| "add_buffers device grp flag_of (x # xs) bufs w = do {
     ((buf, s), w1) \<leftarrow> xrp_create_buffer (Some device) (ucast (io_size x)) (vir_addr x) (io_fd x) w;
     (if s \<noteq> XRP_STATUS_SUCCESS then Some ((False, bufs), w1)
      else do {
        b \<leftarrow> buf;
        ((_, s2), w2) \<leftarrow> xrp_add_buffer_to_group grp b (flag_of x) w1;
        (if s2 \<noteq> XRP_STATUS_SUCCESS then Some ((False, bufs), w2)
         else add_buffers device grp flag_of xs (bufs @ [b]) w2)
      })
   }"

definition release_group_and_buffers :: "addr \<Rightarrow> addr list \<Rightarrow> world \<Rightarrow> world option" where
  "release_group_and_buffers grp bufs w = do {
     w1 \<leftarrow> xrp_release_buffer_group grp w;
     for_each xrp_release_buffer bufs w1
   }"

section \<open>sprd_vdsp_send_command_directly\<close>

text \<open>The bytes of \<open>FACEID_NSID\<close>, "faceid_fw".\<close>

definition FACEID_NSID :: bytes where
  "FACEID_NSID = [0x66, 0x61, 0x63, 0x65, 0x69, 0x64, 0x5f, 0x66, 0x77]"

definition inout_args :: "hptr sprd_vdsp_inout option \<Rightarrow> hptr \<times> int \<times> u32" where
  "inout_args p = (case p of None \<Rightarrow> (H_Null, - 1, 0) | Some x \<Rightarrow> (vir_addr x, io_fd x, io_size x))"

text \<open>
  The namespace is copied into a cleared array of 32 bytes with \<open>strncpy(ns_id, nsid, strlen(nsid))\<close>.
\<close>

definition copy_nsid :: "bytes \<Rightarrow> bytes option" where
  "copy_nsid ns = do { n \<leftarrow> c_strlen ns; memcpy_at (replicate 32 0) 0 ns n }"

text \<open>Once the group exists: the loop, the ioctl, and the cleanup.\<close>

definition send_group :: "addr \<Rightarrow> bytes \<Rightarrow> hptr \<times> int \<times> u32 \<Rightarrow> hptr \<times> int \<times> u32 \<Rightarrow> u64 sprd_vdsp_inout list \<Rightarrow>
    u32 \<Rightarrow> addr \<Rightarrow> world \<Rightarrow> (sprd_vdsp_status \<times> world) option" where
  "send_group device ns_id input outp xs priority grp w = do {
     let (input_vir, inputfd, inputsize) = input;
     let (output_vir, outputfd, outputsize) = outp;
     ((all, bufs), w2) \<leftarrow> add_buffers device grp (translate_bufflag \<circ> io_flag) xs [] w;
     (if \<not> all
      then do { w3 \<leftarrow> release_group_and_buffers grp bufs w2; Some (SPRD_XRP_STATUS_FAILURE, w3) }
      else do {
        (s, w3) \<leftarrow> xrp_run_command_directly device ns_id priority input_vir inputfd (ucast inputsize)
                     output_vir outputfd (ucast outputsize) (Some grp) w2;
        w4 \<leftarrow> release_group_and_buffers grp bufs w3;
        Some (if s \<noteq> XRP_STATUS_SUCCESS then SPRD_XRP_STATUS_FAILURE else SPRD_XRP_STATUS_SUCCESS, w4)
      })
   }"

definition sprd_vdsp_send_command_directly ::
    "addr \<Rightarrow> bytes \<Rightarrow> hptr sprd_vdsp_inout option \<Rightarrow> hptr sprd_vdsp_inout option \<Rightarrow>
     u64 sprd_vdsp_inout list \<Rightarrow> nat \<Rightarrow> u32 \<Rightarrow> world \<Rightarrow> (sprd_vdsp_status \<times> world) option" where
  "sprd_vdsp_send_command_directly device ns input outp buffer buf_num priority w = do {
     ns_id \<leftarrow> copy_nsid ns;
     let (_, inputfd, _) = inout_args input;
     let (_, outputfd, _) = inout_args outp;
     (if take 9 ns_id = FACEID_NSID
      then do {
        inp \<leftarrow> input;
        (if vir_addr inp \<noteq> H_Null
         then do {
           (s, w1) \<leftarrow> xrp_run_faceid_command_directly device inputfd outputfd w;
           Some (if s \<noteq> XRP_STATUS_SUCCESS then SPRD_XRP_STATUS_FAILURE else SPRD_XRP_STATUS_SUCCESS, w1)
         }
         else Some (SPRD_XRP_STATUS_FAILURE, w))
      }
      else
        let (ok, w0) = ask malloc_ok w in
        if \<not> ok then Some (SPRD_XRP_STATUS_FAILURE, w0)
        else case xrp_create_buffer_group w0 of
          ((None, _), w1) \<Rightarrow> Some (SPRD_XRP_STATUS_FAILURE, w1)
        | ((Some grp, _), w1) \<Rightarrow>
            if length buffer < buf_num then None
            else send_group device ns_id (inout_args input) (inout_args outp) (take buf_num buffer)
                   priority grp w1)
   }"

section \<open>The group built from the descriptors\<close>

text \<open>What a buffer made from a descriptor looks like.\<close>

definition describes :: "u64 sprd_vdsp_inout \<Rightarrow> xrp_buffer \<Rightarrow> bool" where
  "describes x buf \<longleftrightarrow> buf_size buf = ucast (io_size x) \<and>
     (io_fd x \<noteq> - 1 \<longrightarrow> buf_ptr buf = vir_addr x \<and> ion_fd buf = io_fd x)"

definition made_from :: "world \<Rightarrow> addr \<Rightarrow> u64 sprd_vdsp_inout \<Rightarrow> bool" where
  "made_from w b x \<longleftrightarrow> (\<exists>buf. get_buffer b w = Some buf \<and> describes x buf)"

text \<open>Descriptors without a descriptor number need the ion allocator.\<close>

definition servable :: "world \<Rightarrow> u64 sprd_vdsp_inout list \<Rightarrow> bool" where
  "servable w xs \<longleftrightarrow> (\<forall>x \<in> set xs. io_fd x = - 1 \<longrightarrow> (\<forall>n. ion_mem (env w) n \<noteq> None))"

lemma made_from_kind: "made_from w b x \<Longrightarrow> kinds w b = Some K_Buffer"
  by (auto simp: made_from_def kinds_def elim: get_bufferE)

lemma made_from_kept:
  assumes "made_from w b x" and "alters A w w'" and "b \<notin> A" and "world_ok w c" and "world_ok w' c'" and "b \<in># c'"
  shows "made_from w' b x"
proof -
  obtain buf where b: "get_buffer b w = Some buf" "describes x buf" using assms(1) by (auto simp: made_from_def)
  obtain obj where h: "heap w b = Some obj" "contents obj = Buffer buf" using b(1) by (rule get_bufferE)
  obtain obj' where h': "heap w' b = Some obj'" using world_ok_client [OF assms(5,6)] by blast
  have "b < next_addr w" using world_ok_next [OF assms(4)] h(1) by blast
  from alters_contents [OF assms(2,3) h(1) this h'] h h' b(2) show ?thesis by (simp add: made_from_def)
qed

lemma entries_kind: "entries g w = Some vs \<Longrightarrow> kinds w g = Some K_Group"
  by (auto simp: entries_def dest: get_group_kind)

text \<open>A buffer just created for a descriptor goes to the group, or is lost when the group cannot grow.\<close>

lemma add_created_buffer:
  assumes ok: "world_ok w (add_mset b c)" and g: "g \<in># c" "entries g w = Some vs"
    and b: "kinds w b = Some K_Buffer" "get_buffer b w = Some buf" "describes x buf" and room: "room w (add_mset b c) 1"
  shows "(\<exists>i w'. xrp_add_buffer_to_group g b f w = Some ((i, XRP_STATUS_SUCCESS), w') \<and>
      moves 1 w (add_mset b c) w' (add_mset b c) \<and> entries g w' = Some (vs @ [(b, f)]) \<and> made_from w' b x \<and>
      alters {g} w w' \<and> log w' = log w) \<or>
    (\<exists>w'. xrp_add_buffer_to_group g b f w = Some ((- 1, XRP_STATUS_FAILURE), w') \<and>
      moves 1 w (add_mset b c) w' (add_mset b c) \<and> alters {g} w w' \<and> \<not> malloc_ok (env w) (ticks w))"
proof -
  obtain gr where gr: "get_group g w = Some gr" "group_entries gr = vs" using g(2) by (auto simp: entries_def)
  have "b \<noteq> g" using entries_kind [OF g(2)] b(1) by auto
  have in1: "g \<in># add_mset b c" "b \<in># add_mset b c" using g(1) by simp_all
  from add_buffer_ok [OF ok in1(1) gr(1) in1(2) b(1) room, of f] show ?thesis
  proof (elim disjE, goal_cases)
    case 1
    then show ?case using moves_mono [OF moves_refl [OF ok]] by auto
  next
    case 2
    then obtain w2 where w2: "xrp_add_buffer_to_group g b f w = Some ((of_nat (n_buffers gr), XRP_STATUS_SUCCESS), w2)"
      "moves 1 w (add_mset b c) w2 (add_mset b c)" "entries g w2 = Some (vs @ [(b, f)])"
      "alters {g} w w2" "log w2 = log w" using gr(2) by auto
    moreover have "made_from w2 b x"
      using made_from_kept [OF _ w2(4) _ ok moves_ok [OF w2(2)], of b x] b \<open>b \<noteq> g\<close> by (auto simp: made_from_def)
    ultimately show ?case by blast
  qed
qed

text \<open>One iteration: the new buffer is in the group, or the loop stops and at most it is lost.\<close>

lemma add_one_buffer:
  assumes ok: "world_ok w c" and g: "g \<in># c" "entries g w = Some vs"
    and d: "held w c d" "kinds w d = Some K_Device" and x: "servable w (x # xs)" and room: "room w c 3"
  shows "(\<exists>b w'. moves 3 w c w' (add_mset b c) \<and> entries g w' = Some (vs @ [(b, fl x)]) \<and> made_from w' b x \<and>
      alters {g} w w' \<and> (io_fd x \<noteq> - 1 \<longrightarrow> log w' = log w) \<and>
      add_buffers d g fl (x # xs) bufs w = add_buffers d g fl xs (bufs @ [b]) w') \<or>
    (\<exists>lost w'. moves 3 w c w' (lost + c) \<and> size lost \<le> 1 \<and> alters {g} w w' \<and>
      (\<exists>n. \<not> malloc_ok (env w) n) \<and> add_buffers d g fl (x # xs) bufs w = Some ((False, bufs), w'))"
proof -
  let ?sz = "ucast (io_size x) :: u64"
  have req: "buffer_request_ok w c (Some d) (vir_addr x) (io_fd x)"
    using x d(2) held_ref [OF ok d(1)] by (auto simp: buffer_request_ok_def servable_def)
  have "room w c 2" using room by (simp add: room_def)
  then obtain r s w1 where cr: "xrp_create_buffer (Some d) ?sz (vir_addr x) (io_fd x) w = Some ((r, s), w1)"
    "created 2 K_Buffer w c r s w1" "io_fd x \<noteq> - 1 \<longrightarrow> log w1 = log w"
    "r = None \<longrightarrow> (\<exists>n. \<not> malloc_ok (env w) n)"
    "\<forall>b. r = Some b \<longrightarrow> (\<exists>buf. get_buffer b w1 = Some buf \<and> describes x buf)"
    using create_buffer_ok [OF ok _ req, of ?sz] by (fastforce simp: describes_def)
  show ?thesis
  proof (cases r)
    case None
    then have "moves 0 w c w1 c" "keeps w w1" "s = XRP_STATUS_FAILURE" using cr(2) by (simp_all add: created_def)
    then have "moves 3 w c w1 ({#} + c)" "alters {g} w w1" "size {#} \<le> 1"
      using moves_mono alters_mono by fastforce+
    moreover have "add_buffers d g fl (x # xs) bufs w = Some ((False, bufs), w1)"
      using cr(1) \<open>s = _\<close> by simp
    ultimately show ?thesis using cr(4) None by blast
  next
    case (Some b)
    then have m1: "moves 2 w c w1 (add_mset b c)" and k1: "keeps w w1" and kb: "kinds w1 b = Some K_Buffer"
      using cr(2) by (simp_all add: created_def)
    have cr1: "xrp_create_buffer (Some d) ?sz (vir_addr x) (io_fd x) w = Some ((Some b, XRP_STATUS_SUCCESS), w1)"
      using cr(1,2) Some by (simp add: created_def)
    obtain buf where buf: "get_buffer b w1 = Some buf" "describes x buf" using cr(5) Some by blast
    note ok1 = moves_ok [OF m1]
    have e1: "entries g w1 = Some vs" using entries_kept [OF k1 ok ok1 _ g(2)] g(1) by simp
    have room1: "room w1 (add_mset b c) 1" using moves_room [OF m1, of 1] room by (simp add: numeral_3_eq_3)
    have al: "alters {g} w w1" using k1 by (rule alters_mono) simp
    have 3: "moves 3 w c w2 (add_mset b c)" if "moves 1 w1 (add_mset b c) w2 (add_mset b c)" for w2
      using moves_trans [OF m1 that] by simp
    from add_created_buffer [OF ok1 g(1) e1 kb buf room1, of "fl x"] show ?thesis
    proof (elim disjE exE conjE, goal_cases)
      case (1 i w2)
      then have "add_buffers d g fl (x # xs) bufs w = add_buffers d g fl xs (bufs @ [b]) w2" using cr1 by simp
      with 1 3 alters_trans [OF al] cr(3) show ?case by metis
    next
      case (2 w2)
      then have "add_buffers d g fl (x # xs) bufs w = Some ((False, bufs), w2)" using cr1 by simp
      with 2 3 [of w2] alters_trans [OF al] moves_env [OF m1] show ?case
        by (intro disjI2 exI [of _ "{#b#}"] exI [of _ w2]) auto
    qed
  qed
qed

lemma add_buffers_ok:
  assumes "world_ok w c" and "g \<in># c" and "entries g w = Some vs" and "held w c d" and "kinds w d = Some K_Device"
    and "servable w xs" and "room w c (3 * length xs)"
  shows "\<exists>all bs lost w'. add_buffers d g fl xs bufs w = Some ((all, bufs @ bs), w') \<and>
    moves (3 * length xs) w c w' (mset bs + lost + c) \<and> alters {g} w w' \<and> size lost \<le> 1 \<and>
    (\<forall>b \<in> set bs. kinds w' b = Some K_Buffer) \<and>
    (if all
     then lost = {#} \<and> entries g w' = Some (vs @ zip bs (map fl xs)) \<and> list_all2 (made_from w') bs xs \<and>
          ((\<forall>x \<in> set xs. io_fd x \<noteq> - 1) \<longrightarrow> log w' = log w)
     else \<exists>n. \<not> malloc_ok (env w) n)"
  using assms
proof (induction xs arbitrary: w c vs bufs)
  case Nil
  then show ?case
    by (intro exI [of _ True] exI [of _ "[]"] exI [of _ "{#}"] exI [of _ w]) (simp add: moves_refl)
next
  case (Cons x xs)
  have "room w c 3" using Cons.prems(7) by (simp add: room_def)
  from add_one_buffer [OF Cons.prems(1-6) this, of fl bufs] show ?case
  proof (elim disjE exE conjE)
    fix b w1
    assume m1: "moves 3 w c w1 (add_mset b c)" and e1: "entries g w1 = Some (vs @ [(b, fl x)])"
      and made: "made_from w1 b x" and al1: "alters {g} w w1" and log1: "io_fd x \<noteq> - 1 \<longrightarrow> log w1 = log w"
      and step: "add_buffers d g fl (x # xs) bufs w = add_buffers d g fl xs (bufs @ [b]) w1"
    have ok1: "world_ok w1 (add_mset b c)" using m1 by (rule moves_ok)
    have held1: "held w1 (add_mset b c) d"
      using held_kept [OF m1 _ al1 _ Cons.prems(4)] entries_kind [OF Cons.prems(3)] by simp
    have "kinds w1 d = Some K_Device"
      using moves_kind_held [OF m1 Cons.prems(1,4) held1] Cons.prems(5) by simp
    moreover have "servable w1 xs" using Cons.prems(6) moves_env [OF m1] by (simp add: servable_def)
    moreover have "room w1 (add_mset b c) (3 * length xs)"
      using moves_room [OF m1, of "3 * length xs"] Cons.prems(7) by (simp add: add.commute)
    ultimately obtain all bs lost w2 where
      w2: "add_buffers d g fl xs (bufs @ [b]) w1 = Some ((all, (bufs @ [b]) @ bs), w2)"
      and m2: "moves (3 * length xs) w1 (add_mset b c) w2 (mset bs + lost + add_mset b c)"
      and al2: "alters {g} w1 w2" and lost: "size lost \<le> 1"
      and kb: "\<forall>b \<in> set bs. kinds w2 b = Some K_Buffer"
      and res: "if all
       then lost = {#} \<and> entries g w2 = Some ((vs @ [(b, fl x)]) @ zip bs (map fl xs)) \<and>
            list_all2 (made_from w2) bs xs \<and> ((\<forall>x \<in> set xs. io_fd x \<noteq> - 1) \<longrightarrow> log w2 = log w1)
       else \<exists>n. \<not> malloc_ok (env w1) n"
      using Cons.IH [OF ok1 _ e1 held1] Cons.prems(2) by (metis insert_iff set_mset_add_mset_insert)
    have in2: "b \<in># mset bs + lost + add_mset b c" by simp
    have "b \<noteq> g" using made_from_kind [OF made] entries_kind [OF e1] by auto
    then have made2: "made_from w2 b x"
      using made_from_kept [OF made al2 _ ok1 moves_ok [OF m2] in2] by simp
    have "moves (3 * length (x # xs)) w c w2 (mset (b # bs) + lost + c)"
      using moves_trans [OF m1 m2] by (simp add: add.commute)
    moreover have "alters {g} w w2" using al1 al2 by (rule alters_trans)
    moreover have "add_buffers d g fl (x # xs) bufs w = Some ((all, bufs @ (b # bs)), w2)"
      using step w2 by simp
    moreover have "\<forall>b' \<in> set (b # bs). kinds w2 b' = Some K_Buffer"
      using kb made_from_kind [OF made2] by simp
    moreover have "if all
       then lost = {#} \<and> entries g w2 = Some (vs @ zip (b # bs) (map fl (x # xs))) \<and>
            list_all2 (made_from w2) (b # bs) (x # xs) \<and> ((\<forall>x \<in> set (x # xs). io_fd x \<noteq> - 1) \<longrightarrow> log w2 = log w)
       else \<exists>n. \<not> malloc_ok (env w) n"
      using res made2 log1 moves_env [OF m1] by (cases all) auto
    ultimately show ?case using lost by blast
  next
    fix lost w1 n
    assume "moves 3 w c w1 (lost + c)" "size lost \<le> 1" "alters {g} w w1" "\<not> malloc_ok (env w) n"
      "add_buffers d g fl (x # xs) bufs w = Some ((False, bufs), w1)"
    then show ?case
      using moves_mono [of 3 w c w1 "lost + c" "3 * length (x # xs)"]
      by (intro exI [of _ False] exI [of _ "[]"] exI [of _ lost] exI [of _ w1]) auto
  qed
qed

text \<open>The cleanup gives back the group and the buffers of the \<open>buf\<close> array.\<close>

lemma release_buffers_ok:
  assumes "world_ok w (mset bs + c)" and "\<forall>b \<in> set bs. kinds w b = Some K_Buffer"
  shows "\<exists>w'. for_each xrp_release_buffer bs w = Some w' \<and> moves 0 w (mset bs + c) w' c \<and> keeps w w' \<and> quiet w w'"
  using assms
proof (induction bs arbitrary: w)
  case Nil
  then show ?case by (simp add: moves_refl quiet_same)
next
  case (Cons b bs)
  have ok: "world_ok w (add_mset b (mset bs + c))" using Cons.prems(1) by simp
  obtain w1 where w1: "xrp_release_buffer b w = Some w1"
    "moves 0 w (add_mset b (mset bs + c)) w1 (mset bs + c)" "keeps w w1" "quiet w w1"
    using release_buffer_ok [OF ok] Cons.prems(2) by auto
  have "kinds w1 x = Some K_Buffer" if "x \<in> set bs" for x
    using moves_kind [OF w1(2) ok, of x] Cons.prems(2) that by simp
  then obtain w' where w': "for_each xrp_release_buffer bs w1 = Some w'" "moves 0 w1 (mset bs + c) w' c" "keeps w1 w'" "quiet w1 w'"
    using Cons.IH [OF moves_ok [OF w1(2)]] by blast
  then show ?case using w1(1) moves_trans [OF w1(2) w'(2)] alters_trans [OF w1(3) w'(3)]
      quiet_trans [OF w1(4) w'(4)] by simp
qed

lemma release_group_and_buffers_ok:
  assumes ok: "world_ok w (add_mset g (mset bs + c))" and g: "kinds w g = Some K_Group"
    and bs: "\<forall>b \<in> set bs. kinds w b = Some K_Buffer"
  shows "\<exists>w'. release_group_and_buffers g bs w = Some w' \<and> moves 0 w (add_mset g (mset bs + c)) w' c \<and> keeps w w' \<and> quiet w w'"
proof -
  obtain w1 where w1: "xrp_release_buffer_group g w = Some w1"
    "moves 0 w (add_mset g (mset bs + c)) w1 (mset bs + c)" "keeps w w1" "quiet w w1"
    using release_group_ok [OF ok g] by blast
  have "\<forall>b \<in> set bs. kinds w1 b = Some K_Buffer" using moves_kind [OF w1(2) ok] bs by simp
  then obtain w' where w': "for_each xrp_release_buffer bs w1 = Some w'" "moves 0 w1 (mset bs + c) w' c" "keeps w1 w'" "quiet w1 w'"
    using release_buffers_ok [OF moves_ok [OF w1(2)]] by blast
  then show ?thesis using w1(1) moves_trans [OF w1(2) w'(2)] alters_trans [OF w1(3) w'(3)]
      quiet_trans [OF w1(4) w'(4)]
    by (simp add: release_group_and_buffers_def)
qed

section \<open>The query sent to the driver\<close>

definition query_buffer :: "xrp_access_flags \<Rightarrow> xrp_buffer \<Rightarrow> xrp_ioctl_buffer" where
  "query_buffer f buf =
     \<lparr>ib_flags = f, ib_size = ucast (buf_size buf), ib_addr = buf_ptr buf, ib_fd = ion_fd buf\<rparr>"

lemma those_map_Some: "(\<And>x. x \<in> set xs \<Longrightarrow> f x = Some (h x)) \<Longrightarrow> those (map f xs) = Some (map h xs)"
  by (induction xs) auto

lemma group_map_ok:
  assumes ok: "world_ok w c" and a: "a \<in># c" and vs: "entries a w = Some vs"
  shows "\<exists>g. get_group a w = Some g \<and> n_buffers g = length vs \<and>
    those (map (\<lambda>i. do { g \<leftarrow> get_group a w; (b, f) \<leftarrow> slot_get (gbuffer g) i;
                          buf \<leftarrow> get_buffer b w; Some (h f buf) }) [0..<length vs]) =
    Some (map (\<lambda>(b, f). h f (the (get_buffer b w))) vs)"
proof -
  obtain g where g: "get_group a w = Some g" "group_entries g = vs" using vs by (auto simp: entries_def)
  note gf = group_facts [OF ok a g(1)]
  let ?h = "\<lambda>(b, f). h f (the (get_buffer b w))"
  let ?f = "\<lambda>i. do { g \<leftarrow> get_group a w; (b, f) \<leftarrow> slot_get (gbuffer g) i; buf \<leftarrow> get_buffer b w; Some (h f buf) }"
  have one: "?f i = Some (?h (vs ! i))" if "i \<in> set [0..<length vs]" for i
  proof -
    obtain b f where bf: "vs ! i = (b, f)" by force
    have "i < length vs" using that by simp
    then have slot: "slot_get (gbuffer g) i = Some (b, f)" and "(b, f) \<in> set vs"
      using group_slot [OF gf(3), of i] g(2) bf nth_mem [of i vs] by simp_all
    then have "kinds w b = Some K_Buffer" using gf(5) [of b] g(2) by force
    then show ?thesis using g(1) bf slot by (auto elim!: buffer_kindE)
  qed
  have "those (map ?f [0..<length vs]) = Some (map (\<lambda>i. ?h (vs ! i)) [0..<length vs])"
    using one by (rule those_map_Some)
  also have "map (\<lambda>i. ?h (vs ! i)) [0..<length vs] = map ?h (map ((!) vs) [0..<length vs])" by simp
  also have "map ((!) vs) [0..<length vs] = vs" by (rule map_nth)
  finally have M: "those (map ?f [0..<length vs]) = Some (map ?h vs)" .
  have "n_buffers g = length vs" using g(2) gf(4) by simp
  then show ?thesis using g(1) M by (intro exI conjI)
qed

lemma ioctl_buffers_ok:
  assumes "world_ok w c" and "a \<in># c" and "entries a w = Some vs"
  shows "\<exists>g. get_group a w = Some g \<and> those (map (\<lambda>i. ioctl_buffer a i w) [0..<n_buffers g]) =
    Some (map (\<lambda>(b, f). query_buffer f (the (get_buffer b w))) vs)"
  using group_map_ok [OF assms, of query_buffer] by (auto simp: ioctl_buffer_def query_buffer_def)

text \<open>The one effect of \<open>xrp_run_command_directly\<close> is the ioctl.\<close>

lemma run_command_directly_ok:
  assumes ok: "world_ok w c" and a: "a \<in># c" and vs: "entries a w = Some vs" and d: "get_device d w = Some dev"
  shows "xrp_run_command_directly d ns prio in_data in_fd in_size out_data out_fd out_size (Some a) w =
    Some (if ioctl_ret (env w) (ticks w) < 0 then XRP_STATUS_FAILURE else XRP_STATUS_SUCCESS,
      (record_call (Ioctl_queue (dev_fd dev)
         \<lparr>iq_flags = queue_flags True prio, iq_in_data_size = ucast in_size, iq_out_data_size = ucast out_size,
          iq_buffer_size = of_nat (length vs * 24), iq_in_data_addr = in_data, iq_in_data_fd = in_fd,
          iq_out_data_addr = out_data, iq_out_data_fd = out_fd,
          iq_buffers = map (\<lambda>(b, f). query_buffer f (the (get_buffer b w))) vs, iq_nsid = ns\<rparr>) w)
        \<lparr>ticks := Suc (ticks w)\<rparr>)"
  using ioctl_buffers_ok [OF ok a vs] d by (auto simp: xrp_run_command_directly_def ask_def Let_def)

text \<open>The query that a list of descriptors amounts to.\<close>

definition direct_query :: "bytes \<Rightarrow> u32 \<Rightarrow> hptr \<times> int \<times> u32 \<Rightarrow> hptr \<times> int \<times> u32 \<Rightarrow>
    u64 sprd_vdsp_inout list \<Rightarrow> xrp_ioctl_queue" where
  "direct_query ns prio input outp xs =
     (let (iv, ifd, isz) = input; (ov, ofd, osz) = outp in
      \<lparr>iq_flags = queue_flags True prio, iq_in_data_size = isz, iq_out_data_size = osz,
       iq_buffer_size = of_nat (length xs * 24), iq_in_data_addr = iv, iq_in_data_fd = ifd,
       iq_out_data_addr = ov, iq_out_data_fd = ofd,
       iq_buffers = map (\<lambda>x. \<lparr>ib_flags = translate_bufflag (io_flag x), ib_size = io_size x,
                               ib_addr = vir_addr x, ib_fd = io_fd x\<rparr>) xs,
       iq_nsid = ns\<rparr>)"

lemma query_of_made:
  assumes "list_all2 (made_from w) bs xs" and "\<forall>x \<in> set xs. io_fd x \<noteq> - 1"
  shows "map (\<lambda>(b, f). query_buffer f (the (get_buffer b w))) (zip bs (map (translate_bufflag \<circ> io_flag) xs)) =
    map (\<lambda>x. \<lparr>ib_flags = translate_bufflag (io_flag x), ib_size = io_size x,
              ib_addr = vir_addr x, ib_fd = io_fd x\<rparr>) xs"
  using assms
  by (induction bs xs rule: list_all2_induct)
    (auto simp: made_from_def describes_def query_buffer_def)

section \<open>Sending\<close>

definition send_result :: "int \<Rightarrow> sprd_vdsp_status" where
  "send_result ret = (if ret < 0 then SPRD_XRP_STATUS_FAILURE else SPRD_XRP_STATUS_SUCCESS)"

lemma device_kept:
  assumes al: "alters A w w'" and "d \<notin> A" and ok: "world_ok w c" and ok': "world_ok w' c'" and x: "held w' c' d"
    and d: "get_device d w = Some dev"
  shows "get_device d w' = Some dev"
proof -
  obtain obj where h: "heap w d = Some obj" "contents obj = Device dev"
    using d by (auto simp: get_device_def split: option.splits body.splits)
  obtain obj' where h': "heap w' d = Some obj'" using held_ref [OF ok' x] world_ok_dom [OF ok'] by blast
  have "d < next_addr w" using world_ok_next [OF ok] h(1) by blast
  from alters_contents [OF al \<open>d \<notin> A\<close> h(1) this h'] h(2) h' show ?thesis by simp
qed

text \<open>The cleanup that both exits of the sending share.\<close>

lemma send_group_cleanup:
  assumes ok: "world_ok w (mset bs + lost + add_mset g c)" and g: "kinds w g = Some K_Group"
    and bs: "\<forall>b \<in> set bs. kinds w b = Some K_Buffer"
    and m: "moves k w0 c0 w (mset bs + lost + add_mset g c)" and al: "alters {g} w0 w"
  shows "\<exists>w'. release_group_and_buffers g bs w = Some w' \<and> moves k w0 c0 w' (lost + c) \<and>
    alters {g} w0 w' \<and> quiet w w'"
proof -
  have c: "mset bs + lost + add_mset g c = add_mset g (mset bs + (lost + c))" by (simp add: ac_simps)
  obtain w' where w': "release_group_and_buffers g bs w = Some w'"
    "moves 0 w (add_mset g (mset bs + (lost + c))) w' (lost + c)" "keeps w w'" "quiet w w'"
    using release_group_and_buffers_ok [OF ok [unfolded c] g bs] by blast
  have "moves (k + 0) w0 c0 w' (lost + c)" using m w'(2) unfolding c by (rule moves_trans)
  with w'(1,3,4) al show ?thesis by (auto intro: alters_trans alters_mono)
qed

text \<open>With all buffers in the group, the ioctl is sent and everything is given back.\<close>

lemma send_full_group:
  assumes ok: "world_ok w (mset bs + add_mset g c)" and e: "entries g w = Some (zip bs (map (translate_bufflag \<circ> io_flag) xs))"
    and made: "list_all2 (made_from w) bs xs" and d: "get_device d w = Some dev"
    and bs: "\<forall>b \<in> set bs. kinds w b = Some K_Buffer"
    and m: "moves k w0 c0 w (mset bs + add_mset g c)" and al: "alters {g} w0 w"
    and add: "add_buffers d g (translate_bufflag \<circ> io_flag) xs [] w0 = Some ((True, bs), w)"
  shows "\<exists>w' l. send_group d ns input outp xs prio g w0 = Some (send_result (ioctl_ret (env w) (ticks w)), w') \<and>
    moves k w0 c0 w' c \<and> alters {g} w0 w' \<and> (\<forall>k \<in> set l. cleanup_call k) \<and>
    ((\<forall>x \<in> set xs. io_fd x \<noteq> - 1) \<longrightarrow>
       log w' = log w @ Ioctl_queue (dev_fd dev) (direct_query ns prio input outp xs) # l)"
proof -
  obtain iv ifd isz ov ofd osz where io: "input = (iv, ifd, isz)" "outp = (ov, ofd, osz)" by (metis prod_cases3)
  define q where "q = \<lparr>iq_flags = queue_flags True prio, iq_in_data_size = isz, iq_out_data_size = osz,
        iq_buffer_size = of_nat (length (zip bs (map (translate_bufflag \<circ> io_flag) xs)) * 24), iq_in_data_addr = iv, iq_in_data_fd = ifd,
        iq_out_data_addr = ov, iq_out_data_fd = ofd,
        iq_buffers = map (\<lambda>(b, f). query_buffer f (the (get_buffer b w))) (zip bs (map (translate_bufflag \<circ> io_flag) xs)), iq_nsid = ns\<rparr>"
  let ?w3 = "(record_call (Ioctl_queue (dev_fd dev) q) w)\<lparr>ticks := Suc (ticks w)\<rparr>"
  let ?s = "if ioctl_ret (env w) (ticks w) < 0 then XRP_STATUS_FAILURE else XRP_STATUS_SUCCESS"
  have run: "xrp_run_command_directly d ns prio iv ifd (ucast isz) ov ofd (ucast osz) (Some g) w = Some (?s, ?w3)"
    using run_command_directly_ok [OF ok _ e d, of ns prio iv ifd "ucast isz" ov ofd "ucast osz"]
    by (simp add: q_def)
  have g: "kinds ?w3 g = Some K_Group" using entries_kind [OF e] by simp
  obtain w' where w': "release_group_and_buffers g bs ?w3 = Some w'"
    "moves k w0 c0 w' c" "alters {g} w0 w'" "quiet ?w3 w'"
    using send_group_cleanup [OF _ g, of bs "{#}" c k w0 c0] ok bs m al by auto
  obtain l where l: "log w' = log w @ Ioctl_queue (dev_fd dev) q # l" "\<forall>k \<in> set l. cleanup_call k"
    using w'(4) by (auto simp: quiet_def)
  have "send_group d ns input outp xs prio g w0 = Some (send_result (ioctl_ret (env w) (ticks w)), w')"
    using add run w'(1) by (simp add: send_group_def io send_result_def)
  moreover have "q = direct_query ns prio input outp xs" if "\<forall>x \<in> set xs. io_fd x \<noteq> - 1"
    using query_of_made [OF made that] list_all2_lengthD [OF made]
    by (simp add: q_def direct_query_def io)
  ultimately show ?thesis using w'(2,3) l by auto
qed

lemma send_group_ok:
  assumes ok: "world_ok w (add_mset g c)" and g: "entries g w = Some []"
    and d: "held w (add_mset g c) d" "get_device d w = Some dev" and xs: "servable w xs"
    and room: "room w (add_mset g c) (3 * length xs)"
  shows "\<exists>r lost w'. send_group d ns input outp xs prio g w = Some (r, w') \<and>
    moves (3 * length xs) w (add_mset g c) w' (lost + c) \<and> size lost \<le> 1 \<and> alters {g} w w' \<and>
    ((\<forall>n. malloc_ok (env w) n) \<longrightarrow> lost = {#} \<and> (\<exists>t. r = send_result (ioctl_ret (env w) t)) \<and>
      ((\<forall>x \<in> set xs. io_fd x \<noteq> - 1) \<longrightarrow>
         (\<exists>l. log w' = log w @ Ioctl_queue (dev_fd dev) (direct_query ns prio input outp xs) # l \<and>
              (\<forall>k \<in> set l. cleanup_call k))))"
proof -
  let ?fl = "translate_bufflag \<circ> io_flag"
  have kd: "kinds w d = Some K_Device" using d(2)
    by (auto simp: get_device_def kinds_def split: option.splits body.splits)
  have gin: "g \<in># add_mset g c" by simp
  obtain all bs lost w2 where
    w2: "add_buffers d g ?fl xs [] w = Some ((all, bs), w2)"
    and m2: "moves (3 * length xs) w (add_mset g c) w2 (mset bs + lost + add_mset g c)"
    and al2: "alters {g} w w2" and lost: "size lost \<le> 1"
    and kb: "\<forall>b \<in> set bs. kinds w2 b = Some K_Buffer"
    and res: "if all
       then lost = {#} \<and> entries g w2 = Some ([] @ zip bs (map ?fl xs)) \<and>
            list_all2 (made_from w2) bs xs \<and> ((\<forall>x \<in> set xs. io_fd x \<noteq> - 1) \<longrightarrow> log w2 = log w)
       else \<exists>n. \<not> malloc_ok (env w) n"
    using add_buffers_ok [OF ok gin g d(1) kd xs room, of ?fl "[]"] unfolding append_Nil by blast
  note ok2 = moves_ok [OF m2]
  show ?thesis
  proof (cases all)
    case False
    have "kinds w2 g = Some K_Group" using moves_kind [OF m2 ok gin] entries_kind [OF g] by simp
    from send_group_cleanup [OF ok2 this kb m2 al2] obtain w' where w': "release_group_and_buffers g bs w2 = Some w'"
      "moves (3 * length xs) w (add_mset g c) w' (lost + c)" "alters {g} w w'" by blast
    then have "send_group d ns input outp xs prio g w = Some (SPRD_XRP_STATUS_FAILURE, w')"
      using w2 False by (simp add: send_group_def split: prod.split)
    with w' lost res False show ?thesis by auto
  next
    case True
    note res' = res [unfolded if_P [OF True] append_Nil]
    have "d \<noteq> g" using kd entries_kind [OF g] by auto
    then have d2: "get_device d w2 = Some dev"
      using device_kept [OF al2 _ ok ok2 held_kept [OF m2 _ al2 _ d(1)] d(2)] entries_kind [OF g] by simp
    have l0: "mset bs + lost + add_mset g c = mset bs + add_mset g c" using res' by simp
    from send_full_group [OF ok2 [unfolded l0] _ _ d2 kb m2 [unfolded l0] al2, of xs ns "input" outp prio]
    obtain w' l where "send_group d ns input outp xs prio g w = Some (send_result (ioctl_ret (env w2) (ticks w2)), w')"
      "moves (3 * length xs) w (add_mset g c) w' c" "alters {g} w w'" "\<forall>k \<in> set l. cleanup_call k"
      "(\<forall>x \<in> set xs. io_fd x \<noteq> - 1) \<longrightarrow>
        log w' = log w2 @ Ioctl_queue (dev_fd dev) (direct_query ns prio input outp xs) # l"
      using res' w2 [unfolded eqTrueI [OF True]] by blast
    with res' moves_env [OF m2] show ?thesis
      by (intro exI [of _ "send_result (ioctl_ret (env w2) (ticks w2))"] exI [of _ "{#}"] exI [of _ w']) auto
  qed
qed

lemma kept_fresh:
  "alters {g} w1 w' \<Longrightarrow> keeps w w1 \<Longrightarrow> next_addr w \<le> g \<Longrightarrow> heap w g = None \<Longrightarrow> keeps w w'"
proof -
  assume a: "alters {g} w1 w'" "keeps w w1" "next_addr w \<le> g" "heap w g = None"
  then have "alters {g} w w'" using alters_trans [of "{g}" w w1 w'] alters_mono [of "{}" w w1 "{g}"] by simp
  moreover have "x \<noteq> g" if "heap w x = Some obj \<or> x < next_addr w" for x obj using a(3,4) that by auto
  ultimately show "keeps w w'" unfolding alters_def by (metis empty_iff singletonD)
qed

lemma get_device_kept:
  assumes "keeps w w'" and "world_ok w c" and "world_ok w' c'" and "held w' c' d" and "get_device d w = Some dev"
  shows "get_device d w' = Some dev"
  using device_kept [OF assms(1) _ assms(2-5)] by simp

text \<open>The conditions under which a client may send a command with these arguments.\<close>

definition direct_request_ok :: "world \<Rightarrow> addr multiset \<Rightarrow> addr \<Rightarrow> bytes \<Rightarrow> hptr sprd_vdsp_inout option \<Rightarrow>
    u64 sprd_vdsp_inout list \<Rightarrow> nat \<Rightarrow> bool" where
  "direct_request_ok w c d ns input buffer n \<longleftrightarrow>
     held w c d \<and> kinds w d = Some K_Device \<and>
     (\<exists>ns_id. copy_nsid ns = Some ns_id \<and> (take 9 ns_id = FACEID_NSID \<longrightarrow> input \<noteq> None)) \<and>
     n \<le> length buffer \<and> servable w (take n buffer)"

lemma run_faceid_ok:
  assumes "get_device d w = Some dev"
  shows "xrp_run_faceid_command_directly d ifd ofd w =
    Some (if ioctl_ret (env w) (ticks w) < 0 then XRP_STATUS_FAILURE else XRP_STATUS_SUCCESS,
      (record_call (Ioctl_faceid (dev_fd dev) (word_of_int ifd) (word_of_int ofd)) w)\<lparr>ticks := Suc (ticks w)\<rparr>)"
  using assms by (simp add: xrp_run_faceid_command_directly_def ask_def)

text \<open>The part after the group was created.\<close>

lemma send_in_new_group:
  assumes ok: "world_ok w c" and d: "held w c d" "get_device d w = Some dev" and xs: "servable w xs"
    and room: "room w c (3 * length xs + 1)" and cr: "created 1 K_Group w c (Some g) s w1"
    and g: "entries g w1 = Some []" "next_addr w \<le> g" "log w1 = log w"
  shows "\<exists>r lost w'. send_group d ns input outp xs prio g w1 = Some (r, w') \<and>
    moves (3 * length xs + 1) w c w' (lost + c) \<and> size lost \<le> 1 \<and> keeps w w' \<and>
    ((\<forall>n. malloc_ok (env w) n) \<longrightarrow> lost = {#} \<and> (\<exists>t. r = send_result (ioctl_ret (env w) t)) \<and>
      ((\<forall>x \<in> set xs. io_fd x \<noteq> - 1) \<longrightarrow>
         (\<exists>l. log w' = log w @ Ioctl_queue (dev_fd dev) (direct_query ns prio input outp xs) # l \<and>
              (\<forall>k \<in> set l. cleanup_call k))))"
proof -
  have m1: "moves 1 w c w1 (add_mset g c)" and k1: "keeps w w1" using cr by (simp_all add: created_def)
  have ok1: "world_ok w1 (add_mset g c)" using m1 by (rule moves_ok)
  have env1: "env w1 = env w" using m1 by (rule moves_env)
  have held1: "held w1 (add_mset g c) d" using held_kept [OF m1 _ k1 _ d(1)] by simp
  have dev1: "get_device d w1 = Some dev" using get_device_kept [OF k1 ok ok1 held1 d(2)] .
  have sv: "servable w1 xs" using xs env1 by (simp add: servable_def)
  have "room w1 (add_mset g c) (3 * length xs)" using moves_room [OF m1, of "3 * length xs"] room by simp
  from send_group_ok [OF ok1 g(1) held1 dev1 sv this, of ns "input" outp prio] obtain r lost w' where
    sg: "send_group d ns input outp xs prio g w1 = Some (r, w')"
      "moves (3 * length xs) w1 (add_mset g c) w' (lost + c)" "size lost \<le> 1" "alters {g} w1 w'"
      "(\<forall>n. malloc_ok (env w) n) \<longrightarrow> lost = {#} \<and> (\<exists>t. r = send_result (ioctl_ret (env w) t)) \<and>
        ((\<forall>x \<in> set xs. io_fd x \<noteq> - 1) \<longrightarrow>
         (\<exists>l. log w' = log w @ Ioctl_queue (dev_fd dev) (direct_query ns prio input outp xs) # l \<and>
              (\<forall>k \<in> set l. cleanup_call k)))"
    unfolding env1 g(3) by blast
  have "moves (3 * length xs + 1) w c w' (lost + c)" using moves_trans [OF m1 sg(2)] by simp
  moreover have "heap w g = None" using g(2) world_ok_next [OF ok, of g] by fastforce
  then have "keeps w w'" by (rule kept_fresh [OF sg(4) k1 g(2)])
  ultimately show ?thesis using sg(1,3,5) by blast
qed

text \<open>Creating the group, or failing before anything happened.\<close>

lemma create_group_cases:
  assumes "world_ok w c"
  obtains (failed) w1 where "xrp_create_buffer_group w = ((None, XRP_STATUS_FAILURE), w1)" and "moves 0 w c w1 c"
      and "keeps w w1" and "\<exists>n. \<not> malloc_ok (env w) n"
  | (made) g w1 where "xrp_create_buffer_group w = ((Some g, XRP_STATUS_SUCCESS), w1)"
      and "created 1 K_Group w c (Some g) XRP_STATUS_SUCCESS w1" and "entries g w1 = Some []"
      and "next_addr w \<le> g" and "log w1 = log w"
proof -
  obtain r s w1 where cr: "xrp_create_buffer_group w = ((r, s), w1)" "created 1 K_Group w c r s w1"
    "log w1 = log w" "r = None \<longrightarrow> (\<exists>n. \<not> malloc_ok (env w) n)" "\<forall>a. r = Some a \<longrightarrow> entries a w1 = Some []"
    using create_buffer_group_ok [OF assms] by blast
  show thesis
  proof (cases r)
    case None
    with cr failed [of w1] show thesis by (simp add: created_def)
  next
    case (Some g)
    then have "s = XRP_STATUS_SUCCESS" using cr(2) by (simp add: created_def)
    moreover have "next_addr w \<le> g"
      using cr(1) Some by (auto simp: xrp_create_buffer_group_def alloc_refcounted_def ask_def split: if_splits)
    ultimately show thesis using made [of g w1] cr Some by simp
  qed
qed

lemma send_directly_ok:
  assumes ok: "world_ok w c" and req: "direct_request_ok w c d ns input buffer n"
    and room: "room w c (3 * n + 1)" and dev: "get_device d w = Some dev"
  shows "\<exists>r lost w'. sprd_vdsp_send_command_directly d ns input outp buffer n prio w = Some (r, w') \<and>
    moves (3 * n + 1) w c w' (lost + c) \<and> size lost \<le> 1 \<and> keeps w w' \<and>
    ((\<forall>n. malloc_ok (env w) n) \<and> take 9 (the (copy_nsid ns)) \<noteq> FACEID_NSID \<longrightarrow>
      lost = {#} \<and> (\<exists>t. r = send_result (ioctl_ret (env w) t)) \<and>
      ((\<forall>x \<in> set (take n buffer). io_fd x \<noteq> - 1) \<longrightarrow>
         (\<exists>l. log w' = log w @ Ioctl_queue (dev_fd dev) (direct_query (the (copy_nsid ns)) prio
                (inout_args input) (inout_args outp) (take n buffer)) # l \<and> (\<forall>k \<in> set l. cleanup_call k))))"
proof -
  obtain ns_id where ns: "copy_nsid ns = Some ns_id" "take 9 ns_id = FACEID_NSID \<longrightarrow> input \<noteq> None"
    and len: "n \<le> length buffer" and sv: "servable w (take n buffer)" and d: "held w c d"
    using req by (auto simp: direct_request_ok_def)
  let ?send = "sprd_vdsp_send_command_directly d ns input outp buffer n prio w"
  let ?w0 = "w\<lparr>ticks := Suc (ticks w)\<rparr>"
  have stay: "moves (3 * n + 1) w c w c" using moves_mono [OF moves_refl [OF ok]] by simp
  show ?thesis
  proof (cases "take 9 ns_id = FACEID_NSID")
    case True
    then obtain inp where inp: "input = Some inp" using ns(2) by blast
    have "\<exists>r w'. ?send = Some (r, w') \<and> moves (3 * n + 1) w c w' c \<and> keeps w w'"
      using run_faceid_ok [OF dev, of "io_fd inp" "fst (snd (inout_args outp))"] True inp ns(1) stay
      by (cases "inout_args outp") (auto simp: sprd_vdsp_send_command_directly_def inout_args_def)
    then show ?thesis using True ns(1) by (metis empty_neutral(1) option.sel size_empty zero_le)
  next
    case False
    show ?thesis
    proof (cases "malloc_ok (env w) (ticks w)")
      case nomem: False
      then have "?send = Some (SPRD_XRP_STATUS_FAILURE, ?w0)"
        using False ns(1) by (simp add: sprd_vdsp_send_command_directly_def ask_def split: prod.split)
      with nomem stay show ?thesis
        by (intro exI [of _ SPRD_XRP_STATUS_FAILURE] exI [of _ "{#}"] exI [of _ ?w0]) auto
    next
      case mem: True
      have ok0: "world_ok ?w0 c" using ok by simp
      then show ?thesis
      proof (cases rule: create_group_cases)
        case (failed w1)
        then have "?send = Some (SPRD_XRP_STATUS_FAILURE, w1)"
          using False ns(1) mem by (simp add: sprd_vdsp_send_command_directly_def ask_def split: prod.split)
        with failed(2-4) show ?thesis
          by (intro exI [of _ SPRD_XRP_STATUS_FAILURE] exI [of _ "{#}"] exI [of _ w1]) (auto intro: moves_mono)
      next
        case (made g w1)
        have "?send = send_group d ns_id (inout_args input) (inout_args outp) (take n buffer) prio g w1"
          using False ns(1) mem made(1) len
          by (simp add: sprd_vdsp_send_command_directly_def ask_def split: prod.split)
        then show ?thesis
          using send_in_new_group [OF ok0 _ _ _ _ made(2-5), of d dev "take n buffer" ns_id "inout_args input"
              "inout_args outp" prio] d dev sv room ns(1)
          by (simp add: min.absorb2 [OF len] servable_def get_device_def) blast
      qed
    qed
  qed
qed

section \<open>Properties\<close>

text \<open>
  C6. Sending a command directly, when memory is available: one ioctl is made, on the device's
  descriptor, whose query carries the namespace, the input and output the caller passed (none for a
  null pointer), and the caller's buffers in order with their translated access flags; the status is
  SUCCESS exactly when that ioctl returned a non-negative value; afterwards every temporary object is
  gone, the caller holds exactly the references it held, and nothing it can see has changed.
\<close>

theorem direct_send_correct:
  assumes "world_ok w c" and "direct_request_ok w c d ns input buffer n" and "room w c (3 * n + 1)"
    and "get_device d w = Some dev" and "\<forall>i. malloc_ok (env w) i"
    and "copy_nsid ns = Some ns_id" and "take 9 ns_id \<noteq> FACEID_NSID"
    and "\<forall>x \<in> set (take n buffer). io_fd x \<noteq> - 1"
  shows "\<exists>t w' l. sprd_vdsp_send_command_directly d ns input outp buffer n prio w =
      Some (send_result (ioctl_ret (env w) t), w') \<and>
    world_ok w' c \<and> dying w' = dying w \<and> keeps w w' \<and>
    log w' = log w @ Ioctl_queue (dev_fd dev)
      (direct_query ns_id prio (inout_args input) (inout_args outp) (take n buffer)) # l \<and>
    (\<forall>k \<in> set l. cleanup_call k)"
proof -
  from send_directly_ok [OF assms(1-4), of outp prio] assms(5-8) obtain lost w' t l where
    "sprd_vdsp_send_command_directly d ns input outp buffer n prio w =
       Some (send_result (ioctl_ret (env w) t), w')"
    "moves (3 * n + 1) w c w' (lost + c)" "keeps w w'" "lost = {#}"
    "log w' = log w @ Ioctl_queue (dev_fd dev)
      (direct_query ns_id prio (inout_args input) (inout_args outp) (take n buffer)) # l"
    "\<forall>k \<in> set l. cleanup_call k"
    by fastforce
  moreover from this(2) have "dying w' = dying w" by (simp add: moves_def evolves_def fun_eq_iff)
  ultimately show ?thesis using moves_ok by fastforce
qed

definition demo_nsid :: bytes where
  "demo_nsid = [0x76, 0x31, 0x20, 0x63, 0x6d, 0x64, 0]"

definition demo_buffers :: "u64 sprd_vdsp_inout list" where
  "demo_buffers = [\<lparr>io_fd = 7, vir_addr = 0x8000, phy_addr = 0, io_size = 128, io_flag = SPRD_VDSP_XRP_WRITE\<rparr>]"

lemma demo_copy: "copy_nsid demo_nsid = Some ([0x76, 0x31, 0x20, 0x63, 0x6d, 0x64] @ replicate 26 0)"
  by code_simp

lemma demo_request: "direct_request_ok (world_dev env_good) {#16#} 16 demo_nsid None demo_buffers 1"
  by (simp add: direct_request_ok_def demo_copy FACEID_NSID_def demo_buffers_def servable_def held_direct)

theorem direct_send_correct_witness:
  "\<exists>w' q l. sprd_vdsp_send_command_directly 16 demo_nsid None None demo_buffers 1 2 (world_dev env_good) =
      Some (SPRD_XRP_STATUS_SUCCESS, w') \<and> world_ok w' {#16#} \<and>
    log w' = Open 0 O_RDONLY # Ioctl_queue 3 q # l \<and>
    iq_buffers q = [\<lparr>ib_flags = XRP_WRITE, ib_size = 128, ib_addr = 0x8000, ib_fd = 7\<rparr>]"
  using direct_send_correct [OF world_dev_ok demo_request world_dev_room _ _ demo_copy, where outp = None and prio = 2]
  by (fastforce simp: get_device_def env_good_def FACEID_NSID_def demo_buffers_def send_result_def direct_query_def
      split_beta)



definition env_no_array :: environment where
  "env_no_array = env_good\<lparr>malloc_ok := \<lambda>n. n \<noteq> 3\<rparr>"

text \<open>
  The one reference that can be lost: when the group's array cannot be allocated after the buffer
  was created, the call reports FAILURE and leaves a buffer with a count of one that the caller cannot
  reach, because the cleanup only releases the entries before the failing one.
\<close>

theorem direct_send_leaks:
  "\<exists>w'. sprd_vdsp_send_command_directly 16 demo_nsid None None demo_buffers 1 2 (world_dev env_no_array) =
      Some (SPRD_XRP_STATUS_FAILURE, w') \<and>
    map_option ref_count (heap w' 18) = Some 1 \<and> dom (heap w') = {16, 18} \<and> heap_refs (heap w') = {#}"
proof -
  let ?b = "zero_buffer\<lparr>buf_ptr := 0x8000, buf_size := 128, ion_fd := 7\<rparr>"
  let ?h = "(heap (world_dev env_no_array))(18 \<mapsto> \<lparr>ref_count = 1, contents = Buffer ?b\<rparr>)"
  let ?w' = "(world_dev env_no_array)\<lparr>heap := ?h, next_addr := 19, ticks := Suc (Suc (Suc (Suc 0)))\<rparr>"
  have "sprd_vdsp_send_command_directly 16 demo_nsid None None demo_buffers 1 2 (world_dev env_no_array) =
      Some (SPRD_XRP_STATUS_FAILURE, ?w')"
    by (simp add: sprd_vdsp_send_command_directly_def demo_copy FACEID_NSID_def ask_def env_no_array_def env_good_def
        xrp_create_buffer_group_def alloc_refcounted_def demo_buffers_def send_group_def inout_args_def
        xrp_create_buffer_def update_buffer_def get_buffer_def put_def zero_buffer_def
        xrp_add_buffer_to_group_def get_group_def zero_group_def release_group_and_buffers_def
        xrp_release_buffer_group_def last_release_refcounted_def free_object_def world_dev_def world_init_def
        fun_upd_twist numeral_3_eq_3)
  moreover have "dom ?h = {16, 18}" by (auto simp: world_dev_def)
  moreover have "heap_refs ?h = {#}" by (simp add: heap_refs_def owns_def world_dev_def zero_buffer_def)
  ultimately show ?thesis by simp
qed

text \<open>
  A namespace longer than the 32 bytes of the local array is written past its end (the copy is
  bounded by the length of the source), whatever the other arguments.
\<close>

theorem direct_send_nsid_overflow:
  assumes "c_strlen ns = Some k" and "32 < k"
  shows "sprd_vdsp_send_command_directly d ns input outp buffer n prio w = None"
  using assms by (simp add: sprd_vdsp_send_command_directly_def copy_nsid_def memcpy_at_def)

theorem direct_send_nsid_overflow_witness:
  "sprd_vdsp_send_command_directly 16 (replicate 33 0x61 @ [0]) None None demo_buffers 1 2 (world_dev env_good) = None"
  using direct_send_nsid_overflow [of "replicate 33 0x61 @ [0]" 33] by simp

text \<open>
  The flag word and the access flags survive their encodings: the driver recovers the priority
  modulo 256 and the namespace bit from the query's flags, which use no other bit; and the three
  access modes are the same after translation to the interface's flags and back, while any other value
  becomes read-only.
\<close>

theorem flags_roundtrip:
  "drop_bit 8 (and (queue_flags ns p) XRP_QUEUE_FLAG_PRIO) = and p 0xff \<and>
   (and (queue_flags ns p) XRP_QUEUE_FLAG_NSID \<noteq> 0) = ns \<and>
   and (queue_flags ns p) XRP_QUEUE_VALID_FLAGS = queue_flags ns p \<and>
   translate_bufflag (translate_access_flag f) =
     (if f = XRP_READ \<or> f = XRP_WRITE \<or> f = XRP_READ_WRITE then f else XRP_READ)"
proof -
  have "drop_bit 8 (and (queue_flags ns p) 0xff00) = and p 0xff"
    unfolding queue_flags_def XRP_QUEUE_FLAG_NSID_def XRP_QUEUE_FLAG_PRIO_def
    by (intro bit_word_eqI) (auto simp: bit_simps flag_bits)
  moreover have "and (queue_flags ns p) 4 = (if ns then 4 else 0)"
    unfolding queue_flags_def XRP_QUEUE_FLAG_NSID_def XRP_QUEUE_FLAG_PRIO_def
    by (intro bit_word_eqI) (auto simp: bit_simps flag_bits)
  moreover have "and (queue_flags ns p) 0xff04 = queue_flags ns p"
    unfolding queue_flags_def XRP_QUEUE_FLAG_NSID_def XRP_QUEUE_FLAG_PRIO_def
    by (intro bit_word_eqI) (auto simp: bit_simps flag_bits)
  ultimately show ?thesis
    by (auto simp: XRP_QUEUE_FLAG_NSID_def XRP_QUEUE_FLAG_PRIO_def XRP_QUEUE_VALID_FLAGS_def translate_access_flag_def)
qed

end
