(* ===== verification/Command_Queue.thy ===== *)
theory Command_Queue
  imports Direct_Command
begin

text \<open>
  Command queues and events: the queue, event and communication API of \<open>xrp_host_common.c\<close> and
  \<open>xrp_linux.c\<close>, and the events of \<open>xrp_threaded_queue.c\<close>. A queue's requests are run by its worker
  thread; a worker step is \<open>xrp_queue_process\<close>, one request at a time. The theory of the request
  queue justifies the list of pending requests; here each API call and each request is one step.
\<close>

section \<open>Creating queues\<close>

text \<open>
  The loop of \<open>str_len\<close>: \<open>i\<close> counts the bytes read, the terminating NUL included, up to \<open>max_len\<close>.
  A read outside the string's memory is undefined behaviour.
\<close>

function str_len_from :: "bytes \<Rightarrow> nat \<Rightarrow> nat \<Rightarrow> nat option" where
  "str_len_from str max_len i =
     (if length str \<le> i then None
      else if str ! i = 0 then Some (Suc i)
      else if max_len \<le> Suc i then Some max_len
      else str_len_from str max_len (Suc i))"
  by pat_completeness auto
termination by (relation "measure (\<lambda>(str, max_len, i). length str - i)") auto

declare str_len_from.simps [simp del]

definition str_len :: "bytes \<Rightarrow> nat \<Rightarrow> nat option" where
  "str_len str max_len = str_len_from str max_len 0"

definition xrp_create_nsp_queue ::
    "addr \<Rightarrow> bytes option \<Rightarrow> int \<Rightarrow> world \<Rightarrow> ((ptr \<times> xrp_status) \<times> world) option" where
  "xrp_create_nsp_queue device ns priority w = do {
     w1 \<leftarrow> xrp_retain_device device w;
     (case alloc_refcounted (Queue zero_queue) w1 of
        (None, w2) \<Rightarrow> do {
          w3 \<leftarrow> xrp_release_device device w2;
          Some ((None, XRP_STATUS_FAILURE), w3)
        }
      | (Some queue, w2) \<Rightarrow> do {
          q \<leftarrow> (case ns of
                 None \<Rightarrow> Some zero_queue
               | Some s \<Rightarrow> do {
                   n \<leftarrow> str_len s 32;
                   id \<leftarrow> memcpy_at (replicate 32 0) 0 s n;
                   Some (zero_queue\<lparr>use_nsid := True, nsid := id\<rparr>)
                 });
          w3 \<leftarrow> put queue (Queue (q\<lparr>q_device := Some device, q_priority := priority\<rparr>)) w2;
          Some ((Some queue, XRP_STATUS_SUCCESS), w3)
        })
   }"

definition xrp_create_ns_queue ::
    "addr \<Rightarrow> bytes option \<Rightarrow> world \<Rightarrow> ((ptr \<times> xrp_status) \<times> world) option" where
  "xrp_create_ns_queue device ns w = xrp_create_nsp_queue device ns 0 w"

definition xrp_create_queue :: "addr \<Rightarrow> world \<Rightarrow> ((ptr \<times> xrp_status) \<times> world) option" where
  "xrp_create_queue device w = xrp_create_ns_queue device None w"

definition xrp_retain_queue :: "addr \<Rightarrow> world \<Rightarrow> world option" where
  "xrp_retain_queue queue w = retain_refcounted queue w"

definition xrp_retain_event :: "addr \<Rightarrow> world \<Rightarrow> world option" where
  "xrp_retain_event event w = retain_refcounted event w"

section \<open>Running a command\<close>

datatype sprd_vdsp_result =
  SPRD_VDSP_RESULT_SUCCESS | SPRD_VDSP_RESULT_FAIL | SPRD_VDSP_RESULT_OLD_GENERATION | SPRD_VDSP_RESULT_MAX

text \<open>The values of the C enum.\<close>

fun result_code :: "sprd_vdsp_result \<Rightarrow> int" where
  "result_code SPRD_VDSP_RESULT_SUCCESS = 0"
| "result_code SPRD_VDSP_RESULT_FAIL = 1"
| "result_code SPRD_VDSP_RESULT_OLD_GENERATION = 2"
| "result_code SPRD_VDSP_RESULT_MAX = 3"

text \<open>The wrapper of \<open>vdsp_interface.cpp\<close> around the direct send.\<close>

definition sprd_cavdsp_send_cmd_direct ::
    "addr \<Rightarrow> bytes \<Rightarrow> hptr sprd_vdsp_inout option \<Rightarrow> hptr sprd_vdsp_inout option \<Rightarrow>
     u64 sprd_vdsp_inout list \<Rightarrow> nat \<Rightarrow> u32 \<Rightarrow> world \<Rightarrow> (sprd_vdsp_result \<times> world) option" where
  "sprd_cavdsp_send_cmd_direct hnd ns inp outp buffer bufnum priority w = do {
     (ret, w1) \<leftarrow> sprd_vdsp_send_command_directly hnd ns inp outp buffer bufnum priority w;
     Some (if ret = SPRD_XRP_STATUS_SUCCESS then SPRD_VDSP_RESULT_SUCCESS else SPRD_VDSP_RESULT_FAIL, w1)
   }"

definition client_buffer :: "addr \<Rightarrow> nat \<Rightarrow> world \<Rightarrow> u64 sprd_vdsp_inout option" where
  "client_buffer grp i w = do {
     g \<leftarrow> get_group grp w;
     (b, flags) \<leftarrow> slot_get (gbuffer g) i;
     buf \<leftarrow> get_buffer b w;
     Some \<lparr>io_fd = ion_fd buf, vir_addr = buf_ptr buf, phy_addr = 0, io_size = ucast (buf_size buf),
           io_flag = translate_access_flag flags\<rparr>
   }"

definition client_inout :: "hptr \<Rightarrow> int \<Rightarrow> u64 \<Rightarrow> hptr sprd_vdsp_inout option" where
  "client_inout data fd sz =
     (if data = H_Null \<or> sz = 0 then None
      else Some \<lparr>io_fd = fd, vir_addr = data, phy_addr = 0, io_size = ucast sz, io_flag = SPRD_VDSP_XRP_READ\<rparr>)"

definition xrp_run_queue_command :: "addr \<Rightarrow> xrp_request \<Rightarrow> world \<Rightarrow> (xrp_status \<times> world) option" where
  "xrp_run_queue_command queue rq w = do {
     n \<leftarrow> (case rq_buffer_group rq of None \<Rightarrow> Some 0 | Some a \<Rightarrow> map_option n_buffers (get_group a w));
     q \<leftarrow> get_queue queue w;
     let (ok, w1) = (if 0 < n then ask malloc_ok w else (True, w));
     (if \<not> ok then Some (XRP_STATUS_FAILURE, w1)
      else do {
        buffer \<leftarrow> (case rq_buffer_group rq of
                     None \<Rightarrow> Some []
                   | Some a \<Rightarrow> those (map (\<lambda>i. client_buffer a i w1) [0..<n]));
        d \<leftarrow> q_device q;
        (ret, w2) \<leftarrow> sprd_cavdsp_send_cmd_direct d (nsid q)
                       (client_inout (rq_in_data rq) (rq_in_data_fd rq) (rq_in_data_size rq))
                       (client_inout (rq_out_data rq) (rq_out_data_fd rq) (rq_out_data_size rq))
                       buffer n (word_of_int (q_priority q)) w1;
        Some (if result_code ret < 0 then XRP_STATUS_FAILURE else XRP_STATUS_SUCCESS, w2)
      })
   }"

section \<open>Releasing queues and events, and the worker\<close>

text \<open>
  Releasing the last reference of a queue destroys it, which from another thread joins the worker and
  so runs the requests still pending, and running a request may release an event and with it its
  queue. The functions of this cycle take the destructor of the thread they run on as a parameter.
\<close>

definition release_queue_with :: "(addr \<Rightarrow> world \<Rightarrow> world option) \<Rightarrow> addr \<Rightarrow> world \<Rightarrow> world option" where
  "release_queue_with destroy queue w = do {
     (last, w1) \<leftarrow> last_release_refcounted queue w;
     (if last then do {
        w2 \<leftarrow> destroy queue w1;
        q \<leftarrow> get_queue queue w2;
        d \<leftarrow> q_device q;
        w3 \<leftarrow> xrp_release_device d w2;
        free_object queue w3
      } else Some w1)
   }"

definition release_event_with :: "(addr \<Rightarrow> world \<Rightarrow> world option) \<Rightarrow> addr \<Rightarrow> world \<Rightarrow> world option" where
  "release_event_with destroy event w = do {
     (last, w1) \<leftarrow> last_release_refcounted event w;
     (if last then do {
        e \<leftarrow> get_event event w1;
        q \<leftarrow> ev_queue e;
        w2 \<leftarrow> release_queue_with destroy q w1;
        free_object event w2
      } else Some w1)
   }"

definition xrp_request_process ::
    "(addr \<Rightarrow> world \<Rightarrow> world option) \<Rightarrow> addr \<Rightarrow> xrp_request \<Rightarrow> world \<Rightarrow> world option" where
  "xrp_request_process destroy queue rq w = do {
     (status, w1) \<leftarrow> xrp_run_queue_command queue rq w;
     w2 \<leftarrow> (case rq_buffer_group rq of None \<Rightarrow> Some w1 | Some g \<Rightarrow> xrp_release_buffer_group g w1);
     (case rq_event rq of
        None \<Rightarrow> Some w2
      | Some event \<Rightarrow> do {
          e \<leftarrow> get_event event w2;
          w3 \<leftarrow> put event (Event (e\<lparr>ev_status := status\<rparr>)) w2;
          release_event_with destroy event w3
        })
   }"

text \<open>Taking the first pending request, and one round of the worker's loop.\<close>

definition dequeue_request :: "addr \<Rightarrow> world \<Rightarrow> (xrp_request option \<times> world) option" where
  "dequeue_request queue w = do {
     q \<leftarrow> get_queue queue w;
     (case pending q of
        [] \<Rightarrow> Some (None, w)
      | rq # rqs \<Rightarrow> do { w1 \<leftarrow> put queue (Queue (q\<lparr>pending := rqs\<rparr>)) w; Some (Some rq, w1) })
   }"

definition queue_process_with :: "(addr \<Rightarrow> world \<Rightarrow> world option) \<Rightarrow> addr \<Rightarrow> world \<Rightarrow> world option" where
  "queue_process_with destroy queue w = do {
     (rq, w1) \<leftarrow> dequeue_request queue w;
     (case rq of None \<Rightarrow> Some w1 | Some r \<Rightarrow> xrp_request_process destroy queue r w1)
   }"

text \<open>
  \<open>xrp_queue_destroy\<close>. On the queue's own worker the join fails and the worker is told to stop after
  the current request; on any other thread the join returns when the worker has run every pending
  request. \<open>depth\<close> bounds the nesting of such joins.
\<close>

primrec xrp_queue_destroy :: "nat \<Rightarrow> ptr \<Rightarrow> addr \<Rightarrow> world \<Rightarrow> world option" where
  "xrp_queue_destroy 0 self queue w = (if self = Some queue then Some w else None)"
| "xrp_queue_destroy (Suc depth) self queue w =
     (if self = Some queue then Some w
      else do {
        q \<leftarrow> get_queue queue w;
        repeat_op (length (pending q)) (queue_process_with (xrp_queue_destroy depth (Some queue)) queue) w
      })"

text \<open>On a client thread, and on the queue's worker.\<close>

definition xrp_release_queue :: "addr \<Rightarrow> world \<Rightarrow> world option" where
  "xrp_release_queue = release_queue_with (xrp_queue_destroy 1 None)"

definition xrp_release_event :: "addr \<Rightarrow> world \<Rightarrow> world option" where
  "xrp_release_event = release_event_with (xrp_queue_destroy 1 None)"

definition xrp_queue_process :: "addr \<Rightarrow> world \<Rightarrow> world option" where
  "xrp_queue_process queue = queue_process_with (xrp_queue_destroy 0 (Some queue)) queue"

section \<open>Submitting commands\<close>

definition xrp_event_create :: "world \<Rightarrow> ptr \<times> world" where
  "xrp_event_create w = alloc_refcounted (Event (zero_event\<lparr>ev_status := XRP_STATUS_PENDING\<rparr>)) w"

text \<open>The event of a request, when the caller wants one: the caller and the request hold it.\<close>

definition enqueue_event :: "addr \<Rightarrow> bool \<Rightarrow> world \<Rightarrow> (ptr \<times> bool \<times> world) option" where
  "enqueue_event queue want_evt w =
     (if want_evt
      then case xrp_event_create w of
          (None, w1) \<Rightarrow> Some (None, True, w1)
        | (Some event, w1) \<Rightarrow> do {
            w2 \<leftarrow> xrp_retain_queue queue w1;
            e \<leftarrow> get_event event w2;
            w3 \<leftarrow> put event (Event (e\<lparr>ev_queue := Some queue\<rparr>)) w2;
            w4 \<leftarrow> xrp_retain_event event w3;
            Some (Some event, False, w4)
          }
      else Some (None, False, w))"

text \<open>
  \<open>in_data\<close> is the memory the client's pointer points to (\<open>None\<close> for NULL); the request holds a copy
  of it. \<open>want_evt\<close> says whether the \<open>evt\<close> out-parameter is given; the event is returned then.
\<close>

definition xrp_enqueue_command ::
    "addr \<Rightarrow> bytes option \<Rightarrow> int \<Rightarrow> u64 \<Rightarrow> hptr \<Rightarrow> int \<Rightarrow> u64 \<Rightarrow> ptr \<Rightarrow> bool \<Rightarrow> world \<Rightarrow>
     ((ptr \<times> xrp_status) \<times> world) option" where
  "xrp_enqueue_command queue in_data in_fd in_size out_data out_fd out_size grp want_evt w = do {
     let (rq_ok, w1) = ask malloc_ok w;
     let (copy_ok, w2) = ask malloc_ok w1;
     (if \<not> rq_ok \<or> in_size \<noteq> 0 \<and> \<not> copy_ok then Some ((None, XRP_STATUS_FAILURE), w2)
      else do {
        data \<leftarrow> (if in_size = 0 then Some []
                 else do { src \<leftarrow> in_data; memcpy_at (replicate (unat in_size) 0) 0 src (unat in_size) });
        let rq = \<lparr>rq_in_data = H_Data data, rq_in_data_size = in_size, rq_in_data_fd = in_fd,
                  rq_out_data = out_data, rq_out_data_size = out_size, rq_out_data_fd = out_fd,
                  rq_buffer_group = grp, rq_event = None\<rparr>;
        (evt, failed, w4) \<leftarrow> enqueue_event queue want_evt w2;
        (if failed then Some ((None, XRP_STATUS_FAILURE), w4)
         else do {
           w5 \<leftarrow> (case grp of None \<Rightarrow> Some w4 | Some g \<Rightarrow> xrp_retain_buffer_group g w4);
           q \<leftarrow> get_queue queue w5;
           w6 \<leftarrow> put queue (Queue (q\<lparr>pending := pending q @ [rq\<lparr>rq_event := evt\<rparr>]\<rparr>)) w5;
           Some ((evt, XRP_STATUS_SUCCESS), w6)
         })
      })
   }"

text \<open>
  \<open>xrp_wait\<close>: while the event is pending the worker of its queue goes on. \<open>None\<close> after \<open>n\<close> requests
  means that the event is still pending.
\<close>

primrec xrp_wait :: "nat \<Rightarrow> addr \<Rightarrow> world \<Rightarrow> world option" where
  "xrp_wait 0 event w = do { e \<leftarrow> get_event event w; if ev_status e = XRP_STATUS_PENDING then None else Some w }"
| "xrp_wait (Suc n) event w = do {
     e \<leftarrow> get_event event w;
     (if ev_status e = XRP_STATUS_PENDING
      then do { q \<leftarrow> ev_queue e; w1 \<leftarrow> xrp_queue_process q w; xrp_wait n event w1 }
      else Some w)
   }"

text \<open>Reading the status of an event.\<close>

definition xrp_event_status :: "addr \<Rightarrow> world \<Rightarrow> xrp_status option" where
  "xrp_event_status event w = map_option ev_status (get_event event w)"

text \<open>The synchronous call: the number of requests pending bounds the wait.\<close>

definition xrp_run_command_sync ::
    "addr \<Rightarrow> bytes option \<Rightarrow> int \<Rightarrow> u64 \<Rightarrow> hptr \<Rightarrow> int \<Rightarrow> u64 \<Rightarrow> ptr \<Rightarrow> world \<Rightarrow> (xrp_status \<times> world) option" where
  "xrp_run_command_sync queue in_data in_fd in_size out_data out_fd out_size grp w = do {
     ((evt, s), w1) \<leftarrow> xrp_enqueue_command queue in_data in_fd in_size out_data out_fd out_size grp True w;
     (if s \<noteq> XRP_STATUS_SUCCESS then Some (s, w1)
      else do {
        e \<leftarrow> evt;
        q \<leftarrow> get_queue queue w1;
        w2 \<leftarrow> xrp_wait (length (pending q)) e w1;
        status \<leftarrow> xrp_event_status e w2;
        w3 \<leftarrow> xrp_release_event e w2;
        Some (status, w3)
      })
   }"

section \<open>The name of a queue\<close>

lemma str_len_from_ok:
  assumes "i \<le> length str" and "0 \<in> set (drop i str) \<or> max_len \<le> length str" and "i < max_len"
  shows "\<exists>n. str_len_from str max_len i = Some n \<and> i < n \<and> n \<le> max_len \<and> n \<le> length str \<and>
    0 \<notin> set (drop i (take (n - 1) str)) \<and> (n = max_len \<or> str ! (n - 1) = 0)"
  using assms
proof (induction str max_len i rule: str_len_from.induct)
  case (1 str max_len i)
  have i: "i < length str" using 1(2-4) by (cases "i = length str") auto
  then have split: "drop i str = str ! i # drop (Suc i) str" by (simp add: Cons_nth_drop_Suc)
  consider "str ! i = 0" | "str ! i \<noteq> 0" "max_len \<le> Suc i" | "str ! i \<noteq> 0" "Suc i < max_len" by linarith
  then show ?case
  proof cases
    case 1
    then show ?thesis using i \<open>i < max_len\<close> by (subst str_len_from.simps) auto
  next
    case 2
    with i \<open>i < max_len\<close> have "max_len = Suc i" by simp
    with 2 i show ?thesis by (subst str_len_from.simps) auto
  next
    case 3
    with "1.IH" i "1.prems" split obtain n where n: "str_len_from str max_len (Suc i) = Some n"
      "Suc i < n" "n \<le> max_len" "n \<le> length str" "0 \<notin> set (drop (Suc i) (take (n - 1) str))"
      "n = max_len \<or> str ! (n - 1) = 0" by auto
    have "drop i (take (n - 1) str) = str ! i # drop (Suc i) (take (n - 1) str)"
      using i n(2,4) by (simp add: Cons_nth_drop_Suc [symmetric])
    with n 3 i show ?thesis by (subst str_len_from.simps) auto
  qed
qed

lemma str_len_string:
  assumes "c_strlen s = Some k"
  shows "str_len s 32 = Some (min (Suc k) 32)"
proof -
  from assms have k: "k < length s" "s ! k = 0" "0 \<notin> set (take k s)" by (simp_all add: c_strlen_Some_iff)
  then have "0 \<in> set s" by (metis nth_mem)
  then obtain n where n: "str_len_from s 32 0 = Some n" "0 < n" "n \<le> 32" "n \<le> length s"
    "0 \<notin> set (take (n - 1) s)" "n = 32 \<or> s ! (n - 1) = 0"
    using str_len_from_ok [of 0 s 32] by auto
  have "n - 1 \<le> k"
  proof (rule ccontr)
    assume "\<not> n - 1 \<le> k"
    then have "s ! k \<in> set (take (n - 1) s)" using n(4) by (auto simp: in_set_conv_nth intro!: exI [of _ k])
    with n(5) k(2) show False by simp
  qed
  moreover have "k \<le> n - 1" if "s ! (n - 1) = 0"
  proof (rule ccontr)
    assume "\<not> k \<le> n - 1"
    then have "s ! (n - 1) \<in> set (take k s)" using k(1) by (auto simp: in_set_conv_nth intro!: exI [of _ "n - 1"])
    with k(3) that show False by simp
  qed
  ultimately have "n = min (Suc k) 32" using n(2,3,6) by (auto simp: min_def)
  with n(1) show ?thesis by (simp add: str_len_def)
qed

text \<open>The stored name: padded with NULs, and cut at 32 bytes without a terminator.\<close>

definition stored_nsid :: "bytes \<Rightarrow> nat \<Rightarrow> bytes" where
  "stored_nsid s k = (if k < 32 then take k s @ replicate (32 - k) 0 else take 32 s)"

lemma queue_name:
  assumes "c_strlen s = Some k"
  shows "memcpy_at (replicate 32 0) 0 s (min (Suc k) 32) = Some (stored_nsid s k)"
proof -
  from assms have k: "k < length s" "s ! k = 0" by (simp_all add: c_strlen_Some_iff)
  show ?thesis
  proof (cases "k < 32")
    case True
    then have "take (Suc k) s = take k s @ [0]" using k by (simp add: take_Suc_conv_app_nth)
    moreover have "replicate (32 - k) (0 :: u8) = 0 # replicate (31 - k) 0"
      using True by (cases "32 - k") (auto simp: Suc_diff_le)
    ultimately show ?thesis using True k by (simp add: memcpy_at_def stored_nsid_def)
  qed (use k in \<open>auto simp: memcpy_at_def stored_nsid_def min_def\<close>)
qed

lemma length_stored_nsid: "c_strlen s = Some k \<Longrightarrow> length (stored_nsid s k) = 32"
  by (auto simp: stored_nsid_def c_strlen_Some_iff)

text \<open>When a command is run, a name of at most 31 bytes is read back as it was given.\<close>

lemma copy_padded:
  assumes "0 \<notin> set s" and "length s < 32"
  shows "copy_nsid (s @ replicate (32 - length s) 0) = Some (s @ replicate (32 - length s) 0)"
proof -
  have "replicate (32 - length s) (0 :: u8) = 0 # replicate (31 - length s) 0"
    using assms(2) by (cases "32 - length s") (auto simp: Suc_diff_le)
  then have "c_strlen (s @ replicate (32 - length s) 0) = Some (length s)"
    using assms(1) by simp
  then show ?thesis using assms(2) by (simp add: copy_nsid_def memcpy_at_def)
qed

lemma copy_stored_nsid:
  assumes "c_strlen s = Some k"
  shows "copy_nsid (stored_nsid s k) = (if k < 32 then Some (stored_nsid s k) else None)"
proof -
  from assms have k: "k < length s" "0 \<notin> set (take k s)" by (simp_all add: c_strlen_Some_iff)
  show ?thesis
  proof (cases "k < 32")
    case True
    then show ?thesis using copy_padded [of "take k s"] k by (simp add: stored_nsid_def)
  next
    case False
    then have "0 \<notin> set (take 32 s)" using k set_take_subset_set_take [of 32 k s] by auto
    then show ?thesis using False by (simp add: stored_nsid_def copy_nsid_def c_strlen_None_iff [THEN iffD2])
  qed
qed

section \<open>Creating a queue\<close>

text \<open>The name argument: NULL, or a string.\<close>

definition nsid_ok :: "bytes option \<Rightarrow> bool" where
  "nsid_ok ns \<longleftrightarrow> (\<forall>s. ns = Some s \<longrightarrow> c_strlen s \<noteq> None)"

definition queue_nsid :: "bytes option \<Rightarrow> bytes" where
  "queue_nsid ns = (case ns of None \<Rightarrow> replicate 32 0 | Some s \<Rightarrow> stored_nsid s (the (c_strlen s)))"

lemma queue_init_name:
  assumes "nsid_ok ns"
  shows "(case ns of
      None \<Rightarrow> Some zero_queue
    | Some s \<Rightarrow> do {
        n \<leftarrow> str_len s 32;
        id \<leftarrow> memcpy_at (replicate 32 0) 0 s n;
        Some (zero_queue\<lparr>use_nsid := True, nsid := id\<rparr>)
      }) = Some (zero_queue\<lparr>use_nsid := (ns \<noteq> None), nsid := queue_nsid ns\<rparr>)"
  using assms
  by (cases ns) (auto simp: nsid_ok_def queue_nsid_def str_len_string queue_name zero_queue_def
      simp del: min_Suc_numeral)

lemma length_queue_nsid: "nsid_ok ns \<Longrightarrow> length (queue_nsid ns) = 32"
  by (auto simp: nsid_ok_def queue_nsid_def length_stored_nsid split: option.split)

lemma create_queue_ok:
  assumes ok: "world_ok w c" and d: "held w c d" "kinds w d = Some K_Device" and room: "room w c 2" and ns: "nsid_ok ns"
  shows "\<exists>r s w'. xrp_create_nsp_queue d ns prio w = Some ((r, s), w') \<and> created 2 K_Queue w c r s w' \<and>
    log w' = log w \<and> (r = None \<longrightarrow> (\<exists>n. \<not> malloc_ok (env w) n)) \<and>
    (\<forall>a. r = Some a \<longrightarrow> get_queue a w' = Some \<lparr>q_device = Some d, use_nsid = (ns \<noteq> None), q_priority = prio,
       nsid = queue_nsid ns, pending = []\<rparr> \<and> next_addr w \<le> a)"
proof -
  have "room w c 1" using room by (simp add: room_def)
  then obtain w1 obj where w1: "xrp_retain_device d w = Some w1" "moves 1 w c w1 (add_mset d c)"
    "kinds w1 = kinds w" "heap w d = Some obj" "heap w1 = (heap w)(d \<mapsto> obj\<lparr>ref_count := ref_count obj + 1\<rparr>)"
    "log w1 = log w"
    using moves_retain [OF ok held_ref [OF ok d(1)]] by (auto simp: xrp_retain_device_def)
  have ok1: "world_ok w1 (add_mset d c)" using w1(2) by (rule moves_ok)
  have k1: "keeps w w1" using keeps_count [OF w1(4,5) moves_next [OF w1(2)]] .
  have env1: "env w1 = env w" using w1(2) by (rule moves_env)
  show ?thesis
  proof (cases rule: alloc_cases [of "Queue zero_queue" w1])
    case fail
    let ?w2 = "w1\<lparr>ticks := Suc (ticks w1)\<rparr>"
    let ?w3 = "w1\<lparr>ticks := Suc (ticks w1), heap := heap w\<rparr>"
    have "ref_count obj \<noteq> 0"
      using world_ok_alive [OF ok w1(4)] held_ref [OF ok d(1)] by simp
    then have "xrp_release_device d ?w2 = Some ?w3"
      using w1(4,5) by (simp add: xrp_release_device_def last_release_refcounted_def fun_upd_idem)
    then have "xrp_create_nsp_queue d ns prio w = Some ((None, XRP_STATUS_FAILURE), ?w3)"
      using w1(1) fail by (simp add: xrp_create_nsp_queue_def)
    moreover have "?w3 = w\<lparr>ticks := Suc (ticks w)\<rparr>"
      using w1(1,4) by (auto simp: xrp_retain_device_def retain_refcounted_def)
    ultimately show ?thesis using ok fail(2) env1 by (auto simp: created_def moves_refl)
  next
    case new
    let ?a = "next_addr w1"
    let ?q = "\<lparr>q_device = Some d, use_nsid = (ns \<noteq> None), q_priority = prio, nsid = queue_nsid ns, pending = []\<rparr>"
    let ?w' = "w1\<lparr>ticks := Suc (ticks w1), heap := (heap w1)(?a \<mapsto> \<lparr>ref_count = 1, contents = Queue ?q\<rparr>),
                 next_addr := Suc ?a\<rparr>"
    have "xrp_create_nsp_queue d ns prio w = Some ((Some ?a, XRP_STATUS_SUCCESS), ?w')"
      using w1(1) new queue_init_name [OF ns] by (simp add: xrp_create_nsp_queue_def put_def zero_queue_def)
    moreover have m2: "moves 1 w1 (add_mset d c) ?w' (add_mset ?a c)"
      and "kinds ?w' ?a = Some K_Queue" "keeps w1 ?w'"
      using created_new [of w1 c "Queue ?q" ?w'] ok1 w1(3) d(2) length_queue_nsid [OF ns] by simp_all
    moreover have "moves 2 w c ?w' (add_mset ?a c)"
      using moves_trans [OF w1(2) m2] by (simp only: one_add_one)
    ultimately show ?thesis using alters_trans [OF k1, of ?w'] w1(6) moves_next [OF w1(2)]
      by (auto simp: created_def get_queue_def)
  qed
qed

section \<open>Running a request\<close>

definition client_of :: "xrp_access_flags \<Rightarrow> xrp_buffer \<Rightarrow> u64 sprd_vdsp_inout" where
  "client_of f buf = \<lparr>io_fd = ion_fd buf, vir_addr = buf_ptr buf, phy_addr = 0, io_size = ucast (buf_size buf),
     io_flag = translate_access_flag f\<rparr>"

text \<open>The buffers a request passes on, with their flags.\<close>

definition request_entries :: "xrp_request \<Rightarrow> world \<Rightarrow> (addr \<times> xrp_access_flags) list" where
  "request_entries rq w = (case rq_buffer_group rq of None \<Rightarrow> [] | Some g \<Rightarrow> the (entries g w))"

definition request_buffers :: "xrp_request \<Rightarrow> world \<Rightarrow> u64 sprd_vdsp_inout list" where
  "request_buffers rq w = map (\<lambda>(b, f). client_of f (the (get_buffer b w))) (request_entries rq w)"

definition request_query :: "xrp_queue \<Rightarrow> xrp_request \<Rightarrow> world \<Rightarrow> xrp_ioctl_queue" where
  "request_query q rq w = direct_query (the (copy_nsid (nsid q))) (word_of_int (q_priority q))
     (inout_args (client_inout (rq_in_data rq) (rq_in_data_fd rq) (rq_in_data_size rq)))
     (inout_args (client_inout (rq_out_data rq) (rq_out_data_fd rq) (rq_out_data_size rq)))
     (request_buffers rq w)"

definition group_held :: "world \<Rightarrow> addr multiset \<Rightarrow> xrp_request \<Rightarrow> bool" where
  "group_held w c rq \<longleftrightarrow> (\<forall>g. rq_buffer_group rq = Some g \<longrightarrow> g \<in># c \<and> kinds w g = Some K_Group)"

text \<open>A name that can be sent, with the input the face-id name needs.\<close>

definition name_ok :: "xrp_queue \<Rightarrow> xrp_request \<Rightarrow> bool" where
  "name_ok q rq \<longleftrightarrow> (\<exists>id. copy_nsid (nsid q) = Some id \<and>
     (take 9 id = FACEID_NSID \<longrightarrow> client_inout (rq_in_data rq) (rq_in_data_fd rq) (rq_in_data_size rq) \<noteq> None))"

lemma request_buffers_ok:
  assumes ok: "world_ok w c" and g: "group_held w c rq"
  shows "(case rq_buffer_group rq of None \<Rightarrow> Some 0 | Some a \<Rightarrow> map_option n_buffers (get_group a w)) =
      Some (length (request_entries rq w))"
    and "(case rq_buffer_group rq of
        None \<Rightarrow> Some []
      | Some a \<Rightarrow> those (map (\<lambda>i. client_buffer a i w) [0..<length (request_entries rq w)])) =
      Some (request_buffers rq w)"
proof -
  have "\<exists>gr. get_group a w = Some gr \<and> n_buffers gr = length (request_entries rq w) \<and>
      those (map (\<lambda>i. client_buffer a i w) [0..<length (request_entries rq w)]) = Some (request_buffers rq w)"
    if "rq_buffer_group rq = Some a" for a
  proof -
    have a: "a \<in># c" "kinds w a = Some K_Group" using g that by (auto simp: group_held_def)
    then obtain vs where vs: "entries a w = Some vs" using kind_get_group [of w a] by (auto simp: entries_def)
    then have "request_entries rq w = vs" using that by (simp add: request_entries_def)
    then show ?thesis using group_map_ok [OF ok a(1) vs, of client_of]
      by (auto simp: client_buffer_def client_of_def request_buffers_def)
  qed
  then show "(case rq_buffer_group rq of None \<Rightarrow> Some 0 | Some a \<Rightarrow> map_option n_buffers (get_group a w)) =
      Some (length (request_entries rq w))"
    and "(case rq_buffer_group rq of
        None \<Rightarrow> Some []
      | Some a \<Rightarrow> those (map (\<lambda>i. client_buffer a i w) [0..<length (request_entries rq w)])) =
      Some (request_buffers rq w)"
    by (auto simp: request_entries_def request_buffers_def split: option.split)
qed

lemma run_queue_command_ok:
  assumes ok: "world_ok w c" and q: "get_queue a w = Some q" "q_device q = Some d"
    and d: "held w c d" "get_device d w = Some dev" and g: "group_held w c rq" and nm: "name_ok q rq"
    and ion: "\<forall>n. ion_mem (env w) n \<noteq> None" and room: "room w c (3 * length (request_entries rq w) + 1)"
  shows "\<exists>s lost w'. xrp_run_queue_command a rq w = Some (s, w') \<and>
    moves (3 * length (request_entries rq w) + 1) w c w' (lost + c) \<and> size lost \<le> 1 \<and> keeps w w' \<and>
    s \<noteq> XRP_STATUS_PENDING \<and>
    ((\<forall>n. malloc_ok (env w) n) \<longrightarrow> s = XRP_STATUS_SUCCESS \<and>
      (take 9 (the (copy_nsid (nsid q))) \<noteq> FACEID_NSID \<longrightarrow> lost = {#} \<and>
        ((\<forall>x \<in> set (request_buffers rq w). io_fd x \<noteq> - 1) \<longrightarrow>
          (\<exists>l. log w' = log w @ Ioctl_queue (dev_fd dev) (request_query q rq w) # l \<and>
               (\<forall>k \<in> set l. cleanup_call k)))))"
proof -
  let ?n = "length (request_entries rq w)" and ?xs = "request_buffers rq w"
  note rb = request_buffers_ok [OF ok g]
  show ?thesis
  proof (cases "0 < ?n \<and> \<not> malloc_ok (env w) (ticks w)")
    case True
    let ?w1 = "w\<lparr>ticks := Suc (ticks w)\<rparr>"
    have "xrp_run_queue_command a rq w = Some (XRP_STATUS_FAILURE, ?w1)"
      using True q rb(1) by (simp add: xrp_run_queue_command_def ask_def)
    moreover have "moves (3 * ?n + 1) w c ?w1 ({#} + c)" using moves_mono [OF moves_refl [OF ok]] by simp
    ultimately show ?thesis using True
      by (intro exI [of _ XRP_STATUS_FAILURE] exI [of _ "{#}"] exI [of _ ?w1]) auto
  next
    case False
    define w1 where "w1 = (if 0 < ?n then w\<lparr>ticks := Suc (ticks w)\<rparr> else w)"
    have w1: "(if 0 < ?n then ask malloc_ok w else (True, w)) = (True, w1)"
      using False by (auto simp: w1_def ask_def)
    have same: "world_ok w1 c" "env w1 = env w" "held w1 c d" "kinds w1 = kinds w" "log w1 = log w"
      "room w1 c = room w c" "moves k w1 c = moves k w c" "keeps w1 = keeps w" "heap w1 = heap w" for k
      using ok d(1) by (auto simp: w1_def fun_eq_iff)
    have get1: "get_queue a w1 = Some q" "get_device d w1 = Some dev"
      using q(1) d(2) same(9) by (simp_all add: get_queue_def get_device_def)
    have cb: "client_buffer b i w1 = client_buffer b i w" for b i
      using same(9) by (simp add: client_buffer_def get_group_def get_buffer_def)
    let ?in = "client_inout (rq_in_data rq) (rq_in_data_fd rq) (rq_in_data_size rq)"
    let ?out = "client_inout (rq_out_data rq) (rq_out_data_fd rq) (rq_out_data_size rq)"
    have len: "length ?xs = ?n" by (simp add: request_buffers_def)
    have T: "take ?n ?xs = ?xs" and room1: "room w1 c (3 * ?n + 1)" using len room same(6) by simp_all
    have "kinds w1 d = Some K_Device" using d(2) same(4)
      by (auto simp: get_device_def kinds_def split: option.splits body.splits)
    then have req: "direct_request_ok w1 c d (nsid q) ?in ?xs ?n"
      using nm same(2,3) ion len by (auto simp: direct_request_ok_def name_ok_def servable_def)
    obtain r lost w' where s: "sprd_vdsp_send_command_directly d (nsid q) ?in ?out ?xs ?n (word_of_int (q_priority q)) w1 = Some (r, w')"
      "moves (3 * ?n + 1) w c w' (lost + c)" "size lost \<le> 1" "keeps w w'"
      "(\<forall>n. malloc_ok (env w) n) \<and> take 9 (the (copy_nsid (nsid q))) \<noteq> FACEID_NSID \<longrightarrow> lost = {#} \<and>
        ((\<forall>x \<in> set ?xs. io_fd x \<noteq> - 1) \<longrightarrow>
         (\<exists>l. log w' = log w @ Ioctl_queue (dev_fd dev) (request_query q rq w) # l \<and> (\<forall>k \<in> set l. cleanup_call k)))"
      using send_directly_ok [OF same(1) req room1 get1(2), of ?out "word_of_int (q_priority q)"]
      unfolding same(2,5,7,8) request_query_def T by blast
    have "xrp_run_queue_command a rq w = Some (XRP_STATUS_SUCCESS, w')"
      using rb(1) rb(2) [folded cb] q(2) get1(1) w1 s(1) q(1)
      by (cases r) (simp_all add: xrp_run_queue_command_def sprd_cavdsp_send_cmd_direct_def split del: if_split)
    then show ?thesis using s(2-5) len by (intro exI conjI) auto
  qed
qed

section \<open>Releasing on the worker\<close>

lemma get_queueE:
  assumes "get_queue a w = Some q"
  obtains obj where "heap w a = Some obj" and "contents obj = Queue q"
  using assms by (auto simp: get_queue_def split: option.splits body.splits)

lemma get_eventE:
  assumes "get_event a w = Some e"
  obtains obj where "heap w a = Some obj" and "contents obj = Event e"
  using assms by (auto simp: get_event_def split: option.splits body.splits)

lemma get_queue_kind: "get_queue a w = Some q \<Longrightarrow> kinds w a = Some K_Queue"
  by (auto simp: kinds_def elim: get_queueE)

lemma get_event_kind: "get_event a w = Some e \<Longrightarrow> kinds w a = Some (K_Event (ev_queue e))"
  by (auto simp: kinds_def elim: get_eventE)

lemma keeps_queue: "alters A w w' \<Longrightarrow> a \<notin> A \<Longrightarrow> get_queue a w = Some q \<Longrightarrow> get_queue a w' = Some q"
  unfolding alters_def by (metis get_queueE getters(4) pinned.simps(1))

lemma keeps_event: "alters A w w' \<Longrightarrow> a \<notin> A \<Longrightarrow> get_event a w = Some e \<Longrightarrow> get_event a w' = Some e"
  unfolding alters_def by (metis get_eventE getters(5) pinned.simps(2))

text \<open>
  What is left of a queue after its worker may have released the last reference: the queue itself, or
  nothing, and then the references of its pending requests are lost.
\<close>

definition queue_left :: "addr \<Rightarrow> xrp_queue \<Rightarrow> world \<Rightarrow> addr multiset \<Rightarrow> bool" where
  "queue_left a q w lost \<longleftrightarrow>
     (if heap w a = None then lost = pending_refs (pending q) else lost = {#} \<and> get_queue a w = Some q)"

lemma release_queue_self:
  assumes ok: "world_ok w (add_mset a c)" and q: "get_queue a w = Some q" and self: "destroy a = Some"
  shows "\<exists>w' lost. release_queue_with destroy a w = Some w' \<and> moves 0 w (add_mset a c) w' (lost + c) \<and>
    alters {a} w w' \<and> quiet w w' \<and> queue_left a q w' lost"
proof -
  obtain obj where h: "heap w a = Some obj" "contents obj = Queue q" using q by (rule get_queueE)
  from ok h(1) show ?thesis
  proof (cases rule: release_cases)
    case (more w')
    have "keeps w w'" using h(1) more(6) moves_next [OF more(3)] by (rule keeps_count)
    then have "alters {a} w w'" by (rule alters_mono) simp
    then show ?thesis using more h by (intro exI [of _ w'] exI [of _ "{#}"])
        (simp add: release_queue_with_def quiet_same queue_left_def)
  next
    case (last w1)
    obtain d where d: "q_device q = Some d" "kinds w1 d = Some K_Device" using last(5,7) h(2) by auto
    let ?c = "pending_refs (pending q) + c"
    have g: "get_queue a w1 = Some q" and s1: "keeps w w1"
      using last(6,8) h by (auto simp: evolves_def intro: keeps_count)
    have dy: "dying w1 a = Some (obj\<lparr>ref_count := 0\<rparr>)" using last(6) by (simp add: dying_def)
    have c: "c + body_refs (contents obj) = add_mset d ?c" using h(2) d(1) by (simp add: ac_simps)
    obtain w2 where w2: "xrp_release_device d w1 = Some w2" "moves 0 w1 (add_mset d ?c) w2 ?c" "keeps w1 w2" "quiet w1 w2"
      using release_device_ok [OF _ d(2), of ?c] last(3) unfolding c by blast
    from release_finish [OF last(8,9) w2(2) dy last(10) [unfolded c]] obtain w' where
      w': "free_object a w2 = Some w'" "moves 0 w (add_mset a c) w' ?c" "heap w' = (heap w2)(a := None)"
      "log w' = log w2" by blast
    have "next_addr w2 \<le> next_addr w'" using w'(1) by (auto simp: free_object_def split: if_splits)
    then have "alters {a} w2 w'" using alters_put [OF w'(3)] by simp
    then have "alters {a} w w'" using s1 w2(3) by (meson alters_trans alters_mono empty_subsetI)
    moreover have "quiet w w'" using w2(4) last(4) w'(4) by (simp add: quiet_def)
    ultimately show ?thesis using last(1) g w2(1) w' d(1) self
      by (intro exI [of _ w'] exI [of _ "pending_refs (pending q)"]) (simp add: release_queue_with_def queue_left_def)
  qed
qed

lemma release_event_self:
  assumes ok: "world_ok w (add_mset e c)" and e: "get_event e w = Some ev" "ev_queue ev = Some a"
    and q: "get_queue a w = Some q" and self: "destroy a = Some"
  shows "\<exists>w' lost. release_event_with destroy e w = Some w' \<and> moves 0 w (add_mset e c) w' (lost + c) \<and>
    alters {a, e} w w' \<and> quiet w w' \<and> queue_left a q w' lost \<and> (e \<in># c \<longrightarrow> get_event e w' = Some ev)"
proof -
  obtain obj where h: "heap w e = Some obj" "contents obj = Event ev" using e(1) by (rule get_eventE)
  have ae: "a \<noteq> e" using get_queue_kind [OF q] get_event_kind [OF e(1)] by auto
  from ok h(1) show ?thesis
  proof (cases rule: release_cases)
    case (more w')
    have k: "keeps w w'" using h(1) more(6) moves_next [OF more(3)] by (rule keeps_count)
    then have "alters {a, e} w w'" by (rule alters_mono) simp
    moreover have "get_queue a w' = Some q" "heap w' a \<noteq> None"
      using keeps_queue [OF k _ q] by (auto elim: get_queueE)
    ultimately show ?thesis using more h ae by (intro exI [of _ w'] exI [of _ "{#}"])
        (auto simp: release_event_with_def quiet_same queue_left_def)
  next
    case (last w1)
    have g: "get_event e w1 = Some ev" and q1: "get_queue a w1 = Some q" and s1: "keeps w w1"
      using last(6,8) h ae q by (auto simp: evolves_def get_queue_def intro: keeps_count)
    have dy: "dying w1 e = Some (obj\<lparr>ref_count := 0\<rparr>)" using last(6) by (simp add: dying_def)
    have c: "c + body_refs (contents obj) = add_mset a c" using h(2) e(2) by simp
    obtain w2 lost where w2: "release_queue_with destroy a w1 = Some w2" "moves 0 w1 (add_mset a c) w2 (lost + c)"
      "alters {a} w1 w2" "quiet w1 w2" "queue_left a q w2 lost"
      using release_queue_self [where destroy = destroy, OF last(3) [unfolded c] q1 self] by blast
    from release_finish [OF last(8,9) w2(2) dy last(10) [unfolded c]] obtain w' where
      w': "free_object e w2 = Some w'" "moves 0 w (add_mset e c) w' (lost + c)" "heap w' = (heap w2)(e := None)"
      "log w' = log w2" by blast
    have "next_addr w2 \<le> next_addr w'" using w'(1) by (auto simp: free_object_def split: if_splits)
    then have "alters {a, e} w2 w'" using alters_put [OF w'(3)] by simp
    then have "alters {a, e} w w'" using s1 w2(3) by (meson alters_trans alters_mono empty_subsetI insert_mono subset_insertI2)
    moreover have "quiet w w'" using w2(4) last(4) w'(4) by (simp add: quiet_def)
    moreover have "queue_left a q w' lost"
      using w2(5) w'(3) ae by (auto simp: queue_left_def get_queue_def)
    moreover have "e \<notin># c" using world_ok_alive [OF last(3), of e] last(6) by auto
    ultimately show ?thesis using last(1) g w2(1) w' e(2)
      by (intro exI [of _ w'] exI [of _ lost]) (simp add: release_event_with_def)
  qed
qed

lemma destroy_self: "xrp_queue_destroy n (Some a) a = Some"
  by (cases n) (auto simp: fun_eq_iff)

section \<open>One round of the worker\<close>

lemma request_refs_groups:
  "request_ok K a rq \<Longrightarrow> kinds w = K \<Longrightarrow> group_held w (request_refs rq + c) rq"
  by (auto simp: request_ok_def group_held_def request_refs_def)

text \<open>The event is told the status and then released.\<close>

lemma finish_event:
  assumes ok: "world_ok w (ptr_refs p + c)" and p: "\<forall>e. p = Some e \<longrightarrow> kinds w e = Some (K_Event (Some a))"
    and q: "get_queue a w = Some q" and self: "destroy a = Some"
  shows "\<exists>w' lost. (case p of
        None \<Rightarrow> Some w
      | Some event \<Rightarrow> do {
          e \<leftarrow> get_event event w;
          w3 \<leftarrow> put event (Event (e\<lparr>ev_status := s\<rparr>)) w;
          release_event_with destroy event w3
        }) = Some w' \<and> moves 0 w (ptr_refs p + c) w' (lost + c) \<and> alters (insert a (set_option p)) w w' \<and> quiet w w' \<and>
      queue_left a q w' lost \<and>
      (\<forall>e. p = Some e \<longrightarrow> e \<in># c \<longrightarrow> xrp_event_status e w' = Some s)"
proof (cases p)
  case None
  have "heap w a \<noteq> None" using q by (auto elim: get_queueE)
  with None ok q show ?thesis
    by (intro exI [of _ w] exI [of _ "{#}"]) (auto simp: moves_refl quiet_same queue_left_def)
next
  case (Some e)
  obtain obj ev where h: "heap w e = Some obj" "contents obj = Event ev" "ev_queue ev = Some a"
    using p Some by (auto elim: event_kindE)
  have ae: "a \<noteq> e" using get_queue_kind [OF q] p Some by auto
  let ?ev = "ev\<lparr>ev_status := s\<rparr>"
  have ok': "world_ok w (add_mset e c)" using ok Some by simp
  have live: "ref_count obj \<noteq> 0" using world_ok_alive [OF ok' h(1)] by simp
  have "body_ok (kinds w) e (Event ?ev)" using world_ok_body [OF ok' h(1) live] h(2) by simp
  from moves_put [OF ok' h(1) live _ _ this, of "add_mset e c"] h(2) obtain w1 where
    w1: "put e (Event ?ev) w = Some w1" "moves 0 w (add_mset e c) w1 (add_mset e c)"
    "heap w1 = (heap w)(e \<mapsto> obj\<lparr>contents := Event ?ev\<rparr>)" "log w1 = log w" by auto
  have e1: "get_event e w1 = Some ?ev" and q1: "get_queue a w1 = Some q"
    using w1(3) ae q by (simp_all add: get_queue_def)
  obtain w' lost where w': "release_event_with destroy e w1 = Some w'" "moves 0 w1 (add_mset e c) w' (lost + c)"
    "alters {a, e} w1 w'" "quiet w1 w'" "queue_left a q w' lost" "e \<in># c \<longrightarrow> get_event e w' = Some ?ev"
    using release_event_self [where destroy = destroy, OF moves_ok [OF w1(2)] e1 _ q1 self] h(3) by auto
  have "alters {a, e} w w1" using alters_put [OF w1(3) moves_next [OF w1(2)]] by simp
  then have "alters {a, e} w w'" using w'(3) by (rule alters_trans)
  moreover have "quiet w w'" using w'(4) w1(4) by (simp add: quiet_def)
  moreover have "moves 0 w (add_mset e c) w' (lost + c)" using moves_trans [OF w1(2) w'(2)] by simp
  ultimately show ?thesis using Some h w1(1) w'(1,5,6)
    by (intro exI [of _ w'] exI [of _ lost]) (simp add: xrp_event_status_def)
qed

lemma release_group_option:
  assumes ok: "world_ok w (ptr_refs p + c)" and k: "\<forall>g. p = Some g \<longrightarrow> kinds w g = Some K_Group"
  shows "\<exists>w'. (case p of None \<Rightarrow> Some w | Some g \<Rightarrow> xrp_release_buffer_group g w) = Some w' \<and>
    moves 0 w (ptr_refs p + c) w' c \<and> keeps w w' \<and> quiet w w'"
proof (cases p)
  case (Some g)
  with ok k release_group_ok [of w g c] show ?thesis by simp
qed (use ok in \<open>simp add: moves_refl quiet_same\<close>)

text \<open>Running a request, given the references it carries.\<close>

lemma request_process_ok:
  assumes ok: "world_ok w (request_refs rq + c)" and q: "get_queue a w = Some q" and live: "a \<in># request_refs rq + c + heap_refs (heap w)"
    and rq: "request_ok (kinds w) a rq" and nm: "name_ok q rq" and ion: "\<forall>n. ion_mem (env w) n \<noteq> None"
    and room: "room w (request_refs rq + c) (3 * length (request_entries rq w) + 1)" and self: "destroy a = Some"
  shows "\<exists>s w' junk lost. xrp_request_process destroy a rq w = Some w' \<and>
    moves (3 * length (request_entries rq w) + 1) w (request_refs rq + c) w' (lost + junk + c) \<and>
    alters (insert a (set_option (rq_event rq))) w w' \<and> queue_left a q w' lost \<and> size junk \<le> 1 \<and>
    s \<noteq> XRP_STATUS_PENDING \<and> (\<forall>e. rq_event rq = Some e \<longrightarrow> e \<in># c \<longrightarrow> xrp_event_status e w' = Some s) \<and>
    ((\<forall>n. malloc_ok (env w) n) \<longrightarrow> s = XRP_STATUS_SUCCESS \<and>
      (take 9 (the (copy_nsid (nsid q))) \<noteq> FACEID_NSID \<longrightarrow> junk = {#} \<and>
        ((\<forall>x \<in> set (request_buffers rq w). io_fd x \<noteq> - 1) \<longrightarrow>
          (\<exists>d dev l. q_device q = Some d \<and> get_device d w = Some dev \<and>
             log w' = log w @ Ioctl_queue (dev_fd dev) (request_query q rq w) # l \<and> (\<forall>k \<in> set l. cleanup_call k)))))"
proof -
  obtain obj where h: "heap w a = Some obj" "contents obj = Queue q" using q by (rule get_queueE)
  have rc: "ref_count obj \<noteq> 0" using world_ok_alive [OF ok h(1)] live by simp
  obtain d where d: "q_device q = Some d" "kinds w d = Some K_Device"
    using world_ok_body [OF ok h(1) rc] h(2) by auto
  then obtain dev where dev: "get_device d w = Some dev" by (auto elim: device_kindE)
  have hd: "held w (request_refs rq + c) d" using h rc d(1) by (auto simp: held_def)
  note gh = request_refs_groups [OF rq refl, of c]
  let ?k = "3 * length (request_entries rq w) + 1"
  obtain s junk w1 where w1: "xrp_run_queue_command a rq w = Some (s, w1)"
    "moves ?k w (request_refs rq + c) w1 (junk + (request_refs rq + c))" "size junk \<le> 1" "keeps w w1"
    "s \<noteq> XRP_STATUS_PENDING"
    "(\<forall>n. malloc_ok (env w) n) \<longrightarrow> s = XRP_STATUS_SUCCESS \<and>
      (take 9 (the (copy_nsid (nsid q))) \<noteq> FACEID_NSID \<longrightarrow> junk = {#} \<and>
        ((\<forall>x \<in> set (request_buffers rq w). io_fd x \<noteq> - 1) \<longrightarrow>
          (\<exists>l. log w1 = log w @ Ioctl_queue (dev_fd dev) (request_query q rq w) # l \<and>
               (\<forall>k \<in> set l. cleanup_call k))))"
    using run_queue_command_ok [OF ok q d(1) hd dev gh nm ion room] by blast
  let ?c1 = "ptr_refs (rq_event rq) + (junk + c)"
  have c1: "junk + (request_refs rq + c) = ptr_refs (rq_buffer_group rq) + ?c1"
    by (simp add: request_refs_def ac_simps)
  have ok1: "world_ok w1 (ptr_refs (rq_buffer_group rq) + ?c1)" using moves_ok [OF w1(2)] unfolding c1 .
  have kept: "kinds w1 x = kinds w x" if "x \<in># request_refs rq" for x
    using moves_kind [OF w1(2) ok, of x] that by simp
  have kg: "\<forall>g. rq_buffer_group rq = Some g \<longrightarrow> kinds w1 g = Some K_Group"
    using rq kept by (auto simp: request_ok_def request_refs_def)
  obtain w2 where w2: "(case rq_buffer_group rq of None \<Rightarrow> Some w1 | Some g \<Rightarrow> xrp_release_buffer_group g w1) = Some w2"
    "moves 0 w1 (ptr_refs (rq_buffer_group rq) + ?c1) w2 ?c1" "keeps w1 w2" "quiet w1 w2"
    using release_group_option [OF ok1 kg] by blast
  have ke: "\<forall>e. rq_event rq = Some e \<longrightarrow> kinds w2 e = Some (K_Event (Some a))"
    using rq kept moves_kind [OF w2(2) ok1] by (auto simp: request_ok_def request_refs_def)
  have q2: "get_queue a w2 = Some q" using keeps_queue [OF w2(3) _ keeps_queue [OF w1(4) _ q]] by simp
  obtain w3 lost where w3: "(case rq_event rq of
        None \<Rightarrow> Some w2
      | Some event \<Rightarrow> do {
          e \<leftarrow> get_event event w2;
          w3 \<leftarrow> put event (Event (e\<lparr>ev_status := s\<rparr>)) w2;
          release_event_with destroy event w3
        }) = Some w3" "moves 0 w2 ?c1 w3 (lost + (junk + c))" "alters (insert a (set_option (rq_event rq))) w2 w3"
      "quiet w2 w3" "queue_left a q w3 lost"
      "\<forall>e. rq_event rq = Some e \<longrightarrow> e \<in># junk + c \<longrightarrow> xrp_event_status e w3 = Some s"
    using finish_event [where destroy = destroy and s = s, OF moves_ok [OF w2(2)] ke q2 self] by blast
  have "xrp_request_process destroy a rq w = Some w3" using w1(1) w2(1) w3(1) by (simp add: xrp_request_process_def)
  moreover have "moves ?k w (request_refs rq + c) w3 (lost + junk + c)"
    using moves_trans [OF w1(2) [unfolded c1] moves_trans [OF w2(2) w3(2)]] by (simp add: ac_simps)
  moreover have "alters (insert a (set_option (rq_event rq))) w w3"
    using w1(4) w2(3) w3(3) by (meson alters_trans alters_mono empty_subsetI)
  moreover have "quiet w1 w3" using w2(4) w3(4) by (rule quiet_trans)
  moreover have "\<exists>l. log w3 = log w @ Ioctl_queue (dev_fd dev) (request_query q rq w) # l \<and> (\<forall>k \<in> set l. cleanup_call k)"
    if "\<exists>l. log w1 = log w @ Ioctl_queue (dev_fd dev) (request_query q rq w) # l \<and> (\<forall>k \<in> set l. cleanup_call k)"
    using that \<open>quiet w1 w3\<close> by (fastforce simp: quiet_def)
  ultimately show ?thesis using w1(3,5,6) w3(5,6) d(1) dev
    by (intro exI [of _ s] exI [of _ w3] exI [of _ junk] exI [of _ lost]) (auto simp: ac_simps)
qed

end
