(* ===== verification/Command_Run.thy ===== *)
theory Command_Run
  imports Command_Queue
begin

text \<open>
  Submitting and running commands: \<open>xrp_enqueue_command\<close>, the worker's rounds, \<open>xrp_wait\<close> and
  \<open>xrp_run_command_sync\<close> of \<open>xrp_linux.c\<close>, \<open>xrp_threaded_queue.c\<close> and \<open>xrp_host_common.c\<close>, with the
  properties of command queues.
\<close>

section \<open>Enqueueing\<close>

definition enqueue_ok :: "world \<Rightarrow> addr multiset \<Rightarrow> bytes option \<Rightarrow> u64 \<Rightarrow> ptr \<Rightarrow> bool" where
  "enqueue_ok w c in_data in_size grp \<longleftrightarrow>
     (in_size \<noteq> 0 \<longrightarrow> (\<exists>src. in_data = Some src \<and> unat in_size \<le> length src)) \<and>
     (\<forall>g. grp = Some g \<longrightarrow> g \<in># c \<and> kinds w g = Some K_Group)"

text \<open>The request the call appends.\<close>

definition new_request :: "bytes option \<Rightarrow> int \<Rightarrow> u64 \<Rightarrow> hptr \<Rightarrow> int \<Rightarrow> u64 \<Rightarrow> ptr \<Rightarrow> ptr \<Rightarrow> xrp_request" where
  "new_request in_data in_fd in_size out_data out_fd out_size grp evt =
     \<lparr>rq_in_data = H_Data (if in_size = 0 then [] else take (unat in_size) (the in_data)),
      rq_in_data_size = in_size, rq_in_data_fd = in_fd,
      rq_out_data = out_data, rq_out_data_size = out_size, rq_out_data_fd = out_fd,
      rq_buffer_group = grp, rq_event = evt\<rparr>"

lemma enqueue_copy:
  assumes "enqueue_ok w c in_data in_size grp"
  shows "(if in_size = 0 then Some []
          else do { src \<leftarrow> in_data; memcpy_at (replicate (unat in_size) 0) 0 src (unat in_size) }) =
    Some (if in_size = 0 then [] else take (unat in_size) (the in_data))"
  using assms by (auto simp: enqueue_ok_def memcpy_at_def)

text \<open>The event of a request: created, tied to its queue, and held once by the caller and once by the request.\<close>

definition pending_event :: "addr \<Rightarrow> xrp_event" where
  "pending_event a = \<lparr>ev_queue = Some a, ev_status = XRP_STATUS_PENDING\<rparr>"

lemma new_event_moves:
  assumes ok: "world_ok w c" and a: "a \<in># c" "get_queue a w = Some q" and room: "room w c 3"
    and qo: "heap w a = Some qo" and e: "e = next_addr w"
    and w': "w' = w\<lparr>ticks := t, next_addr := Suc e,
                     heap := (heap w)(a \<mapsto> qo\<lparr>ref_count := ref_count qo + 1\<rparr>,
                                      e \<mapsto> \<lparr>ref_count = 2, contents = Event (pending_event a)\<rparr>)\<rparr>"
  shows "moves 3 w c w' (add_mset e (add_mset e c))" and "keeps w w'"
proof -
  have "room w c 1" using room by (simp add: room_def)
  from moves_retain [OF ok _ this, of a] a(1) qo obtain wa where
    wa: "moves 1 w c wa (add_mset a c)" "kinds wa = kinds w"
      "wa = w\<lparr>heap := (heap w)(a \<mapsto> qo\<lparr>ref_count := ref_count qo + 1\<rparr>)\<rparr>"
    by (auto simp: retain_refcounted_def)
  let ?wb = "wa\<lparr>ticks := t, heap := (heap wa)(e \<mapsto> \<lparr>ref_count = 1, contents = Event (pending_event a)\<rparr>), next_addr := Suc e\<rparr>"
  have mb: "moves 1 wa (add_mset a c) ?wb (add_mset e c)" and kb: "keeps wa ?wb"
    using created_new [of wa c "Event (pending_event a)" ?wb] moves_ok [OF wa(1)] wa(2,3) get_queue_kind [OF a(2)] e
    by (simp_all add: pending_event_def)
  have m2: "moves 2 w c ?wb (add_mset e c)" using moves_trans [OF wa(1) mb] by (simp only: one_add_one)
  have "room ?wb (add_mset e c) 1" using moves_room [OF m2, of 1] room by (simp add: numeral_eq_Suc)
  from moves_retain [OF moves_ok [OF mb] _ this, of e] obtain wc where
    wc: "moves 1 ?wb (add_mset e c) wc (add_mset e (add_mset e c))"
      "wc = ?wb\<lparr>heap := (heap ?wb)(e \<mapsto> \<lparr>ref_count = 2, contents = Event (pending_event a)\<rparr>)\<rparr>"
    by (auto simp: retain_refcounted_def)
  have "wc = w'" using wc(2) wa(3) w' by simp
  then show "moves 3 w c w' (add_mset e (add_mset e c))"
    using moves_trans [OF m2 wc(1)] by (simp add: numeral_eq_Suc)
  have "keeps w wa" using keeps_count [OF qo _ moves_next [OF wa(1)]] wa(3) by simp
  moreover have "keeps ?wb wc" using keeps_count [of ?wb e] wc(2) by simp
  ultimately show "keeps w w'" using kb \<open>wc = w'\<close> by (meson alters_trans)
qed

lemma enqueue_event_ok:
  assumes ok: "world_ok w c" and a: "a \<in># c" "get_queue a w = Some q" and room: "room w c 3"
  obtains (failed) w' where "enqueue_event a want w = Some (None, True, w')" and "moves 0 w c w' c"
      and "heap w' = heap w" and "log w' = log w" and "\<not> (\<forall>n. malloc_ok (env w) n)"
  | (made) r w' where "enqueue_event a want w = Some (r, False, w')" and "r \<noteq> None \<longleftrightarrow> want"
      and "moves 3 w c w' (ptr_refs r + (ptr_refs r + c))" and "keeps w w'" and "log w' = log w"
      and "\<forall>e. r = Some e \<longrightarrow> next_addr w \<le> e \<and> get_event e w' = Some (pending_event a)"
proof (cases want)
  case False
  have "moves 3 w c w c" using moves_mono [OF moves_refl [OF ok]] by simp
  with False show thesis by (intro made [of None w]) (simp_all add: enqueue_event_def ptr_refs_def)
next
  case want: True
  show thesis
  proof (cases rule: alloc_cases [of "Event (zero_event\<lparr>ev_status := XRP_STATUS_PENDING\<rparr>)" w])
    case fail
    with want ok show thesis
      by (intro failed [of "w\<lparr>ticks := Suc (ticks w)\<rparr>"])
        (auto simp: enqueue_event_def xrp_event_create_def moves_refl)
  next
    case new
    let ?e = "next_addr w"
    obtain qo where qo: "heap w a = Some qo" using a(2) by (rule get_queueE)
    have ne: "a \<noteq> ?e" using world_ok_next [OF ok, of a] qo by auto
    let ?w' = "w\<lparr>ticks := Suc (ticks w), next_addr := Suc ?e,
                  heap := (heap w)(a \<mapsto> qo\<lparr>ref_count := ref_count qo + 1\<rparr>,
                                   ?e \<mapsto> \<lparr>ref_count = 2, contents = Event (pending_event a)\<rparr>)\<rparr>"
    have "enqueue_event a want w = Some (Some ?e, False, ?w')"
      using new want qo ne
      by (simp add: enqueue_event_def xrp_event_create_def xrp_retain_queue_def xrp_retain_event_def
          retain_refcounted_def put_def get_event_def zero_event_def pending_event_def fun_upd_twist)
    moreover note new_event_moves [OF ok a room qo refl refl, of "Suc (ticks w)"]
    ultimately show thesis using want
      by (intro made [of "Some ?e" ?w']) (simp_all add: ptr_refs_def get_event_def)
  qed
qed

lemma retain_group_option:
  assumes ok: "world_ok w c" and g: "\<forall>g. p = Some g \<longrightarrow> g \<in># c" and room: "room w c 1"
  shows "\<exists>w'. (case p of None \<Rightarrow> Some w | Some g \<Rightarrow> xrp_retain_buffer_group g w) = Some w' \<and>
    moves 1 w c w' (ptr_refs p + c) \<and> keeps w w' \<and> kinds w' = kinds w \<and> log w' = log w \<and>
    (\<forall>x. map_option contents (heap w' x) = map_option contents (heap w x))"
proof (cases p)
  case None
  with ok show ?thesis using moves_mono [OF moves_refl [OF ok]] by (simp add: ptr_refs_def)
next
  case (Some g)
  with g have "g \<in># c + heap_refs (heap w)" by simp
  from moves_retain [OF ok this room] obtain w' obj where w': "retain_refcounted g w = Some w'"
    "moves 1 w c w' (add_mset g c)" "kinds w' = kinds w" "heap w g = Some obj"
    "heap w' = (heap w)(g \<mapsto> obj\<lparr>ref_count := ref_count obj + 1\<rparr>)" "log w' = log w" by blast
  with Some keeps_count [OF w'(4,5) moves_next [OF w'(2)]] show ?thesis
    by (simp add: xrp_retain_buffer_group_def ptr_refs_def)
qed

text \<open>Appending a request passes the references it carries from the caller to the queue.\<close>

lemma append_request:
  assumes ok: "world_ok w (request_refs rq + c)" and q: "get_queue a w = Some q"
    and live: "a \<in># request_refs rq + c + heap_refs (heap w)" and rq: "request_ok (kinds w) a rq"
  shows "\<exists>w'. put a (Queue (q\<lparr>pending := pending q @ [rq]\<rparr>)) w = Some w' \<and> moves 0 w (request_refs rq + c) w' c \<and>
    alters {a} w w' \<and> log w' = log w \<and> get_queue a w' = Some (q\<lparr>pending := pending q @ [rq]\<rparr>) \<and>
    (\<forall>x. x \<noteq> a \<longrightarrow> heap w' x = heap w x)"
proof -
  obtain obj where h: "heap w a = Some obj" "contents obj = Queue q" using q by (rule get_queueE)
  have rc: "ref_count obj \<noteq> 0" using world_ok_alive [OF ok h(1)] live by simp
  let ?q = "q\<lparr>pending := pending q @ [rq]\<rparr>"
  have "body_ok (kinds w) a (Queue ?q)" using world_ok_body [OF ok h(1) rc] h(2) rq by simp
  moreover have "c + body_refs (Queue ?q) = request_refs rq + c + body_refs (contents obj)"
    using h(2) by (simp add: pending_refs_def ac_simps)
  ultimately obtain w' where w': "put a (Queue ?q) w = Some w'" "moves 0 w (request_refs rq + c) w' c"
    "heap w' = (heap w)(a \<mapsto> obj\<lparr>contents := Queue ?q\<rparr>)" "log w' = log w"
    using moves_put [OF ok h(1) rc, of c "Queue ?q"] h(2) by auto
  with alters_put [OF w'(3) moves_next [OF w'(2)]] show ?thesis by (auto simp: get_queue_def)
qed

lemma attach_request:
  assumes ok: "world_ok w (ptr_refs (rq_event rq) + c)" and q: "get_queue a w = Some q" "a \<in># c"
    and grp: "\<forall>g. rq_buffer_group rq = Some g \<longrightarrow> g \<in># c \<and> kinds w g = Some K_Group"
    and ev: "\<forall>e. rq_event rq = Some e \<longrightarrow> get_event e w = Some (pending_event a)"
    and room: "room w (ptr_refs (rq_event rq) + c) 1"
  shows "\<exists>w1 w2. (case rq_buffer_group rq of None \<Rightarrow> Some w | Some g \<Rightarrow> xrp_retain_buffer_group g w) = Some w1 \<and>
    get_queue a w1 = Some q \<and> put a (Queue (q\<lparr>pending := pending q @ [rq]\<rparr>)) w1 = Some w2 \<and>
    moves 1 w (ptr_refs (rq_event rq) + c) w2 c \<and> alters {a} w w2 \<and> log w2 = log w \<and>
    get_queue a w2 = Some (q\<lparr>pending := pending q @ [rq]\<rparr>) \<and>
    (\<forall>e. rq_event rq = Some e \<longrightarrow> get_event e w2 = Some (pending_event a))"
proof -
  let ?c = "ptr_refs (rq_event rq) + c"
  from retain_group_option [OF ok _ room, of "rq_buffer_group rq"] grp obtain w1 where
    w1: "(case rq_buffer_group rq of None \<Rightarrow> Some w | Some g \<Rightarrow> xrp_retain_buffer_group g w) = Some w1"
      "moves 1 w ?c w1 (ptr_refs (rq_buffer_group rq) + ?c)" "keeps w w1" "kinds w1 = kinds w" "log w1 = log w"
    by auto
  have c: "ptr_refs (rq_buffer_group rq) + ?c = request_refs rq + c" by (simp add: request_refs_def ac_simps)
  have q1: "get_queue a w1 = Some q" and e1: "\<forall>e. rq_event rq = Some e \<longrightarrow> get_event e w1 = Some (pending_event a)"
    using keeps_queue [OF w1(3) _ q(1)] keeps_event [OF w1(3)] ev by auto
  then have "request_ok (kinds w1) a rq"
    using grp w1(4) by (fastforce simp: request_ok_def pending_event_def dest: get_event_kind)
  from append_request [OF moves_ok [OF w1(2) [unfolded c]] q1 _ this] q(2) obtain w2 where
    w2: "put a (Queue (q\<lparr>pending := pending q @ [rq]\<rparr>)) w1 = Some w2" "moves 0 w1 (request_refs rq + c) w2 c"
      "alters {a} w1 w2" "log w2 = log w1" "get_queue a w2 = Some (q\<lparr>pending := pending q @ [rq]\<rparr>)"
      "\<forall>x. x \<noteq> a \<longrightarrow> heap w2 x = heap w1 x" by auto
  have "alters {a} w w2" using w1(3) w2(3) by (meson alters_trans alters_mono empty_subsetI)
  moreover have "moves 1 w ?c w2 c" using moves_trans [OF w1(2) [unfolded c] w2(2)] by simp
  moreover have "get_event e w2 = Some (pending_event a)" if "rq_event rq = Some e" for e
  proof -
    have "get_event e w1 = Some (pending_event a)" using e1 that by blast
    moreover from this have "e \<noteq> a" using get_queue_kind [OF q1] by (auto dest: get_event_kind)
    ultimately show ?thesis using w2(6) by (simp add: get_event_def)
  qed
  ultimately show ?thesis using w1(1,5) q1 w2(1,4,5) by fastforce
qed

lemma enqueue_command_ok:
  assumes ok: "world_ok w c" and a: "a \<in># c" "get_queue a w = Some q" and room: "room w c 4"
    and req: "enqueue_ok w c in_data in_size grp"
  obtains (failed) w' where
      "xrp_enqueue_command a in_data in_fd in_size out_data out_fd out_size grp want w =
         Some ((None, XRP_STATUS_FAILURE), w')"
      and "moves 0 w c w' c" and "heap w' = heap w" and "log w' = log w" and "\<not> (\<forall>n. malloc_ok (env w) n)"
  | (queued) r w' where
      "xrp_enqueue_command a in_data in_fd in_size out_data out_fd out_size grp want w =
         Some ((r, XRP_STATUS_SUCCESS), w')"
      and "r \<noteq> None \<longleftrightarrow> want" and "moves 4 w c w' (ptr_refs r + c)" and "alters {a} w w'" and "log w' = log w"
      and "get_queue a w' = Some (q\<lparr>pending := pending q @
             [new_request in_data in_fd in_size out_data out_fd out_size grp r]\<rparr>)"
      and "\<forall>e. r = Some e \<longrightarrow> next_addr w \<le> e \<and> get_event e w' = Some (pending_event a)"
proof -
  let ?call = "xrp_enqueue_command a in_data in_fd in_size out_data out_fd out_size grp want w"
  let ?w2 = "w\<lparr>ticks := Suc (Suc (ticks w))\<rparr>"
  have ok2: "world_ok ?w2 c" and room2: "room ?w2 c 3" and a2: "get_queue a ?w2 = Some q"
    using ok room a(2) by (simp_all add: room_def get_queue_def)
  define rq where "rq = new_request in_data in_fd in_size out_data out_fd out_size grp"
  show thesis
  proof (cases "malloc_ok (env w) (ticks w) \<and> (in_size \<noteq> 0 \<longrightarrow> malloc_ok (env w) (Suc (ticks w)))")
    case False
    then have "?call = Some ((None, XRP_STATUS_FAILURE), ?w2)" by (auto simp: xrp_enqueue_command_def ask_def)
    with failed False ok show thesis by (auto simp: moves_refl)
  next
    case True
    then have mem: "malloc_ok (env w) (ticks w)" "(in_size \<noteq> 0 \<and> \<not> malloc_ok (env w) (Suc (ticks w))) = False"
      by blast+
    note call = xrp_enqueue_command_def ask_def rq_def new_request_def enqueue_copy [OF req] mem Let_def
    from ok2 a(1) a2 room2 show thesis
    proof (cases rule: enqueue_event_ok [where want = want])
      case none: (failed w3)
      then have "?call = Some ((None, XRP_STATUS_FAILURE), w3)"
        by (simp add: call split del: if_split cong del: if_weak_cong)
      with none show thesis by (intro failed [of w3]) simp_all
    next
      case (made r w4)
      have q4: "get_queue a w4 = Some q" using keeps_queue [OF made(4) _ a2] by simp
      have "room w4 (ptr_refs r + (ptr_refs r + c)) 1" using moves_room [OF made(3), of 1] room2 room by simp
      moreover have "\<forall>g. grp = Some g \<longrightarrow> g \<in># ptr_refs r + c \<and> kinds w4 g = Some K_Group"
        using moves_kind [OF made(3) ok2] req by (auto simp: enqueue_ok_def)
      ultimately obtain w5 w6 where
        w6: "(case grp of None \<Rightarrow> Some w4 | Some g \<Rightarrow> xrp_retain_buffer_group g w4) = Some w5"
          "get_queue a w5 = Some q" "put a (Queue (q\<lparr>pending := pending q @ [rq r]\<rparr>)) w5 = Some w6"
          "moves 1 w4 (ptr_refs r + (ptr_refs r + c)) w6 (ptr_refs r + c)" "alters {a} w4 w6" "log w6 = log w4"
          "get_queue a w6 = Some (q\<lparr>pending := pending q @ [rq r]\<rparr>)"
          "\<forall>e. r = Some e \<longrightarrow> get_event e w6 = Some (pending_event a)"
        using attach_request [of w4 "rq r" "ptr_refs r + c" a q] moves_ok [OF made(3)] q4 a(1) made(6)
        by (auto simp: rq_def new_request_def)
      have "?call = Some ((r, XRP_STATUS_SUCCESS), w6)"
        using made(1) w6(1-3) by (simp add: call split del: if_split cong del: if_weak_cong)
      moreover have "alters {a} w w6" using made(4) w6(5) by (auto intro: alters_trans alters_mono)
      moreover have "moves 4 w c w6 (ptr_refs r + c)" using moves_trans [OF made(3) w6(4)] by simp
      ultimately show thesis using made(2,5,6) w6(6-8) by (intro queued [of r w6]) (auto simp: rq_def)
    qed
  qed
qed

section \<open>One round of the worker\<close>

text \<open>Changing a queue is not seen by requests.\<close>

lemma queue_update_others:
  assumes "heap w a = Some obj" and "contents obj = Queue q" and "heap w' = (heap w)(a \<mapsto> obj\<lparr>contents := Queue q'\<rparr>)"
  shows "get_device x w' = get_device x w" and "get_buffer x w' = get_buffer x w"
    and "get_group x w' = get_group x w" and "get_event x w' = get_event x w"
    and "request_entries rq w' = request_entries rq w" and "request_buffers rq w' = request_buffers rq w"
    and "request_query p rq w' = request_query p rq w"
proof -
  show *: "get_device x w' = get_device x w" "get_buffer x w' = get_buffer x w"
    "get_group x w' = get_group x w" "get_event x w' = get_event x w" for x
    using assms by (simp_all add: get_device_def get_buffer_def get_group_def get_event_def)
  have "entries x w' = entries x w" for x by (simp add: entries_def *)
  then show r: "request_entries rq w' = request_entries rq w"
    by (simp add: request_entries_def split: option.split)
  then show "request_buffers rq w' = request_buffers rq w" by (simp add: request_buffers_def *)
  then show "request_query p rq w' = request_query p rq w" using r by (simp add: request_query_def)
qed

lemma dequeue_ok:
  assumes ok: "world_ok w c" and q: "get_queue a w = Some q" "pending q = rq # rqs"
    and live: "a \<in># c + heap_refs (heap w)"
  obtains w1 where "dequeue_request a w = Some (Some rq, w1)" and "moves 0 w c w1 (request_refs rq + c)"
    and "alters {a} w w1" and "get_queue a w1 = Some (q\<lparr>pending := rqs\<rparr>)" and "log w1 = log w"
    and "a \<in># request_refs rq + c + heap_refs (heap w1)" and "request_ok (kinds w1) a rq"
    and "\<And>x. get_device x w1 = get_device x w" and "\<And>x. get_event x w1 = get_event x w"
    and "\<And>r. request_entries r w1 = request_entries r w" and "\<And>r. request_buffers r w1 = request_buffers r w"
    and "\<And>p r. request_query p r w1 = request_query p r w"
proof -
  obtain obj where h: "heap w a = Some obj" "contents obj = Queue q" using q(1) by (rule get_queueE)
  have rc: "ref_count obj \<noteq> 0" using world_ok_alive [OF ok h(1)] live by simp
  let ?q = "q\<lparr>pending := rqs\<rparr>"
  note body = world_ok_body [OF ok h(1) rc, unfolded h(2)]
  have "body_ok (kinds w) a (Queue ?q)" using body q(2) by simp
  moreover have "request_refs rq + c + body_refs (Queue ?q) = c + body_refs (contents obj)"
    using h(2) q(2) by (simp add: pending_refs_def ac_simps)
  ultimately obtain w1 where w1: "put a (Queue ?q) w = Some w1" "world_ok w1 (request_refs rq + c)" "evolves {} w w1"
    "kinds w1 = kinds w" "heap w1 = (heap w)(a \<mapsto> obj\<lparr>contents := Queue ?q\<rparr>)" "log w1 = log w"
    "request_refs rq + c + heap_refs (heap w1) = c + heap_refs (heap w)"
    using world_ok_put [OF ok h(1) rc, of "request_refs rq + c" "Queue ?q"] h(2) by auto
  have m: "moves 0 w c w1 (request_refs rq + c)" using w1(2,3) arg_cong [OF w1(7), of size]
    by (simp only: moves_def add_0_right order_refl simp_thms)
  note same = queue_update_others [OF h w1(5)]
  have "dequeue_request a w = Some (Some rq, w1)" using q w1(1) by (simp add: dequeue_request_def)
  moreover have "alters {a} w w1" using alters_put [OF w1(5) moves_next [OF m]] by simp
  moreover have "get_queue a w1 = Some ?q" using w1(5) by (simp add: get_queue_def)
  moreover have "a \<in># request_refs rq + c + heap_refs (heap w1)" unfolding w1(7) by (rule live)
  moreover have "request_ok (kinds w1) a rq" using body q(2) w1(4) by simp
  ultimately show thesis using m w1(6) same by (intro that [of w1])
qed

lemma queue_process_ok:
  assumes ok: "world_ok w c" and q: "get_queue a w = Some q" "pending q = rq # rqs"
    and live: "a \<in># c + heap_refs (heap w)" and nm: "name_ok q rq" and ion: "\<forall>n. ion_mem (env w) n \<noteq> None"
    and room: "room w c (3 * length (request_entries rq w) + 1)" and self: "destroy a = Some"
  shows "\<exists>s w' junk lost. queue_process_with destroy a w = Some w' \<and>
    moves (3 * length (request_entries rq w) + 1) w c w' (lost + junk + c) \<and>
    alters (insert a (set_option (rq_event rq))) w w' \<and> queue_left a (q\<lparr>pending := rqs\<rparr>) w' lost \<and> size junk \<le> 1 \<and>
    s \<noteq> XRP_STATUS_PENDING \<and> (\<forall>e. rq_event rq = Some e \<longrightarrow> e \<in># c \<longrightarrow> xrp_event_status e w' = Some s) \<and>
    ((\<forall>n. malloc_ok (env w) n) \<longrightarrow> s = XRP_STATUS_SUCCESS \<and>
      (take 9 (the (copy_nsid (nsid q))) \<noteq> FACEID_NSID \<longrightarrow> junk = {#} \<and>
        ((\<forall>x \<in> set (request_buffers rq w). io_fd x \<noteq> - 1) \<longrightarrow>
          (\<exists>d dev l. q_device q = Some d \<and> get_device d w = Some dev \<and>
             log w' = log w @ Ioctl_queue (dev_fd dev) (request_query q rq w) # l \<and> (\<forall>k \<in> set l. cleanup_call k)))))"
proof -
  let ?k = "3 * length (request_entries rq w) + 1" and ?q = "q\<lparr>pending := rqs\<rparr>"
  obtain w1 where w1: "dequeue_request a w = Some (Some rq, w1)" "moves 0 w c w1 (request_refs rq + c)"
    "alters {a} w w1" "get_queue a w1 = Some ?q" "log w1 = log w"
    "a \<in># request_refs rq + c + heap_refs (heap w1)" "request_ok (kinds w1) a rq"
    "\<And>x. get_device x w1 = get_device x w" "\<And>r. request_entries r w1 = request_entries r w"
    "\<And>r. request_buffers r w1 = request_buffers r w" "\<And>p r. request_query p r w1 = request_query p r w"
    using dequeue_ok [OF ok q live] by metis
  have env1: "env w1 = env w" using w1(2) by (rule moves_env)
  have nm1: "name_ok ?q rq" using nm by (simp add: name_ok_def)
  have room1: "room w1 (request_refs rq + c) (3 * length (request_entries rq w1) + 1)"
    using moves_room [OF w1(2), of ?k] room w1(9) by simp
  have qq: "request_query ?q rq w = request_query q rq w" by (simp add: request_query_def)
  obtain s w' junk lost where p: "xrp_request_process destroy a rq w1 = Some w'"
    "moves ?k w1 (request_refs rq + c) w' (lost + junk + c)" "alters (insert a (set_option (rq_event rq))) w1 w'"
    "queue_left a ?q w' lost" "size junk \<le> 1" "s \<noteq> XRP_STATUS_PENDING"
    "\<forall>e. rq_event rq = Some e \<longrightarrow> e \<in># c \<longrightarrow> xrp_event_status e w' = Some s"
    "(\<forall>n. malloc_ok (env w) n) \<longrightarrow> s = XRP_STATUS_SUCCESS \<and>
      (take 9 (the (copy_nsid (nsid q))) \<noteq> FACEID_NSID \<longrightarrow> junk = {#} \<and>
        ((\<forall>x \<in> set (request_buffers rq w). io_fd x \<noteq> - 1) \<longrightarrow>
          (\<exists>d dev l. q_device q = Some d \<and> get_device d w = Some dev \<and>
             log w' = log w @ Ioctl_queue (dev_fd dev) (request_query q rq w) # l \<and> (\<forall>k \<in> set l. cleanup_call k))))"
    using request_process_ok [where destroy = destroy, OF moves_ok [OF w1(2)] w1(4,6,7) nm1 _ room1 self] ion
    unfolding env1 w1(5,8-11) qq by (simp, blast)
  have "alters (insert a (set_option (rq_event rq))) w w'"
    using alters_mono [OF w1(3)] p(3) by (blast intro: alters_trans)
  moreover have "moves ?k w c w' (lost + junk + c)" using moves_trans [OF w1(2) p(2)] by simp
  moreover have "queue_process_with destroy a w = Some w'" using w1(1) p(1) by (simp add: queue_process_with_def)
  ultimately show ?thesis using p(4-8) by blast
qed

section \<open>Waiting for an event\<close>

text \<open>What a list of requests costs in references, and a queue whose commands take the ordinary path.\<close>

definition run_cost :: "world \<Rightarrow> xrp_request list \<Rightarrow> nat" where
  "run_cost w rqs = sum_list (map (\<lambda>rq. 3 * length (request_entries rq w) + 1) rqs)"

definition plain_name :: "xrp_queue \<Rightarrow> bool" where
  "plain_name q \<longleftrightarrow> (\<exists>id. copy_nsid (nsid q) = Some id \<and> take 9 id \<noteq> FACEID_NSID)"

lemma plain_name_ok: "plain_name q \<Longrightarrow> name_ok q rq"
  by (auto simp: plain_name_def name_ok_def)

lemma queue_live:
  assumes "world_ok w c" and "a \<in># c + heap_refs (heap w)" and "get_queue a w = Some q"
  shows "body_ok (kinds w) a (Queue q)"
  using assms by (metis get_queueE world_ok_alive world_ok_body)

text \<open>A request that is still pending sees the same buffers as before.\<close>

lemma entries_alters:
  assumes ok: "world_ok w c" and al: "alters A w w'" and g: "g \<notin> A" "kinds w g = Some K_Group" "kinds w' g = Some K_Group"
  shows "entries g w' = entries g w"
proof -
  obtain obj gr obj' gr' where h: "heap w g = Some obj" "contents obj = Group gr"
    "heap w' g = Some obj'" "contents obj' = Group gr'" using g(2,3) by (meson group_kindE)
  have "contents obj' = contents obj"
    using alters_contents [OF al g(1) h(1) _ h(3)] world_ok_next [OF ok, of g] h(1) by blast
  with h show ?thesis by (simp add: entries_def)
qed

lemma pending_entries_kept:
  assumes ok: "world_ok w c" and al: "alters A w w'" and A: "\<And>g. kinds w g = Some K_Group \<Longrightarrow> g \<notin> A"
    and b: "body_ok (kinds w) a (Queue q)" "body_ok (kinds w') a (Queue q')"
    and rq: "rq \<in> set (pending q)" "rq \<in> set (pending q')"
  shows "request_entries rq w' = request_entries rq w"
  using assms entries_alters [OF ok al]
  by (cases "rq_buffer_group rq") (auto simp: request_ok_def request_entries_def)

text \<open>A queue is in use as long as somebody has a reference to it, or to one of its events.\<close>

definition queue_used :: "world \<Rightarrow> addr multiset \<Rightarrow> addr \<Rightarrow> bool" where
  "queue_used w c a \<longleftrightarrow> a \<in># c \<or> (\<exists>e \<in># c. kinds w e = Some (K_Event (Some a)))"

lemma queue_used_direct: "a \<in># c \<Longrightarrow> queue_used w c a"
  by (simp add: queue_used_def)

lemma queue_used_event: "get_event e w = Some ev \<Longrightarrow> ev_queue ev = Some a \<Longrightarrow> e \<in># c \<Longrightarrow> queue_used w c a"
  using get_event_kind [of e w ev] by (auto simp: queue_used_def)

lemma queue_used_live:
  assumes ok: "world_ok w c'" and sub: "c \<subseteq># c'" and a: "queue_used w c a"
  shows "a \<in># c + heap_refs (heap w)"
proof (cases "a \<in># c")
  case False
  with a obtain e where e: "e \<in># c" "kinds w e = Some (K_Event (Some a))" by (auto simp: queue_used_def)
  from e(2) obtain obj ev where h: "heap w e = Some obj" "contents obj = Event ev" "ev_queue ev = Some a"
    by (rule event_kindE)
  have "e \<in># c'" using e(1) sub by (rule mset_subset_eqD [rotated])
  then have "ref_count obj \<noteq> 0" using world_ok_alive [OF ok h(1)] by simp
  then have "a \<in># heap_refs (heap w)"
    using in_heap_refs [of "heap w" e obj a] ok h by (simp add: world_ok_def owns_def)
  then show ?thesis by simp
qed simp

lemma queue_used_kept:
  assumes m: "moves k w c w' (d + c)" and ok: "world_ok w c" and a: "queue_used w c a"
  shows "queue_used w' (d + c) a"
proof (cases "a \<in># c")
  case False
  with a obtain e where e: "e \<in># c" "kinds w e = Some (K_Event (Some a))" by (auto simp: queue_used_def)
  then have "kinds w' e = Some (K_Event (Some a))" using moves_kind [OF m ok] by simp
  with e(1) show ?thesis by (auto simp: queue_used_def)
qed (simp add: queue_used_def)

lemma queue_round_held:
  assumes ok: "world_ok w c" and a: "queue_used w c a" and q: "get_queue a w = Some q" "pending q = rq # rqs"
    and nm: "plain_name q" and ion: "\<forall>n. ion_mem (env w) n \<noteq> None"
    and room: "room w c (3 * length (request_entries rq w) + 1)"
  obtains s w' junk where "xrp_queue_process a w = Some w'"
    and "moves (3 * length (request_entries rq w) + 1) w c w' (junk + c)" and "size junk \<le> 1"
    and "alters (insert a (set_option (rq_event rq))) w w'" and "get_queue a w' = Some (q\<lparr>pending := rqs\<rparr>)"
    and "s \<noteq> XRP_STATUS_PENDING" and "\<forall>e. rq_event rq = Some e \<longrightarrow> e \<in># c \<longrightarrow> xrp_event_status e w' = Some s"
    and "(\<forall>n. malloc_ok (env w) n) \<longrightarrow> s = XRP_STATUS_SUCCESS \<and> junk = {#}"
    and "\<forall>r \<in> set rqs. request_entries r w' = request_entries r w"
proof -
  note live = queue_used_live [OF ok subset_mset.order_refl a]
  from queue_process_ok [where destroy = "xrp_queue_destroy 0 (Some a)",
      OF ok q live plain_name_ok [OF nm] ion room destroy_self]
  obtain s w' junk lost where p: "xrp_queue_process a w = Some w'"
    "moves (3 * length (request_entries rq w) + 1) w c w' (lost + junk + c)" "size junk \<le> 1"
    "alters (insert a (set_option (rq_event rq))) w w'" "queue_left a (q\<lparr>pending := rqs\<rparr>) w' lost"
    "s \<noteq> XRP_STATUS_PENDING" "\<forall>e. rq_event rq = Some e \<longrightarrow> e \<in># c \<longrightarrow> xrp_event_status e w' = Some s"
    "(\<forall>n. malloc_ok (env w) n) \<longrightarrow> s = XRP_STATUS_SUCCESS \<and>
      (take 9 (the (copy_nsid (nsid q))) \<noteq> FACEID_NSID \<longrightarrow> junk = {#})"
    unfolding xrp_queue_process_def by (metis (no_types, lifting))
  note ok' = moves_ok [OF p(2)]
  have live': "a \<in># (lost + junk + c) + heap_refs (heap w')"
    using queue_used_live [OF ok' subset_mset.order_refl queue_used_kept [OF p(2) ok a]] .
  then have "heap w' a \<noteq> None" using world_ok_dom [OF ok'] by blast
  then have left: "lost = {#}" "get_queue a w' = Some (q\<lparr>pending := rqs\<rparr>)" using p(5) by (simp_all add: queue_left_def)
  have body: "body_ok (kinds w) a (Queue q)" "body_ok (kinds w') a (Queue (q\<lparr>pending := rqs\<rparr>))"
    using queue_live [OF ok live q(1)] queue_live [OF ok' live' left(2)] by simp_all
  have "kinds w x \<noteq> Some K_Group" if "x \<in> insert a (set_option (rq_event rq))" for x
    using that get_queue_kind [OF q(1)] body(1) q(2) by (auto simp: request_ok_def)
  then have "\<forall>r \<in> set rqs. request_entries r w' = request_entries r w"
    using pending_entries_kept [OF ok p(4) _ body] q(2) by auto
  with p(1-4,6-8) left nm show thesis by (intro that [of w' junk s]) (auto simp: plain_name_def)
qed

text \<open>
  Waiting for the event of one request runs the requests before it as well. Each event the caller holds of
  one of them has been finished: with success, when there is memory.
\<close>

definition finished :: "addr \<Rightarrow> bool \<Rightarrow> world \<Rightarrow> bool" where
  "finished e mem w \<longleftrightarrow>
     (\<exists>s. xrp_event_status e w = Some s \<and> s \<noteq> XRP_STATUS_PENDING \<and> (mem \<longrightarrow> s = XRP_STATUS_SUCCESS))"

lemma finished_kept: "alters A w w' \<Longrightarrow> e \<notin> A \<Longrightarrow> finished e mem w \<Longrightarrow> finished e mem w'"
  by (fastforce simp: finished_def xrp_event_status_def dest: keeps_event)

lemma wait_ok:
  assumes "world_ok w c" and "e \<in># c" and "get_queue a w = Some q" and "pending q = ps @ rq # qs"
    and "rq_event rq = Some e" and "\<forall>p \<in> set ps. rq_event p \<noteq> Some e" and "get_event e w = Some (pending_event a)"
    and "plain_name q" and "\<forall>n. ion_mem (env w) n \<noteq> None" and "room w c (run_cost w (ps @ [rq]))"
  shows "\<exists>w' junk. xrp_wait (Suc (length ps + k)) e w = Some w' \<and>
    moves (run_cost w (ps @ [rq])) w c w' (junk + c) \<and> size junk \<le> Suc (length ps) \<and>
    alters (insert a (\<Union>p \<in> set (ps @ [rq]). set_option (rq_event p))) w w' \<and>
    get_queue a w' = Some (q\<lparr>pending := qs\<rparr>) \<and>
    (\<forall>p \<in> set (ps @ [rq]). \<forall>e'. rq_event p = Some e' \<longrightarrow> e' \<in># c \<longrightarrow> finished e' (\<forall>n. malloc_ok (env w) n) w') \<and>
    ((\<forall>n. malloc_ok (env w) n) \<longrightarrow> junk = {#})"
  using assms
proof (induction ps arbitrary: w c q)
  case Nil
  have room: "room w c (3 * length (request_entries rq w) + 1)" using Nil.prems(10) by (simp add: run_cost_def)
  have used: "queue_used w c a"
    using queue_used_event [OF Nil.prems(7) _ Nil.prems(2)] by (simp add: pending_event_def)
  obtain s w' junk where r: "xrp_queue_process a w = Some w'"
    "moves (3 * length (request_entries rq w) + 1) w c w' (junk + c)" "size junk \<le> 1"
    "alters (insert a (set_option (rq_event rq))) w w'" "get_queue a w' = Some (q\<lparr>pending := qs\<rparr>)"
    "s \<noteq> XRP_STATUS_PENDING" "xrp_event_status e w' = Some s"
    "(\<forall>n. malloc_ok (env w) n) \<longrightarrow> s = XRP_STATUS_SUCCESS \<and> junk = {#}"
    using queue_round_held [OF Nil.prems(1) used Nil.prems(3) _ Nil.prems(8,9) room, of qs] Nil.prems(2,4,5)
    by (metis append_Nil)
  from r(7) obtain ev where ev: "get_event e w' = Some ev" "ev_status ev = s" by (auto simp: xrp_event_status_def)
  then have "xrp_wait k e w' = Some w'" using r(6) by (cases k) simp_all
  then have "xrp_wait (Suc k) e w = Some w'"
    using r(1) Nil.prems(7) by (simp add: pending_event_def)
  with r Nil.prems(5) show ?case
    by (intro exI [of _ w'] exI [of _ junk]) (auto simp: run_cost_def finished_def)
next
  case (Cons p ps)
  let ?n = "3 * length (request_entries p w) + 1" and ?mem = "\<forall>n. malloc_ok (env w) n"
  have room: "room w c ?n" using Cons.prems(10) by (simp add: run_cost_def room_def)
  have used: "queue_used w c a"
    using queue_used_event [OF Cons.prems(7) _ Cons.prems(2)] by (simp add: pending_event_def)
  have pend: "pending q = p # (ps @ rq # qs)" using Cons.prems(4) by simp
  obtain s w1 junk where r: "xrp_queue_process a w = Some w1" "moves ?n w c w1 (junk + c)" "size junk \<le> 1"
    "alters (insert a (set_option (rq_event p))) w w1" "get_queue a w1 = Some (q\<lparr>pending := ps @ rq # qs\<rparr>)"
    "?mem \<longrightarrow> s = XRP_STATUS_SUCCESS \<and> junk = {#}" "\<forall>r \<in> set (ps @ rq # qs). request_entries r w1 = request_entries r w"
    "s \<noteq> XRP_STATUS_PENDING" "\<forall>e. rq_event p = Some e \<longrightarrow> e \<in># c \<longrightarrow> xrp_event_status e w1 = Some s"
    by (rule queue_round_held [OF Cons.prems(1) used Cons.prems(3) pend Cons.prems(8,9) room])
  have env1: "env w1 = env w" using r(2) by (rule moves_env)
  have cost: "run_cost w ((p # ps) @ [rq]) = ?n + run_cost w1 (ps @ [rq])"
    using r(7) by (simp add: run_cost_def cong: map_cong)
  have "e \<noteq> a" using get_event_kind [OF Cons.prems(7)] get_queue_kind [OF Cons.prems(3)] by auto
  then have e1: "get_event e w1 = Some (pending_event a)"
    using keeps_event [OF r(4) _ Cons.prems(7)] Cons.prems(6) by auto
  have "room w1 (junk + c) (run_cost w1 (ps @ [rq]))"
    using moves_room [OF r(2)] Cons.prems(10) unfolding cost by (simp add: add.commute)
  note ih = Cons.IH [OF moves_ok [OF r(2)] _ r(5) _ Cons.prems(5) _ e1 _ _ this]
  have "e \<in># junk + c" "plain_name (q\<lparr>pending := ps @ rq # qs\<rparr>)" "\<forall>n. ion_mem (env w1) n \<noteq> None"
    "\<forall>p \<in> set ps. rq_event p \<noteq> Some e"
    using Cons.prems(2,6,8,9) env1 by (simp_all add: plain_name_def)
  then obtain w' junk' where w': "xrp_wait (Suc (length ps + k)) e w1 = Some w'"
    "moves (run_cost w1 (ps @ [rq])) w1 (junk + c) w' (junk' + (junk + c))" "size junk' \<le> Suc (length ps)"
    "alters (insert a (\<Union>p \<in> set (ps @ [rq]). set_option (rq_event p))) w1 w'" "get_queue a w' = Some (q\<lparr>pending := qs\<rparr>)"
    "\<forall>p \<in> set (ps @ [rq]). \<forall>e'. rq_event p = Some e' \<longrightarrow> e' \<in># junk + c \<longrightarrow> finished e' ?mem w'"
    "?mem \<longrightarrow> junk' = {#}"
    using ih unfolding env1 by simp blast
  have wt: "xrp_wait (Suc (length (p # ps) + k)) e w = Some w'"
    using w'(1) r(1) Cons.prems(7) by (simp add: pending_event_def)
  have m: "moves (run_cost w ((p # ps) @ [rq])) w c w' ((junk' + junk) + c)"
    using moves_trans [OF r(2) w'(2)] unfolding cost by (simp add: ac_simps)
  have fin: "finished e' ?mem w'" if e': "rq_event p = Some e'" "e' \<in># c" for e'
  proof (cases "\<exists>r \<in> set (ps @ [rq]). rq_event r = Some e'")
    case False
    have "finished e' ?mem w1" using r(6,8,9) e' by (simp add: finished_def)
    moreover have "e' \<noteq> a"
      using r(9) e' get_queue_kind [OF r(5)] get_event_kind [of e' w1] by (auto simp: xrp_event_status_def)
    ultimately show ?thesis using finished_kept [OF w'(4)] False by auto
  qed (use w'(6) e' in auto)
  let ?A = "insert a (\<Union>p \<in> set ((p # ps) @ [rq]). set_option (rq_event p))"
  have "alters ?A w w1" using r(4) by (rule alters_mono) auto
  moreover have "alters ?A w1 w'" using w'(4) by (rule alters_mono) auto
  ultimately have "alters ?A w w'" by (blast intro: alters_trans)
  then show ?case using wt m r(3,6) w'(3,5-7) fin
    by (intro exI [of _ w'] exI [of _ "junk' + junk"]) auto
qed

section \<open>The synchronous call\<close>

text \<open>Releasing an event whose queue the caller holds as well: the queue survives.\<close>

lemma release_queue_more:
  assumes ok: "world_ok w (add_mset a c)" and a: "a \<in># c + heap_refs (heap w)"
  obtains w' where "release_queue_with destroy a w = Some w'" and "moves 0 w (add_mset a c) w' c"
    and "keeps w w'" and "log w' = log w" and "\<And>q. get_queue a w = Some q \<Longrightarrow> get_queue a w' = Some q"
proof -
  obtain obj where h: "heap w a = Some obj" using world_ok_client [OF ok, of a] by auto
  from ok h show thesis
  proof (cases rule: release_cases)
    case (more w')
    have k: "keeps w w'" using h more(6) moves_next [OF more(3)] by (rule keeps_count)
    show thesis using more(1,3,4) k keeps_queue [OF k]
      by (intro that [of w']) (simp_all add: release_queue_with_def)
  next
    case (last w1)
    then have "unat (ref_count obj) = 1" by simp
    then have "count (add_mset a c + heap_refs (heap w)) a = 1" using world_ok_count [OF ok h] by simp
    with a show thesis by (auto simp: count_eq_zero_iff)
  qed
qed

lemma release_event_held:
  assumes ok: "world_ok w (add_mset e c)" and a: "a \<in># c" and e: "kinds w e = Some (K_Event (Some a))"
    and q: "get_queue a w = Some q"
  obtains w' where "release_event_with destroy e w = Some w'" and "moves 0 w (add_mset e c) w' c"
    and "alters {e} w w'" and "log w' = log w" and "get_queue a w' = Some q"
proof -
  obtain obj ev where h: "heap w e = Some obj" "contents obj = Event ev" "ev_queue ev = Some a"
    using e by (rule event_kindE)
  from ok h(1) show thesis
  proof (cases rule: release_cases)
    case (more w')
    have k: "keeps w w'" using h(1) more(6) moves_next [OF more(3)] by (rule keeps_count)
    show thesis using more(1,3,4) alters_mono [OF k, of "{e}"] keeps_queue [OF k _ q]
      by (intro that [of w']) (simp_all add: release_event_with_def)
  next
    case (last w1)
    have g: "get_event e w1 = Some ev" and s1: "keeps w w1"
      using last(6,8) h by (auto simp: evolves_def intro: keeps_count)
    have q1: "get_queue a w1 = Some q" using keeps_queue [OF s1 _ q] by simp
    have dy: "dying w1 e = Some (obj\<lparr>ref_count := 0\<rparr>)" using last(6) by (simp add: dying_def)
    have c: "c + body_refs (contents obj) = add_mset a c" using h(2,3) by simp
    obtain w2 where w2: "release_queue_with destroy a w1 = Some w2" "moves 0 w1 (add_mset a c) w2 c" "keeps w1 w2"
      "log w2 = log w1" "\<And>q. get_queue a w1 = Some q \<Longrightarrow> get_queue a w2 = Some q"
      using release_queue_more [OF last(3) [unfolded c], of destroy] a by auto
    from release_finish [OF last(8,9) w2(2) dy last(10) [unfolded c]] obtain w' where
      w': "free_object e w2 = Some w'" "moves 0 w (add_mset e c) w' c" "heap w' = (heap w2)(e := None)"
      "log w' = log w2" by blast
    have "next_addr w2 \<le> next_addr w'" using w'(1) by (auto simp: free_object_def split: if_splits)
    then have "alters {e} w2 w'" using alters_put [OF w'(3)] by simp
    then have "alters {e} w w'" using s1 w2(3) by (meson alters_trans alters_mono empty_subsetI)
    moreover have "get_queue a w' = Some q"
      using w2(5) [OF q1] w'(3) get_queue_kind [OF q] e by (cases "a = e") (auto simp: get_queue_def)
    ultimately show thesis using last(1,4) g w2(1,4) w'(1,2,4) h(3)
      by (intro that [of w']) (simp_all add: release_event_with_def)
  qed
qed

text \<open>The cost of a synchronous call: the requests before it, its own, and its references.\<close>

definition sync_cost :: "world \<Rightarrow> xrp_queue \<Rightarrow> ptr \<Rightarrow> nat" where
  "sync_cost w q grp = run_cost w (pending q) +
     (case grp of None \<Rightarrow> 1 | Some g \<Rightarrow> 3 * length (the (entries g w)) + 1)"

text \<open>What the caller of \<open>xrp_run_command_sync\<close> finds after the request is queued: no earlier request has
  the new event, and the rounds up to its own cost what the arguments determined.\<close>

lemma queued_fresh:
  assumes ok: "world_ok w c" and a: "a \<in># c" "get_queue a w = Some q" and e: "next_addr w \<le> e"
  shows "\<forall>p \<in> set (pending q). rq_event p \<noteq> Some e"
proof (intro ballI notI)
  fix p assume "p \<in> set (pending q)" "rq_event p = Some e"
  then have "kinds w e \<noteq> None" using queue_live [OF ok _ a(2)] a(1) by (auto simp: request_ok_def)
  with world_ok_next [OF ok, of e] e show False by (auto simp: kinds_def)
qed

lemma queued_cost:
  assumes ok: "world_ok w c" and a: "a \<in># c" "get_queue a w = Some q" and req: "enqueue_ok w c in_data in_size grp"
    and m: "moves 4 w c w1 (add_mset e c)" and al: "alters {a} w w1"
    and rq: "rq = new_request in_data in_fd in_size out_data out_fd out_size grp (Some e)"
    and q1: "get_queue a w1 = Some (q\<lparr>pending := pending q @ [rq]\<rparr>)"
  shows "run_cost w1 (pending q @ [rq]) = sync_cost w q grp"
proof -
  have body: "body_ok (kinds w) a (Queue q)" "body_ok (kinds w1) a (Queue (q\<lparr>pending := pending q @ [rq]\<rparr>))"
    using queue_live [OF ok _ a(2)] queue_live [OF moves_ok [OF m] _ q1] a(1) by simp_all
  have A: "g \<notin> {a}" if "kinds w g = Some K_Group" for g using that get_queue_kind [OF a(2)] by auto
  have "request_entries rq w1 = (case grp of None \<Rightarrow> [] | Some g \<Rightarrow> the (entries g w))"
    using entries_alters [OF ok al A] moves_kind [OF m ok] req
    by (auto simp: rq request_entries_def new_request_def enqueue_ok_def ptr_refs_def split: option.split)
  then show ?thesis
    using pending_entries_kept [OF ok al A body]
    by (simp add: run_cost_def sync_cost_def cong: map_cong split: option.split)
qed

lemma run_command_sync_ok:
  assumes ok: "world_ok w c" and a: "a \<in># c" "get_queue a w = Some q" and req: "enqueue_ok w c in_data in_size grp"
    and nm: "plain_name q" and ion: "\<forall>n. ion_mem (env w) n \<noteq> None" and room: "room w c (sync_cost w q grp + 4)"
  shows "\<exists>s w' junk. xrp_run_command_sync a in_data in_fd in_size out_data out_fd out_size grp w = Some (s, w') \<and>
    moves (sync_cost w q grp + 4) w c w' (junk + c) \<and> size junk \<le> Suc (length (pending q)) \<and> s \<noteq> XRP_STATUS_PENDING \<and>
    ((\<forall>n. malloc_ok (env w) n) \<longrightarrow> s = XRP_STATUS_SUCCESS \<and> junk = {#} \<and>
      get_queue a w' = Some (q\<lparr>pending := []\<rparr>))"
proof -
  have "room w c 4" using room by (simp add: room_def)
  from ok a this req show ?thesis
  proof (cases rule: enqueue_command_ok [where in_fd = in_fd and out_data = out_data and out_fd = out_fd
        and out_size = out_size and want = True])
    case (failed w')
    then show ?thesis
      by (intro exI [of _ XRP_STATUS_FAILURE] exI [of _ w'] exI [of _ "{#}"])
        (auto simp: xrp_run_command_sync_def intro: moves_mono)
  next
    case (queued r w1)
    then obtain e where e: "r = Some e" by auto
    let ?rq = "new_request in_data in_fd in_size out_data out_fd out_size grp (Some e)"
    let ?q = "q\<lparr>pending := pending q @ [?rq]\<rparr>"
    have m1: "moves 4 w c w1 (add_mset e c)" using queued(3) e by (simp add: ptr_refs_def)
    note ok1 = moves_ok [OF m1]
    have q1: "get_queue a w1 = Some ?q" and e1: "get_event e w1 = Some (pending_event a)" "next_addr w \<le> e"
      using queued(6,7) e by auto
    note fresh = queued_fresh [OF ok a e1(2)]
    note cost = queued_cost [OF ok a req m1 queued(4) refl q1]
    have env1: "env w1 = env w" using m1 by (rule moves_env)
    have "room w1 (add_mset e c) (run_cost w1 (pending q @ [?rq]))"
      using moves_room [OF m1, of "sync_cost w q grp"] room unfolding cost by simp
    then obtain w2 junk where w2: "xrp_wait (Suc (length (pending q))) e w1 = Some w2"
      "moves (sync_cost w q grp) w1 (add_mset e c) w2 (junk + add_mset e c)" "size junk \<le> Suc (length (pending q))"
      "get_queue a w2 = Some (q\<lparr>pending := []\<rparr>)" "finished e (\<forall>n. malloc_ok (env w) n) w2"
      "(\<forall>n. malloc_ok (env w) n) \<longrightarrow> junk = {#}"
      using wait_ok [OF ok1 _ q1, of e "pending q" ?rq "[]" 0] fresh e1(1) nm ion env1 unfolding cost
      by (simp add: new_request_def plain_name_def) blast
    obtain s where s: "xrp_event_status e w2 = Some s" "s \<noteq> XRP_STATUS_PENDING"
      "(\<forall>n. malloc_ok (env w) n) \<longrightarrow> s = XRP_STATUS_SUCCESS" using w2(5) by (auto simp: finished_def)
    have c2: "junk + add_mset e c = add_mset e (junk + c)" by simp
    have "kinds w2 e = Some (K_Event (Some a))"
      using moves_kind [OF w2(2) ok1, of e] get_event_kind [OF e1(1)] by (simp add: pending_event_def)
    then obtain w3 where w3: "xrp_release_event e w2 = Some w3" "moves 0 w2 (junk + add_mset e c) w3 (junk + c)"
      "get_queue a w3 = Some (q\<lparr>pending := []\<rparr>)"
      using release_event_held [OF moves_ok [OF w2(2), unfolded c2] _ _ w2(4)] a(1)
      unfolding xrp_release_event_def c2 by (metis union_iff)
    have "moves (sync_cost w q grp + 4) w c w3 (junk + c)"
      using moves_trans [OF m1 moves_trans [OF w2(2) w3(2)]] by (simp add: add.commute)
    moreover have "xrp_run_command_sync a in_data in_fd in_size out_data out_fd out_size grp w = Some (s, w3)"
      using queued(1) e q1 w2(1) s(1) w3(1) by (simp add: xrp_run_command_sync_def)
    ultimately show ?thesis using w2(3,6) s(2,3) w3(3) by blast
  qed
qed

section \<open>Properties\<close>

text \<open>
  C20. Creating a queue fails without effect, or gives a queue with one reference that keeps its device
  alive and has no request. The name survives: the bytes a later command reads back from the queue are
  the name given, padded with zeros, when it has at most 31 characters; a longer name is stored without
  its terminator, so that reading it back runs past the array.
\<close>

theorem create_queue_correct:
  assumes "world_ok w c" and "held w c d" and "kinds w d = Some K_Device" and "room w c 2"
    and "c_strlen s = Some k"
  shows "\<exists>r st w'. xrp_create_nsp_queue d (Some s) prio w = Some ((r, st), w') \<and>
    log w' = log w \<and> dying w' = dying w \<and> keeps w w' \<and>
    (case r of
       None \<Rightarrow> st = XRP_STATUS_FAILURE \<and> world_ok w' c
     | Some a \<Rightarrow> st = XRP_STATUS_SUCCESS \<and> world_ok w' (add_mset a c) \<and>
         (\<exists>q. get_queue a w' = Some q \<and> q_device q = Some d \<and> q_priority q = prio \<and> pending q = [] \<and>
              copy_nsid (nsid q) = (if k < 32 then Some (take k s @ replicate (32 - k) 0) else None)))"
proof -
  have "nsid_ok (Some s)" using assms(5) by (simp add: nsid_ok_def)
  from create_queue_ok [OF assms(1-4) this, of prio] obtain r st w' where
    q: "xrp_create_nsp_queue d (Some s) prio w = Some ((r, st), w')" "created 2 K_Queue w c r st w'" "log w' = log w"
      "\<forall>a. r = Some a \<longrightarrow> get_queue a w' = Some \<lparr>q_device = Some d, use_nsid = True, q_priority = prio,
         nsid = stored_nsid s k, pending = []\<rparr>"
    using assms(5) by (auto simp: queue_nsid_def)
  have "stored_nsid s k = take k s @ replicate (32 - k) 0" if "k < 32"
    using that assms(5) by (simp add: stored_nsid_def c_strlen_Some_iff)
  then show ?thesis using q copy_stored_nsid [OF assms(5)]
    by (cases r) (auto simp: created_def moves_def evolves_def)
qed

text \<open>
  C21. Submitting a command to a queue the caller holds either fails for want of memory and leaves the
  heap as it was, or appends exactly one request with a copy of the input after those already pending,
  which holds a reference on the group; the event returned is pending, belongs to the queue, and the
  caller holds one reference on it. Nothing else changes and no call is made.
\<close>

theorem enqueue_correct:
  assumes "world_ok w c" and "a \<in># c" and "get_queue a w = Some q" and "room w c 4"
    and "enqueue_ok w c in_data in_size grp"
  shows "\<exists>r s w'. xrp_enqueue_command a in_data in_fd in_size out_data out_fd out_size grp want w = Some ((r, s), w') \<and>
    log w' = log w \<and> dying w' = dying w \<and> world_ok w' (ptr_refs r + c) \<and>
    (if s = XRP_STATUS_SUCCESS
     then (r \<noteq> None) = want \<and> alters {a} w w' \<and>
       get_queue a w' = Some (q\<lparr>pending := pending q @
         [new_request in_data in_fd in_size out_data out_fd out_size grp r]\<rparr>) \<and>
       (\<forall>e \<in> set_option r. get_event e w' = Some (pending_event a))
     else s = XRP_STATUS_FAILURE \<and> r = None \<and> heap w' = heap w \<and> \<not> (\<forall>n. malloc_ok (env w) n))"
  using assms
proof (cases rule: enqueue_command_ok [where in_fd = in_fd and out_data = out_data and out_fd = out_fd
      and out_size = out_size and want = want])
  case (failed w')
  then show ?thesis using moves_ok [OF failed(2)]
    by (intro exI [of _ None] exI [of _ XRP_STATUS_FAILURE] exI [of _ w'])
      (simp add: ptr_refs_def dying_def fun_eq_iff)
next
  case (queued r w')
  then show ?thesis using moves_ok [OF queued(3)]
    by (intro exI [of _ r] exI [of _ XRP_STATUS_SUCCESS] exI [of _ w'])
      (auto simp: moves_def evolves_def)
qed

text \<open>
  C22. A round of the worker on a queue with pending requests takes the first one, makes one ioctl with
  the namespace, priority, data and buffers it was submitted with, gives back every reference the
  request carried, and gives the event its final status. (With memory available and an ordinary
  namespace; the queue may be destroyed by the round itself, and then the requests still pending are
  lost with their references.)
\<close>

theorem queue_process_correct:
  assumes "world_ok w c" and "get_queue a w = Some q" and "pending q = rq # rqs" and "a \<in># c + heap_refs (heap w)"
    and "plain_name q" and "\<forall>n. ion_mem (env w) n \<noteq> None" and "\<forall>n. malloc_ok (env w) n"
    and "room w c (3 * length (request_entries rq w) + 1)" and "\<forall>x \<in> set (request_buffers rq w). io_fd x \<noteq> - 1"
  shows "\<exists>w' lost d dev l. xrp_queue_process a w = Some w' \<and> world_ok w' (lost + c) \<and> dying w' = dying w \<and>
    queue_left a (q\<lparr>pending := rqs\<rparr>) w' lost \<and>
    (\<forall>e. rq_event rq = Some e \<longrightarrow> e \<in># c \<longrightarrow> xrp_event_status e w' = Some XRP_STATUS_SUCCESS) \<and>
    q_device q = Some d \<and> get_device d w = Some dev \<and>
    log w' = log w @ Ioctl_queue (dev_fd dev) (request_query q rq w) # l \<and> (\<forall>k \<in> set l. cleanup_call k)"
proof -
  have "take 9 (the (copy_nsid (nsid q))) \<noteq> FACEID_NSID" using assms(5) by (auto simp: plain_name_def)
  with queue_process_ok [where destroy = "xrp_queue_destroy 0 (Some a)",
      OF assms(1-4) plain_name_ok [OF assms(5)] assms(6,8) destroy_self] assms(7,9)
  obtain w' lost d dev l where p: "xrp_queue_process a w = Some w'"
    "moves (3 * length (request_entries rq w) + 1) w c w' (lost + {#} + c)" "queue_left a (q\<lparr>pending := rqs\<rparr>) w' lost"
    "\<forall>e. rq_event rq = Some e \<longrightarrow> e \<in># c \<longrightarrow> xrp_event_status e w' = Some XRP_STATUS_SUCCESS"
    "q_device q = Some d" "get_device d w = Some dev"
    "log w' = log w @ Ioctl_queue (dev_fd dev) (request_query q rq w) # l" "\<forall>k \<in> set l. cleanup_call k"
    unfolding xrp_queue_process_def by (metis (no_types, lifting))
  then show ?thesis using moves_ok [OF p(2)] by (auto simp: moves_def evolves_def fun_eq_iff)
qed

text \<open>
  C23. A failed command is reported as a success: although the driver refuses every ioctl, the event of
  the request gets the status SUCCESS, because \<open>_xrp_run_command\<close> tests for a negative result and the
  layer below returns 1.
\<close>

theorem command_failure_masked:
  assumes "world_ok w c" and "get_queue a w = Some q" and "pending q = rq # rqs" and "a \<in># c"
    and "plain_name q" and "\<forall>n. ion_mem (env w) n \<noteq> None" and "\<forall>n. malloc_ok (env w) n"
    and "room w c (3 * length (request_entries rq w) + 1)" and "rq_event rq = Some e" and "e \<in># c"
    and "\<forall>n. ioctl_ret (env w) n < 0"
  shows "\<exists>w'. xrp_queue_process a w = Some w' \<and> xrp_event_status e w' = Some XRP_STATUS_SUCCESS"
  using queue_round_held [OF assms(1) queue_used_direct [OF assms(4)] assms(2,3,5,6,8)] assms(7,9,10) by metis

text \<open>
  C11. The synchronous call always returns: whatever the allocator and the driver answer, the requests
  already pending and then its own are run, its status is final, the caller holds the references it
  held before, and with memory available the queue ends empty. (At most one buffer per request is lost
  when memory runs out.)
\<close>

theorem run_command_sync_returns:
  assumes "world_ok w c" and "a \<in># c" and "get_queue a w = Some q" and "enqueue_ok w c in_data in_size grp"
    and "plain_name q" and "\<forall>n. ion_mem (env w) n \<noteq> None" and "room w c (sync_cost w q grp + 4)"
  shows "\<exists>s w' junk. xrp_run_command_sync a in_data in_fd in_size out_data out_fd out_size grp w = Some (s, w') \<and>
    world_ok w' (junk + c) \<and> dying w' = dying w \<and> size junk \<le> Suc (length (pending q)) \<and> s \<noteq> XRP_STATUS_PENDING \<and>
    ((\<forall>n. malloc_ok (env w) n) \<longrightarrow> s = XRP_STATUS_SUCCESS \<and> junk = {#} \<and>
      get_queue a w' = Some (q\<lparr>pending := []\<rparr>))"
  using run_command_sync_ok [OF assms, of in_fd out_data out_fd out_size]
  by (auto simp: moves_def evolves_def fun_eq_iff)

section \<open>Examples\<close>

text \<open>
  C40. Waiting for one event of a queue returns as soon as its request has run, and then every request
  submitted before it has been finished as well, with success when there is memory; the requests after it
  are still pending. This holds although the client may have given up the queue: its events keep it.
\<close>

theorem wait_finishes_earlier:
  assumes "world_ok w c" and "get_queue a w = Some q" and "pending q = ps @ rq # qs"
    and "rq_event rq = Some e" and "e \<in># c" and "\<forall>p \<in> set ps. rq_event p \<noteq> Some e"
    and "get_event e w = Some (pending_event a)" and "plain_name q" and "\<forall>n. ion_mem (env w) n \<noteq> None"
    and "room w c (run_cost w (ps @ [rq]))"
  shows "\<exists>w' junk. xrp_wait (Suc (length ps)) e w = Some w' \<and> get_queue a w' = Some (q\<lparr>pending := qs\<rparr>) \<and>
    (\<forall>p \<in> set (ps @ [rq]). \<forall>e'. rq_event p = Some e' \<longrightarrow> e' \<in># c \<longrightarrow> finished e' (\<forall>n. malloc_ok (env w) n) w') \<and>
    world_ok w' (junk + c) \<and> size junk \<le> Suc (length ps) \<and> ((\<forall>n. malloc_ok (env w) n) \<longrightarrow> junk = {#})"
  using wait_ok [OF assms(1,5,2,3,4,6-10), of 0] by (auto dest: moves_ok)

text \<open>A client with the device and a queue on it, for an environment that has memory.\<close>

definition demo_queue :: xrp_queue where
  "demo_queue = \<lparr>q_device = Some 16, use_nsid = True, q_priority = 2,
     nsid = [0x76, 0x31, 0x20, 0x63, 0x6d, 0x64] @ replicate 26 0, pending = []\<rparr>"

definition world_que :: "environment \<Rightarrow> world" where
  "world_que e = (world_dev e)\<lparr>
     heap := (heap (world_dev e))(
       16 \<mapsto> \<lparr>ref_count = 2, contents = Device \<lparr>dev_fd = 3, dev_generation = 0, dev_type = XRP_DEVICE_NEWMODE\<rparr>\<rparr>,
       17 \<mapsto> \<lparr>ref_count = 1, contents = Queue demo_queue\<rparr>),
     next_addr := 18, ticks := 1\<rparr>"

lemma demo_queue_pending [simp]: "pending demo_queue = []" "demo_queue\<lparr>pending := []\<rparr> = demo_queue"
  by (simp_all add: demo_queue_def)

lemma demo_strlen: "c_strlen demo_nsid = Some 6"
  by code_simp

lemma demo_stored: "stored_nsid demo_nsid 6 = nsid demo_queue"
  by code_simp

lemma demo_plain: "plain_name (demo_queue\<lparr>pending := rqs\<rparr>)"
proof -
  have "copy_nsid (nsid demo_queue) = Some (nsid demo_queue)" "take 9 (nsid demo_queue) \<noteq> FACEID_NSID"
    by code_simp+
  then show ?thesis by (simp add: plain_name_def)
qed

lemma world_que_reached:
  assumes "\<forall>n. malloc_ok e n"
  shows "xrp_create_nsp_queue 16 (Some demo_nsid) 2 (world_dev e) = Some ((Some 17, XRP_STATUS_SUCCESS), world_que e)"
proof -
  have "nsid_ok (Some demo_nsid)" by (simp add: nsid_ok_def demo_strlen)
  from queue_init_name [OF this] demo_stored
  have "do { n \<leftarrow> str_len demo_nsid 32; id \<leftarrow> memcpy_at (replicate 32 0) 0 demo_nsid n;
             Some (zero_queue\<lparr>use_nsid := True, nsid := id\<rparr>) } =
    Some (zero_queue\<lparr>use_nsid := True, nsid := nsid demo_queue\<rparr>)"
    by (simp add: queue_nsid_def demo_strlen)
  then show ?thesis using assms
    by (simp add: xrp_create_nsp_queue_def xrp_retain_device_def retain_refcounted_def alloc_refcounted_def ask_def
        put_def world_que_def demo_queue_def zero_queue_def)
qed

lemma world_que_facts:
  assumes "\<forall>n. malloc_ok e n"
  shows "world_ok (world_que e) {#17, 16#}" and "n < 900 \<Longrightarrow> room (world_que e) {#17, 16#} n"
    and "get_queue 17 (world_que e) = Some demo_queue" and "env (world_que e) = e"
proof -
  have "held (world_dev e) {#16#} 16" by (simp add: held_def)
  with create_queue_ok [OF world_dev_ok this _ world_dev_room, of "Some demo_nsid" 2] world_que_reached [OF assms]
  have m: "moves 2 (world_dev e) {#16#} (world_que e) {#17, 16#}"
    by (auto simp: created_def nsid_ok_def demo_strlen)
  show "world_ok (world_que e) {#17, 16#}" using m by (rule moves_ok)
  show "room (world_que e) {#17, 16#} n" if "n < 900"
    using moves_room [OF m world_dev_room, of n] that by simp
  show "get_queue 17 (world_que e) = Some demo_queue" by (simp add: world_que_def get_queue_def)
  show "env (world_que e) = e" by (simp add: world_que_def)
qed

theorem create_queue_correct_witness:
  "\<exists>w' q. xrp_create_nsp_queue 16 (Some demo_nsid) 2 (world_dev env_good) = Some ((Some 17, XRP_STATUS_SUCCESS), w') \<and>
     get_queue 17 w' = Some q \<and> copy_nsid (nsid q) = Some (take 6 demo_nsid @ replicate 26 0)"
proof -
  have "held (world_dev env_good) {#16#} 16" by (simp add: held_def)
  from create_queue_correct [OF world_dev_ok this _ world_dev_room demo_strlen, of 2]
    world_que_reached [of env_good] show ?thesis by (auto simp: env_good_def)
qed

text \<open>The same client after submitting an empty command with an event.\<close>

abbreviation demo_enqueue :: "world \<Rightarrow> ((ptr \<times> xrp_status) \<times> world) option" where
  "demo_enqueue \<equiv> xrp_enqueue_command 17 None (- 1) 0 H_Null (- 1) 0 None True"

abbreviation demo_rq :: "ptr \<Rightarrow> xrp_request" where
  "demo_rq \<equiv> new_request None (- 1) 0 H_Null (- 1) 0 None"

lemma demo_enqueue_ok: "enqueue_ok w c None 0 None"
  by (simp add: enqueue_ok_def)

lemma demo_entries [simp]: "request_entries (demo_rq e) w = []" "request_buffers (demo_rq e) w = []"
  by (simp_all add: request_entries_def request_buffers_def new_request_def)

lemma world_pending:
  assumes "\<forall>n. malloc_ok e n"
  obtains ev w1 where "demo_enqueue (world_que e) = Some ((Some ev, XRP_STATUS_SUCCESS), w1)"
    and "world_ok w1 {#ev, 17, 16#}" and "room w1 {#ev, 17, 16#} 1" and "env w1 = e"
    and "get_queue 17 w1 = Some (demo_queue\<lparr>pending := [demo_rq (Some ev)]\<rparr>)"
    and "get_event ev w1 = Some (pending_event 17)"
proof -
  note f = world_que_facts [OF assms]
  have room: "room (world_que e) {#17, 16#} 5" using f(2) by simp
  then have room4: "room (world_que e) {#17, 16#} 4" by (simp add: room_def)
  have a: "17 \<in># {#17, 16 :: nat#}" by simp
  from f(1) a f(3) room4 demo_enqueue_ok show thesis
  proof (cases rule: enqueue_command_ok [where in_fd = "- 1" and out_data = H_Null and out_fd = "- 1" and out_size = 0
        and want = True and c = "{#17, 16#}" and q = demo_queue])
    case (failed w')
    then show thesis using assms f(4) by simp
  next
    case (queued r w')
    then obtain ev where ev: "r = Some ev" by auto
    have m: "moves 4 (world_que e) {#17, 16#} w' {#ev, 17, 16#}"
      using queued(3) ev by (simp add: ptr_refs_def add_mset_commute)
    show thesis using queued(1,6,7) ev moves_ok [OF m] moves_env [OF m] f(4) moves_room [OF m, of 1] room
      by (intro that [of ev w']) simp_all
  qed
qed

theorem enqueue_correct_witness:
  "\<exists>e w'. demo_enqueue (world_que env_good) = Some ((Some e, XRP_STATUS_SUCCESS), w') \<and>
     get_queue 17 w' = Some (demo_queue\<lparr>pending := [demo_rq (Some e)]\<rparr>)"
proof -
  have mem: "\<forall>n. malloc_ok env_good n" by (simp add: env_good_def)
  note f = world_que_facts [OF mem]
  have "room (world_que env_good) {#17, 16#} 4" using f(2) by simp
  from enqueue_correct [OF f(1) _ f(3) this demo_enqueue_ok, of "- 1" H_Null "- 1" 0 True] f(4) mem
  show ?thesis by (auto split: if_splits)
qed

theorem queue_process_correct_witness:
  "\<exists>e w1 w2. demo_enqueue (world_que env_good) = Some ((Some e, XRP_STATUS_SUCCESS), w1) \<and>
     xrp_queue_process 17 w1 = Some w2 \<and> xrp_event_status e w2 = Some XRP_STATUS_SUCCESS"
proof -
  have mem: "\<forall>n. malloc_ok env_good n" and ion: "\<forall>n. ion_mem env_good n \<noteq> None" by (simp_all add: env_good_def)
  obtain ev w1 where w1: "demo_enqueue (world_que env_good) = Some ((Some ev, XRP_STATUS_SUCCESS), w1)"
    "world_ok w1 {#ev, 17, 16#}" "room w1 {#ev, 17, 16#} 1" "env w1 = env_good"
    "get_queue 17 w1 = Some (demo_queue\<lparr>pending := [demo_rq (Some ev)]\<rparr>)" "get_event ev w1 = Some (pending_event 17)"
    using mem by (rule world_pending)
  have "rq_event (demo_rq (Some ev)) = Some ev" by (simp add: new_request_def)
  then have "\<exists>w2. xrp_queue_process 17 w1 = Some w2 \<and> xrp_event_status ev w2 = Some XRP_STATUS_SUCCESS"
    using queue_process_correct [OF w1(2,5) _ _ demo_plain, of "demo_rq (Some ev)" "[]"] w1(3,4) mem ion by auto
  with w1(1) show ?thesis by blast
qed

theorem wait_finishes_earlier_witness:
  "\<exists>e w1 w2. demo_enqueue (world_que env_good) = Some ((Some e, XRP_STATUS_SUCCESS), w1) \<and>
     xrp_wait 1 e w1 = Some w2 \<and> finished e True w2"
proof -
  have mem: "\<forall>n. malloc_ok env_good n" and ion: "\<forall>n. ion_mem env_good n \<noteq> None" by (simp_all add: env_good_def)
  obtain ev w1 where w1: "demo_enqueue (world_que env_good) = Some ((Some ev, XRP_STATUS_SUCCESS), w1)"
    "world_ok w1 {#ev, 17, 16#}" "room w1 {#ev, 17, 16#} 1" "env w1 = env_good"
    "get_queue 17 w1 = Some (demo_queue\<lparr>pending := [demo_rq (Some ev)]\<rparr>)" "get_event ev w1 = Some (pending_event 17)"
    using mem by (rule world_pending)
  have e: "rq_event (demo_rq (Some ev)) = Some ev" by (simp add: new_request_def)
  have p: "pending (demo_queue\<lparr>pending := [demo_rq (Some ev)]\<rparr>) = [] @ demo_rq (Some ev) # []" by simp
  have i: "\<forall>n. ion_mem (env w1) n \<noteq> None" using ion w1(4) by simp
  have r: "room w1 {#ev, 17, 16#} (run_cost w1 ([] @ [demo_rq (Some ev)]))" using w1(3) by (simp add: run_cost_def)
  have "\<exists>w2. xrp_wait 1 ev w1 = Some w2 \<and> finished ev True w2"
    using wait_finishes_earlier [OF w1(2,5) p e _ _ w1(6) demo_plain i r] mem w1(4) e by auto
  with w1(1) show ?thesis by blast
qed

text \<open>An environment whose driver refuses every ioctl.\<close>

definition env_refuse :: environment where
  "env_refuse = env_good\<lparr>ioctl_ret := \<lambda>_. - 1\<rparr>"

theorem command_failure_masked_witness:
  "\<exists>e w1 w2. demo_enqueue (world_que env_refuse) = Some ((Some e, XRP_STATUS_SUCCESS), w1) \<and>
     xrp_queue_process 17 w1 = Some w2 \<and> xrp_event_status e w2 = Some XRP_STATUS_SUCCESS"
proof -
  have mem: "\<forall>n. malloc_ok env_refuse n" and ion: "\<forall>n. ion_mem env_refuse n \<noteq> None" and bad: "\<forall>n. ioctl_ret env_refuse n < 0"
    by (simp_all add: env_refuse_def env_good_def)
  obtain ev w1 where w1: "demo_enqueue (world_que env_refuse) = Some ((Some ev, XRP_STATUS_SUCCESS), w1)"
    "world_ok w1 {#ev, 17, 16#}" "room w1 {#ev, 17, 16#} 1" "env w1 = env_refuse"
    "get_queue 17 w1 = Some (demo_queue\<lparr>pending := [demo_rq (Some ev)]\<rparr>)" "get_event ev w1 = Some (pending_event 17)"
    using mem by (rule world_pending)
  have "rq_event (demo_rq (Some ev)) = Some ev" by (simp add: new_request_def)
  then have "\<exists>w2. xrp_queue_process 17 w1 = Some w2 \<and> xrp_event_status ev w2 = Some XRP_STATUS_SUCCESS"
    using command_failure_masked [OF w1(2,5) _ _ demo_plain, of "demo_rq (Some ev)" "[]" ev] w1(3,4) mem ion bad by auto
  with w1(1) show ?thesis by blast
qed

theorem run_command_sync_returns_witness:
  "\<exists>w'. xrp_run_command_sync 17 None (- 1) 0 H_Null (- 1) 0 None (world_que env_good) = Some (XRP_STATUS_SUCCESS, w') \<and>
     world_ok w' {#17, 16#} \<and> get_queue 17 w' = Some demo_queue"
proof -
  have mem: "\<forall>n. malloc_ok env_good n" and ion: "\<forall>n. ion_mem env_good n \<noteq> None" by (simp_all add: env_good_def)
  note f = world_que_facts [OF mem]
  have "room (world_que env_good) {#17, 16#} (sync_cost (world_que env_good) demo_queue None + 4)"
    using f(2) by (simp add: sync_cost_def run_cost_def)
  from run_command_sync_returns [OF f(1) _ f(3) demo_enqueue_ok _ _ this, of "- 1" H_Null "- 1" 0]
    demo_plain [of "[]"] f(4) mem ion
  show ?thesis by fastforce
qed

end
