(* ===== verification/Vdsp_Interface.thy ===== *)
theory Vdsp_Interface
  imports Command_Queue
begin

text \<open>
  The internal interface of \<open>vdsp-interface/vdsp_interface_internal.c\<close> beside the direct command path:
  opening and releasing the device, the queued command, loading and unloading user libraries, power
  hints; and the direct entry points of \<open>vdsp_interface.cpp\<close>.
\<close>

section \<open>Devices and power hints\<close>

definition sprd_vdsp_open_device :: "int \<Rightarrow> sprd_vdsp_worktype \<Rightarrow> world \<Rightarrow> (ptr \<times> world) option" where
  "sprd_vdsp_open_device idx type w =
     (case type of
        SPRD_VDSP_WORK_NORMAL \<Rightarrow> do {
          ((device, _), w1) \<leftarrow> xrp_open_device_newmode idx XRP_OPEN_NORMAL_TYPE w;
          Some (device, w1)
        }
      | SPRD_VDSP_WORK_FACEID \<Rightarrow> do {
          ((device, _), w1) \<leftarrow> xrp_open_device_newmode idx XRP_OPEN_FACEID_TYPE w;
          Some (device, w1)
        }
      | SPRD_VDSP_WORK_MAXTYPE \<Rightarrow> Some (None, w))"

definition sprd_vdsp_release_device :: "addr \<Rightarrow> world \<Rightarrow> world option" where
  "sprd_vdsp_release_device device w = xrp_release_device device w"

definition sprd_vdsp_power_hint_direct :: "addr \<Rightarrow> int \<Rightarrow> u32 \<Rightarrow> world \<Rightarrow> (int \<times> world) option" where
  "sprd_vdsp_power_hint_direct device level acquire_release w = do {
     dev \<leftarrow> get_device device w;
     Some (ask ioctl_ret (record_call (Ioctl_powerhint (dev_fd dev) level acquire_release) w))
   }"

definition sprd_cavdsp_open_device_direct ::
    "sprd_vdsp_worktype \<Rightarrow> world \<Rightarrow> ((sprd_vdsp_result \<times> ptr) \<times> world) option" where
  "sprd_cavdsp_open_device_direct type w = do {
     (handle, w1) \<leftarrow> sprd_vdsp_open_device 0 type w;
     Some ((if handle = None then SPRD_VDSP_RESULT_FAIL else SPRD_VDSP_RESULT_SUCCESS, handle), w1)
   }"

definition sprd_cavdsp_close_device_direct :: "addr \<Rightarrow> world \<Rightarrow> (sprd_vdsp_result \<times> world) option" where
  "sprd_cavdsp_close_device_direct handle w = do {
     w1 \<leftarrow> sprd_vdsp_release_device handle w;
     Some (SPRD_VDSP_RESULT_SUCCESS, w1)
   }"

section \<open>The queued command\<close>

text \<open>The input's memory is read when the command is submitted, so it is given as bytes.\<close>

definition queue_args :: "bytes sprd_vdsp_inout option \<Rightarrow> bytes option \<times> int \<times> u32" where
  "queue_args p = (case p of None \<Rightarrow> (None, - 1, 0) | Some x \<Rightarrow> (Some (vir_addr x), io_fd x, io_size x))"

text \<open>Once the group and the queue exist: the loop over the buffers, the command, and the cleanup.\<close>

definition send_on_queue :: "addr \<Rightarrow> bytes option \<times> int \<times> u32 \<Rightarrow> hptr \<times> int \<times> u32 \<Rightarrow> u64 sprd_vdsp_inout list \<Rightarrow>
    addr \<Rightarrow> addr \<Rightarrow> world \<Rightarrow> (sprd_vdsp_status \<times> world) option" where
  "send_on_queue device input outp xs grp queue w = do {
     let (input_vir, inputfd, inputsize) = input;
     let (output_vir, outputfd, outputsize) = outp;
     ((all, bufs), w1) \<leftarrow> add_buffers device grp (\<lambda>_. XRP_READ_WRITE) xs [] w;
     (if \<not> all
      then do {
        w2 \<leftarrow> release_group_and_buffers grp bufs w1;
        w3 \<leftarrow> xrp_release_queue queue w2;
        Some (SPRD_XRP_STATUS_FAILURE, w3)
      }
      else do {
        (s, w2) \<leftarrow> xrp_run_command_sync queue input_vir inputfd (ucast inputsize)
                     output_vir outputfd (ucast outputsize) (Some grp) w1;
        w3 \<leftarrow> release_group_and_buffers grp bufs w2;
        w4 \<leftarrow> xrp_release_queue queue w3;
        Some (if s \<noteq> XRP_STATUS_SUCCESS then SPRD_XRP_STATUS_FAILURE else SPRD_XRP_STATUS_SUCCESS, w4)
      })
   }"

definition sprd_vdsp_send_command ::
    "addr \<Rightarrow> bytes option \<Rightarrow> bytes sprd_vdsp_inout option \<Rightarrow> hptr sprd_vdsp_inout option \<Rightarrow>
     u64 sprd_vdsp_inout list \<Rightarrow> nat \<Rightarrow> int \<Rightarrow> world \<Rightarrow> (sprd_vdsp_status \<times> world) option" where
  "sprd_vdsp_send_command device ns input outp buffer buf_num priority w =
     (let (ok, w0) = ask malloc_ok w in
      if \<not> ok then Some (SPRD_XRP_STATUS_FAILURE, w0)
      else case xrp_create_buffer_group w0 of
        ((None, _), w1) \<Rightarrow> Some (SPRD_XRP_STATUS_FAILURE, w1)
      | ((Some grp, _), w1) \<Rightarrow> do {
          ((queue, s), w2) \<leftarrow> xrp_create_nsp_queue device ns priority w1;
          (if s \<noteq> XRP_STATUS_SUCCESS
           then do { w3 \<leftarrow> xrp_release_buffer_group grp w2; Some (SPRD_XRP_STATUS_FAILURE, w3) }
           else do {
             q \<leftarrow> queue;
             (if length buffer < buf_num then None
              else send_on_queue device (queue_args input) (inout_args outp) (take buf_num buffer) grp q w2)
           })
        })"

section \<open>User libraries\<close>

definition XRP_EXAMPLE_V3_NSID :: bytes where
  "XRP_EXAMPLE_V3_NSID = [0x73, 0x79, 0x73, 0x74, 0x65, 0x6d, 0x20, 0x63, 0x6d, 0x64] @ replicate 6 0"

definition USER_LIBRARY_CMD_LOAD_UNLOAD_INPUTSIZE :: u32 where
  "USER_LIBRARY_CMD_LOAD_UNLOAD_INPUTSIZE = 44"

text \<open>
  The command block: a flag and the library's name, written by \<open>sprintf\<close> over \<open>mem\<close>, what the ion
  memory happens to hold.
\<close>

definition library_block :: "u8 \<Rightarrow> bytes \<Rightarrow> bytes \<Rightarrow> bytes option" where
  "library_block flag mem libname = do {
     m \<leftarrow> memcpy_at mem 0 [flag] 1;
     n \<leftarrow> c_strlen libname;
     memcpy_at m 1 libname (n + 1)
   }"

definition library_command ::
    "u8 \<Rightarrow> addr \<Rightarrow> u64 sprd_vdsp_inout list \<Rightarrow> bytes \<Rightarrow> bytes \<Rightarrow> u32 \<Rightarrow> world \<Rightarrow> (sprd_vdsp_status \<times> world) option" where
  "library_command flag device buffers mem libname priority w =
     (case sprd_alloc_ionmem USER_LIBRARY_CMD_LOAD_UNLOAD_INPUTSIZE False w of
        (None, w1) \<Rightarrow> Some (SPRD_XRP_STATUS_FAILURE, w1)
      | (Some (handle, fd, _), w1) \<Rightarrow> do {
          block \<leftarrow> library_block flag mem libname;
          (r, w2) \<leftarrow> sprd_vdsp_send_command_directly device XRP_EXAMPLE_V3_NSID
             (Some \<lparr>io_fd = fd, vir_addr = H_Data block, phy_addr = 0,
                    io_size = USER_LIBRARY_CMD_LOAD_UNLOAD_INPUTSIZE, io_flag = SPRD_VDSP_XRP_READ\<rparr>)
             None buffers (length buffers) priority w1;
          Some (r, sprd_free_ionmem handle w2)
        })"

definition sprd_vdsp_load_library ::
    "addr \<Rightarrow> u64 sprd_vdsp_inout \<Rightarrow> bytes \<Rightarrow> bytes \<Rightarrow> u32 \<Rightarrow> world \<Rightarrow> (sprd_vdsp_status \<times> world) option" where
  "sprd_vdsp_load_library device buffer mem libname priority w =
     library_command 1 device [buffer] mem libname priority w"

definition sprd_vdsp_unload_library ::
    "addr \<Rightarrow> bytes \<Rightarrow> bytes \<Rightarrow> u32 \<Rightarrow> world \<Rightarrow> (sprd_vdsp_status \<times> world) option" where
  "sprd_vdsp_unload_library device mem libname priority w =
     library_command 2 device [] mem libname priority w"

lemma system_nsid:
  "copy_nsid XRP_EXAMPLE_V3_NSID = Some (XRP_EXAMPLE_V3_NSID @ replicate 16 0)"
  "take 9 (XRP_EXAMPLE_V3_NSID @ replicate 16 0) \<noteq> FACEID_NSID"
  by code_simp+

lemma library_block_ok:
  assumes "length mem = 44" and "c_strlen libname = Some n"
  shows "library_block flag mem libname =
    (if n \<le> 42 then Some (flag # take n libname @ 0 # drop (n + 2) mem) else None)"
proof -
  have n: "n < length libname" "libname ! n = 0" using assms(2) by (simp_all add: c_strlen_Some_iff)
  then have "take (Suc n) libname = take n libname @ [0]" by (simp add: take_Suc_conv_app_nth)
  with n assms show ?thesis by (auto simp: library_block_def memcpy_at_def)
qed

lemma library_command_ok:
  assumes ok: "world_ok w c" and d: "d \<in># c" "get_device d w = Some dev"
    and mem: "\<forall>i. malloc_ok (env w) i" and ion: "\<forall>i. ion_mem (env w) i \<noteq> None"
    and xs: "\<forall>x \<in> set xs. io_fd x \<noteq> - 1" and room: "room w c (3 * length xs + 1)"
    and name: "length m = 44" "c_strlen libname = Some n" "n \<le> 42"
  shows "\<exists>fd t w' l. library_command flag d xs m libname prio w = Some (send_result (ioctl_ret (env w) t), w') \<and>
    world_ok w' c \<and> dying w' = dying w \<and> keeps w w' \<and>
    log w' = log w @ Ion_alloc 44 False #
      Ioctl_queue (dev_fd dev) (direct_query (XRP_EXAMPLE_V3_NSID @ replicate 16 0) prio
        (H_Data (flag # take n libname @ 0 # drop (n + 2) m), fd, 44) (H_Null, - 1, 0) xs) # l \<and>
    (\<forall>k \<in> set l. cleanup_call k)"
proof -
  obtain h fd va where ia: "ion_mem (env w) (ticks w) = Some (h, fd, va)" using ion by (metis not_None_eq prod_cases3)
  let ?w1 = "record_call (Ion_alloc 44 False) w\<lparr>ticks := Suc (ticks w)\<rparr>"
  let ?blk = "flag # take n libname @ 0 # drop (n + 2) m"
  let ?in = "Some \<lparr>io_fd = fd, vir_addr = H_Data ?blk, phy_addr = 0, io_size = 44, io_flag = SPRD_VDSP_XRP_READ\<rparr>"
  have ok1: "world_ok ?w1 c" and room1: "room ?w1 c (3 * length xs + 1)" using ok room by simp_all
  have dev1: "get_device d ?w1 = Some dev" using d(2) by (simp add: get_device_def record_call_def)
  have "kinds ?w1 d = Some K_Device" using d(2)
    by (auto simp: get_device_def kinds_def record_call_def split: option.splits body.splits)
  then have req: "direct_request_ok ?w1 c d XRP_EXAMPLE_V3_NSID ?in xs (length xs)"
    using d(1) ion by (simp add: direct_request_ok_def held_def system_nsid servable_def record_call_def)
  obtain t w2 l where s: "sprd_vdsp_send_command_directly d XRP_EXAMPLE_V3_NSID ?in None xs (length xs) prio ?w1 =
      Some (send_result (ioctl_ret (env w) t), w2)"
    "moves (3 * length xs + 1) ?w1 c w2 ({#} + c)" "keeps ?w1 w2"
    "log w2 = (log w @ [Ion_alloc 44 False]) @ Ioctl_queue (dev_fd dev)
       (direct_query (XRP_EXAMPLE_V3_NSID @ replicate 16 0) prio (H_Data ?blk, fd, 44) (H_Null, - 1, 0) xs) # l"
    "\<forall>k \<in> set l. cleanup_call k"
    using send_directly_ok [OF ok1 req room1 dev1, of None prio] mem xs system_nsid
    by (auto simp: inout_args_def record_call_def)
  have "library_command flag d xs m libname prio w = Some (send_result (ioctl_ret (env w) t), sprd_free_ionmem h w2)"
    using ia s(1) library_block_ok [OF name(1,2), of flag] name(3)
    by (simp add: library_command_def ask_def USER_LIBRARY_CMD_LOAD_UNLOAD_INPUTSIZE_def record_call_def)
  moreover have "\<exists>l'. log (sprd_free_ionmem h w2) = log w @ Ion_alloc 44 False #
      Ioctl_queue (dev_fd dev) (direct_query (XRP_EXAMPLE_V3_NSID @ replicate 16 0) prio
        (H_Data ?blk, fd, 44) (H_Null, - 1, 0) xs) # l' \<and> (\<forall>k \<in> set l'. cleanup_call k)"
    using s(4,5) by (intro exI [of _ "if h \<noteq> 0 then l @ [Ion_free h] else l"]) auto
  moreover have "dying (sprd_free_ionmem h w2) = dying w" "keeps w (sprd_free_ionmem h w2)" "world_ok (sprd_free_ionmem h w2) c"
    using s(2,3) moves_ok [OF s(2)] by (auto simp: moves_def evolves_def fun_eq_iff)
  ultimately show ?thesis by blast
qed

section \<open>Properties\<close>

text \<open>
  C24. Loading and unloading a library with a name of at most 42 characters, with memory available: the
  uncached command block is allocated, one ioctl is made in the namespace "system cmd" with the flag 1 or
  2 and the name as the input and the library's buffer (or none) as its only buffer, the result is
  SUCCESS exactly when that ioctl was accepted, and everything is given back.
\<close>

theorem library_commands_correct:
  assumes "world_ok w c" and "d \<in># c" and "get_device d w = Some dev" and "\<forall>i. malloc_ok (env w) i"
    and "\<forall>i. ion_mem (env w) i \<noteq> None" and "io_fd buffer \<noteq> - 1" and "room w c 4"
    and "length m = 44" and "c_strlen libname = Some n" and "n \<le> 42"
  shows "(\<exists>fd t w' l. sprd_vdsp_load_library d buffer m libname prio w = Some (send_result (ioctl_ret (env w) t), w') \<and>
      world_ok w' c \<and> dying w' = dying w \<and> keeps w w' \<and>
      log w' = log w @ Ion_alloc 44 False # Ioctl_queue (dev_fd dev)
        (direct_query (XRP_EXAMPLE_V3_NSID @ replicate 16 0) prio
          (H_Data (1 # take n libname @ 0 # drop (n + 2) m), fd, 44) (H_Null, - 1, 0) [buffer]) # l \<and>
      (\<forall>k \<in> set l. cleanup_call k)) \<and>
    (\<exists>fd t w' l. sprd_vdsp_unload_library d m libname prio w = Some (send_result (ioctl_ret (env w) t), w') \<and>
      world_ok w' c \<and> dying w' = dying w \<and> keeps w w' \<and>
      log w' = log w @ Ion_alloc 44 False # Ioctl_queue (dev_fd dev)
        (direct_query (XRP_EXAMPLE_V3_NSID @ replicate 16 0) prio
          (H_Data (2 # take n libname @ 0 # drop (n + 2) m), fd, 44) (H_Null, - 1, 0) []) # l \<and>
      (\<forall>k \<in> set l. cleanup_call k))"
proof (intro conjI)
  have "\<forall>x \<in> set [buffer]. io_fd x \<noteq> - 1" "room w c (3 * length [buffer] + 1)" using assms(6,7) by simp_all
  note library_command_ok [OF assms(1-5) this assms(8-10), of 1 prio]
  then show "\<exists>fd t w' l. sprd_vdsp_load_library d buffer m libname prio w = Some (send_result (ioctl_ret (env w) t), w') \<and>
      world_ok w' c \<and> dying w' = dying w \<and> keeps w w' \<and>
      log w' = log w @ Ion_alloc 44 False # Ioctl_queue (dev_fd dev)
        (direct_query (XRP_EXAMPLE_V3_NSID @ replicate 16 0) prio
          (H_Data (1 # take n libname @ 0 # drop (n + 2) m), fd, 44) (H_Null, - 1, 0) [buffer]) # l \<and>
      (\<forall>k \<in> set l. cleanup_call k)"
    unfolding sprd_vdsp_load_library_def .
next
  have "\<forall>x \<in> set []. io_fd x \<noteq> - 1" "room w c (3 * length [] + 1)" using assms(7) by (simp_all add: room_def)
  note library_command_ok [OF assms(1-5) this assms(8-10), of 2 prio]
  then show "\<exists>fd t w' l. sprd_vdsp_unload_library d m libname prio w = Some (send_result (ioctl_ret (env w) t), w') \<and>
      world_ok w' c \<and> dying w' = dying w \<and> keeps w w' \<and>
      log w' = log w @ Ion_alloc 44 False # Ioctl_queue (dev_fd dev)
        (direct_query (XRP_EXAMPLE_V3_NSID @ replicate 16 0) prio
          (H_Data (2 # take n libname @ 0 # drop (n + 2) m), fd, 44) (H_Null, - 1, 0) []) # l \<and>
      (\<forall>k \<in> set l. cleanup_call k)"
    unfolding sprd_vdsp_unload_library_def .
qed

theorem library_commands_correct_witness:
  "\<exists>w'. sprd_vdsp_load_library 16 (hd demo_buffers) (replicate 44 0) demo_nsid 2 (world_dev env_good) =
     Some (SPRD_XRP_STATUS_SUCCESS, w') \<and> world_ok w' {#16#}"
proof -
  have dev: "get_device 16 (world_dev env_good) =
      Some \<lparr>dev_fd = 3, dev_generation = 0, dev_type = XRP_DEVICE_NEWMODE\<rparr>"
    by (simp add: get_device_def)
  have nm: "c_strlen demo_nsid = Some 6" by code_simp
  from library_commands_correct [OF world_dev_ok _ dev _ _ _ world_dev_room _ nm, of "hd demo_buffers" "replicate 44 0" 2]
  show ?thesis by (auto simp: env_good_def demo_buffers_def send_result_def)
qed

text \<open>
  A library name of more than 42 characters makes both commands write past the 44 bytes of the
  command block, whatever else they are given.
\<close>

theorem library_name_overflow:
  assumes "length m = 44" and "c_strlen libname = Some n" and "42 < n" and "\<forall>i. ion_mem (env w) i \<noteq> None"
  shows "sprd_vdsp_load_library d buffer m libname prio w = None \<and> sprd_vdsp_unload_library d m libname prio w = None"
proof -
  obtain h fd va where "ion_mem (env w) (ticks w) = Some (h, fd, va)" using assms(4) by (metis not_None_eq prod_cases3)
  then show ?thesis using library_block_ok [OF assms(1,2)] assms(3)
    by (simp add: sprd_vdsp_load_library_def sprd_vdsp_unload_library_def library_command_def ask_def record_call_def)
qed

theorem library_name_overflow_witness:
  "sprd_vdsp_load_library 16 (hd demo_buffers) (replicate 44 0) (replicate 43 0x61 @ [0]) 2 (world_dev env_good) = None"
proof -
  have "c_strlen (replicate 43 0x61 @ [0]) = Some 43" by code_simp
  from library_name_overflow [OF _ this] show ?thesis by (simp add: env_good_def)
qed

end
