(* ===== verification/Vdsp_Dvfs.thy ===== *)
theory Vdsp_Dvfs
  imports Device_Buffer "HOL-Library.Signed_Division"
begin

text \<open>
  Frequency control, \<open>vdsp-service/dvfs/vdsp_dvfs.cpp\<close>: the accounting of busy time, the choice of the
  frequency level and the monitor's cycle, and the power hints. The file's globals form a record; the
  time read from the monotonic clock is an argument. Code under \<open>#if 0\<close> is left out.
\<close>

section \<open>State\<close>

datatype sprd_vdsp_power_level =
  SPRD_VDSP_POWERHINT_RESTORE_DVFS
| SPRD_VDSP_POWERHINT_LEVEL_0 | SPRD_VDSP_POWERHINT_LEVEL_1 | SPRD_VDSP_POWERHINT_LEVEL_2
| SPRD_VDSP_POWERHINT_LEVEL_3 | SPRD_VDSP_POWERHINT_LEVEL_4 | SPRD_VDSP_POWERHINT_LEVEL_5
| SPRD_VDSP_POWERHINT_LEVEL_MAX

fun level_code :: "sprd_vdsp_power_level \<Rightarrow> u32" where
  "level_code SPRD_VDSP_POWERHINT_RESTORE_DVFS = - 1"
| "level_code SPRD_VDSP_POWERHINT_LEVEL_0 = 0"
| "level_code SPRD_VDSP_POWERHINT_LEVEL_1 = 1"
| "level_code SPRD_VDSP_POWERHINT_LEVEL_2 = 2"
| "level_code SPRD_VDSP_POWERHINT_LEVEL_3 = 3"
| "level_code SPRD_VDSP_POWERHINT_LEVEL_4 = 4"
| "level_code SPRD_VDSP_POWERHINT_LEVEL_5 = 5"
| "level_code SPRD_VDSP_POWERHINT_LEVEL_MAX = 6"

record dvfs =
  g_workingcount :: u32
  g_monitor_exit :: bool
  g_starttime :: int
  g_cycle_totaltime :: int
  g_piece_starttime :: int
  g_powerhint_count_level :: "u32 list"
  g_last_powerhint_level :: u32
  g_last_dvfs_index :: u32
  last_percent :: u32

section \<open>Operations\<close>

text \<open>
  The driver's argument is a flag and a union of \<open>enable\<close> and \<open>index\<close>: what is stored last in either is
  what the driver sees.
\<close>

definition set_dvfs :: "addr \<Rightarrow> u32 \<Rightarrow> u32 \<Rightarrow> world \<Rightarrow> world option" where
  "set_dvfs device en_ctl_flag value w = do {
     dev \<leftarrow> get_device device w;
     Some (snd (ask ioctl_ret (record_call (Ioctl_dvfs (dev_fd dev) en_ctl_flag value) w)))
   }"

definition set_dvfs_maxminfreq :: "addr \<Rightarrow> bool \<Rightarrow> world \<Rightarrow> (int \<times> world) option" where
  "set_dvfs_maxminfreq device maxminflag w = do {
     w1 \<leftarrow> set_dvfs device 0
             (if maxminflag then level_code SPRD_VDSP_POWERHINT_LEVEL_5 else level_code SPRD_VDSP_POWERHINT_LEVEL_0) w;
     Some (0, w1)
   }"

text \<open>\<open>thread_ok\<close>: whether the monitor thread could be created.\<close>

definition init_dvfs :: "bool \<Rightarrow> int \<Rightarrow> addr \<Rightarrow> dvfs \<times> world \<Rightarrow> (int \<times> dvfs \<times> world) option" where
  "init_dvfs thread_ok now device = (\<lambda>(g, w). do {
     let g1 = g\<lparr>g_monitor_exit := False, g_last_powerhint_level := level_code SPRD_VDSP_POWERHINT_RESTORE_DVFS,
                g_powerhint_count_level := replicate 6 0, g_starttime := now, g_cycle_totaltime := 0,
                g_last_dvfs_index := level_code SPRD_VDSP_POWERHINT_RESTORE_DVFS\<rparr>;
     w1 \<leftarrow> set_dvfs device 1 (level_code SPRD_VDSP_POWERHINT_LEVEL_5) w;
     Some (if thread_ok then 1 else 0, g1, w1)
   })"

definition deinit_dvfs :: "addr \<Rightarrow> dvfs \<times> world \<Rightarrow> (dvfs \<times> world) option" where
  "deinit_dvfs device = (\<lambda>(g, w). do {
     w1 \<leftarrow> set_dvfs device 0 1 w;
     Some (g\<lparr>g_monitor_exit := True\<rparr>, w1)
   })"

definition preprocess_work_piece :: "int \<Rightarrow> dvfs \<Rightarrow> dvfs" where
  "preprocess_work_piece now g =
     (let g1 = (if g_workingcount g = 0 then g\<lparr>g_piece_starttime := now\<rparr> else g)
      in g1\<lparr>g_workingcount := g_workingcount g1 + 1\<rparr>)"

definition postprocess_work_piece :: "int \<Rightarrow> dvfs \<Rightarrow> dvfs" where
  "postprocess_work_piece now g =
     (let g1 = g\<lparr>g_workingcount := g_workingcount g - 1\<rparr>
      in if g_workingcount g1 = 0
         then let realstarttime = (if g_piece_starttime g1 > g_starttime g1 then g_piece_starttime g1 else g_starttime g1)
              in g1\<lparr>g_cycle_totaltime := g_cycle_totaltime g1 + (now - realstarttime)\<rparr>
         else g1)"

definition set_powerhint_flag :: "addr \<Rightarrow> int \<Rightarrow> u32 \<Rightarrow> world \<Rightarrow> (int \<times> world) option" where
  "set_powerhint_flag device level acquire_release w = do {
     dev \<leftarrow> get_device device w;
     Some (ask ioctl_ret (record_call (Ioctl_powerhint (dev_fd dev) level acquire_release) w))
   }"

text \<open>
  \<open>calculate_vdsp_usage\<close> reads the clock twice: at \<open>now\<close>, before it takes the lock, and at \<open>later\<close>. An
  empty interval is a division by zero.
\<close>

definition calculate_vdsp_usage :: "int \<Rightarrow> int \<Rightarrow> int \<Rightarrow> dvfs \<Rightarrow> (u32 \<times> dvfs) option" where
  "calculate_vdsp_usage fromtime now later g =
     (let g1 = (if g_workingcount g \<noteq> 0
                then if g_piece_starttime g \<le> fromtime
                     then g\<lparr>g_cycle_totaltime := now - fromtime\<rparr>
                     else g\<lparr>g_cycle_totaltime := g_cycle_totaltime g + (now - g_piece_starttime g)\<rparr>
                else g)
      in if now = fromtime then None
         else Some (word_of_int ((g_cycle_totaltime g1 * 100) sdiv (now - fromtime)),
                    g1\<lparr>g_starttime := later, g_cycle_totaltime := 0\<rparr>))"

definition calculate_dvfs_index :: "u32 \<Rightarrow> dvfs \<Rightarrow> u32 \<times> dvfs" where
  "calculate_dvfs_index percent g =
     (let last = last_percent g;
          level =
            (if last > 50 then
               (if percent > 50 then SPRD_VDSP_POWERHINT_LEVEL_5
                else if percent \<le> 50 \<and> percent > 20 then SPRD_VDSP_POWERHINT_LEVEL_3
                else if percent \<le> 20 then SPRD_VDSP_POWERHINT_LEVEL_2
                else SPRD_VDSP_POWERHINT_LEVEL_0)
             else if last \<le> 50 \<and> last > 20 then
               (if percent > 50 then SPRD_VDSP_POWERHINT_LEVEL_5
                else if percent \<le> 50 \<and> percent > 20 then SPRD_VDSP_POWERHINT_LEVEL_3
                else if percent \<le> 20 then SPRD_VDSP_POWERHINT_LEVEL_2
                else SPRD_VDSP_POWERHINT_LEVEL_2)
             else if last \<le> 20 then
               (if percent > 50 then SPRD_VDSP_POWERHINT_LEVEL_5
                else if percent \<le> 50 \<and> percent > 20 then SPRD_VDSP_POWERHINT_LEVEL_2
                else if percent \<le> 20 then SPRD_VDSP_POWERHINT_LEVEL_2
                else SPRD_VDSP_POWERHINT_LEVEL_0)
             else SPRD_VDSP_POWERHINT_LEVEL_2)
      in (level_code level, g\<lparr>last_percent := percent\<rparr>))"

text \<open>One cycle of \<open>dvfs_monitor_thread\<close>, between two sleeps; the flag is false when the thread exits.\<close>

definition dvfs_monitor_cycle :: "int \<Rightarrow> int \<Rightarrow> addr \<Rightarrow> dvfs \<times> world \<Rightarrow> (bool \<times> dvfs \<times> world) option" where
  "dvfs_monitor_cycle now later device = (\<lambda>(g, w).
     if g_monitor_exit g then Some (False, g, w)
     else if g_last_powerhint_level g = level_code SPRD_VDSP_POWERHINT_RESTORE_DVFS
     then do {
       (percentage, g1) \<leftarrow> calculate_vdsp_usage (g_starttime g) now later g;
       let (index, g2) = calculate_dvfs_index percentage g1;
       (if index \<noteq> g_last_dvfs_index g2
        then do { w1 \<leftarrow> set_dvfs device 0 index w; Some (True, g2\<lparr>g_last_dvfs_index := index\<rparr>, w1) }
        else Some (True, g2, w))
     }
     else Some (True, g, w))"

section \<open>Runs\<close>

text \<open>
  The service's threads enter and leave commands while the monitor runs its cycles; the accounting
  functions run under one lock, at non-decreasing times. \<open>busy\<close> counts the commands in progress.
\<close>

inductive dvfs_run :: "addr \<Rightarrow> world \<Rightarrow> int \<Rightarrow> nat \<Rightarrow> dvfs \<Rightarrow> world \<Rightarrow> bool" for device w0 where
  start: "init_dvfs True t device (g0\<lparr>g_workingcount := 0\<rparr>, w0) = Some (r, g, w) \<Longrightarrow> dvfs_run device w0 t 0 g w"
| enter: "dvfs_run device w0 t n g w \<Longrightarrow> t \<le> now \<Longrightarrow> n < 2 ^ 32 - 1 \<Longrightarrow>
    dvfs_run device w0 now (Suc n) (preprocess_work_piece now g) w"
| leave: "dvfs_run device w0 t (Suc n) g w \<Longrightarrow> t \<le> now \<Longrightarrow> dvfs_run device w0 now n (postprocess_work_piece now g) w"
| cycle: "dvfs_run device w0 t n g w \<Longrightarrow> t \<le> now \<Longrightarrow> dvfs_monitor_cycle now now device (g, w) = Some (b, g', w') \<Longrightarrow>
    dvfs_run device w0 now n g' w'"

text \<open>The accounted time never exceeds the time of the cycle.\<close>

definition dvfs_inv :: "int \<Rightarrow> nat \<Rightarrow> dvfs \<Rightarrow> bool" where
  "dvfs_inv t n g \<longleftrightarrow> unat (g_workingcount g) = n \<and> g_starttime g \<le> t \<and> 0 \<le> g_cycle_totaltime g \<and>
     (if n = 0 then g_cycle_totaltime g \<le> t - g_starttime g
      else g_piece_starttime g \<le> t \<and>
           g_cycle_totaltime g \<le> max (g_piece_starttime g) (g_starttime g) - g_starttime g)"

lemma working_suc:
  "unat (g_workingcount g) = n \<Longrightarrow> n < 2 ^ 32 - 1 \<Longrightarrow> unat (g_workingcount g + 1) = Suc n"
  using unat_inc [OF unat_lt_max, of "g_workingcount g"] by simp

lemma dvfs_inv_enter:
  assumes "dvfs_inv t n g" and "t \<le> now" and "n < 2 ^ 32 - 1"
  shows "dvfs_inv now (Suc n) (preprocess_work_piece now g)"
  using assms working_suc [of g n]
  by (auto simp: dvfs_inv_def preprocess_work_piece_def Let_def unat_eq_0 split: if_splits)

lemma dvfs_inv_leave:
  assumes "dvfs_inv t (Suc n) g" and "t \<le> now"
  shows "dvfs_inv now n (postprocess_work_piece now g)"
proof -
  have "g_workingcount g \<noteq> 0" using assms(1) by (auto simp: dvfs_inv_def)
  then have "unat (g_workingcount g - 1) = n" using assms(1) by (simp add: dvfs_inv_def unat_dec)
  moreover from this have "g_workingcount g - 1 = 0 \<longleftrightarrow> n = 0" by (metis unat_0 unat_eq_0)
  ultimately show ?thesis using assms
    by (auto simp: dvfs_inv_def postprocess_work_piece_def Let_def max_def split: if_splits)
qed

lemma percent_bound:
  assumes "0 \<le> x" and "x \<le> d" and "0 < (d :: int)"
  shows "unat (word_of_int ((x * 100) sdiv d) :: u32) \<le> 100"
proof -
  have "(x * 100) sdiv d = (x * 100) div d" using assms
    by (cases "x = 0") (simp_all add: signed_divide_int_def sgn_if)
  moreover have "(x * 100) div d \<le> (d * 100) div d" using assms by (intro zdiv_mono1) simp_all
  then have "(x * 100) div d \<le> 100" using assms by simp
  moreover have "0 \<le> (x * 100) div d" using assms by (simp add: pos_imp_zdiv_nonneg_iff)
  ultimately show ?thesis by (simp add: unsigned_of_int take_bit_int_eq_self nat_le_iff)
qed

text \<open>One evaluation of the usage: the percentage is in range and the accounting starts afresh.\<close>

lemma usage_ok:
  assumes "dvfs_inv t n g" and "t \<le> now" and "calculate_vdsp_usage (g_starttime g) now now g = Some (p, g')"
  shows "unat p \<le> 100 \<and> dvfs_inv now n g' \<and> g_starttime g' = now \<and> g_last_dvfs_index g' = g_last_dvfs_index g"
proof -
  let ?x = "if n = 0 then g_cycle_totaltime g else if g_piece_starttime g \<le> g_starttime g then now - g_starttime g
            else g_cycle_totaltime g + (now - g_piece_starttime g)"
  have w: "g_workingcount g = 0 \<longleftrightarrow> n = 0" using assms(1) by (auto simp: dvfs_inv_def unat_eq_0)
  have "now \<noteq> g_starttime g" using assms(3) by (auto simp: calculate_vdsp_usage_def Let_def split: if_splits)
  then have d: "0 < now - g_starttime g" using assms(1,2) by (simp add: dvfs_inv_def)
  have x: "0 \<le> ?x" "?x \<le> now - g_starttime g"
    using assms(1,2) by (auto simp: dvfs_inv_def max_def split: if_splits)
  have "p = word_of_int ((?x * 100) sdiv (now - g_starttime g))" "dvfs_inv now n g'" "g_starttime g' = now"
    "g_last_dvfs_index g' = g_last_dvfs_index g"
    using assms w by (auto simp: calculate_vdsp_usage_def dvfs_inv_def Let_def split: if_splits)
  then show ?thesis using percent_bound [OF x d] by simp
qed


lemma init_dvfs_ok:
  assumes "init_dvfs True t device (g0\<lparr>g_workingcount := 0\<rparr>, w0) = Some (r, g, w)"
  shows "\<exists>dev. get_device device w0 = Some dev \<and> get_device device w = Some dev \<and> dvfs_inv t 0 g \<and>
    g_last_dvfs_index g = - 1 \<and> log w = log w0 @ [Ioctl_dvfs (dev_fd dev) 1 5]"
  using assms
  by (auto simp: init_dvfs_def set_dvfs_def dvfs_inv_def ask_def record_call_def get_device_def Let_def
      split: bind_splits)

lemma cycle_cases:
  assumes "dvfs_monitor_cycle now now device (g, w) = Some (b, g', w')" and "dvfs_inv t n g" and "t \<le> now"
  obtains "g' = g" "w' = w"
  | p g1 where "calculate_vdsp_usage (g_starttime g) now now g = Some (p, g1)"
      "dvfs_inv now n g'" "g_last_dvfs_index g' = fst (calculate_dvfs_index p g1)"
      "if g_last_dvfs_index g' = g_last_dvfs_index g then w' = w
       else set_dvfs device 0 (g_last_dvfs_index g') w = Some w'"
proof (cases "g' = g \<and> w' = w")
  case False
  then obtain p g1 where u: "calculate_vdsp_usage (g_starttime g) now now g = Some (p, g1)"
    "(if fst (calculate_dvfs_index p g1) \<noteq> g_last_dvfs_index (snd (calculate_dvfs_index p g1))
      then do { w1 \<leftarrow> set_dvfs device 0 (fst (calculate_dvfs_index p g1)) w;
                Some (True, snd (calculate_dvfs_index p g1)\<lparr>g_last_dvfs_index := fst (calculate_dvfs_index p g1)\<rparr>, w1) }
      else Some (True, snd (calculate_dvfs_index p g1), w)) = Some (b, g', w')"
    using assms(1) by (auto simp: dvfs_monitor_cycle_def Let_def case_prod_beta split: if_splits bind_splits)
  have s: "snd (calculate_dvfs_index p g1) = g1\<lparr>last_percent := p\<rparr>"
    by (simp add: calculate_dvfs_index_def Let_def)
  note k = usage_ok [OF assms(2,3) u(1)]
  show ?thesis
    by (rule that(2) [OF u(1)])
      (use u(2) k in \<open>auto simp: s dvfs_inv_def split: if_splits bind_splits\<close>)
qed (use that(1) in blast)


text \<open>The calls a run has made: the enabling call, then the monitor's changes of the index.\<close>

definition monitor_log :: "addr \<Rightarrow> world \<Rightarrow> dvfs \<Rightarrow> world \<Rightarrow> bool" where
  "monitor_log device w0 g w \<longleftrightarrow> (\<exists>dev vs. get_device device w = Some dev \<and>
     log w = log w0 @ Ioctl_dvfs (dev_fd dev) 1 5 # map (Ioctl_dvfs (dev_fd dev) 0) vs \<and>
     distinct_adj vs \<and> set vs \<subseteq> {2, 3, 5} \<and> g_last_dvfs_index g = (if vs = [] then - 1 else last vs))"

definition dvfs_level :: "u32 \<Rightarrow> u32 \<Rightarrow> u32" where
  "dvfs_level prev percent = (if percent > 50 then 5 else if percent > 20 \<and> prev > 20 then 3 else 2)"

lemma dvfs_index_eq:
  "calculate_dvfs_index p g = (dvfs_level (last_percent g) p, g\<lparr>last_percent := p\<rparr>)"
proof -
  have "x \<le> 50 \<or> 50 < x" "x \<le> 20 \<or> 20 < x" "50 < x \<Longrightarrow> 20 < x" for x :: u32
    by (auto simp: word_less_nat_alt word_le_nat_alt)
  then show ?thesis by (auto simp: calculate_dvfs_index_def dvfs_level_def Let_def not_le not_less)
qed

lemma index_levels: "fst (calculate_dvfs_index p g) \<in> {2, 3, 5}"
  by (simp add: dvfs_index_eq dvfs_level_def)

lemma set_dvfs_log:
  assumes "set_dvfs device 0 v w = Some w'" and "get_device device w = Some dev"
  shows "log w' = log w @ [Ioctl_dvfs (dev_fd dev) 0 v] \<and> get_device device w' = Some dev"
  using assms by (auto simp: set_dvfs_def ask_def record_call_def get_device_def)

lemma monitor_log_cycle:
  assumes "monitor_log device w0 g w" and "dvfs_monitor_cycle now now device (g, w) = Some (b, g', w')"
    and "dvfs_inv t n g" and "t \<le> now"
  shows "monitor_log device w0 g' w' \<and> dvfs_inv now n g'"
proof -
  obtain dev vs where l: "get_device device w = Some dev"
    "log w = log w0 @ Ioctl_dvfs (dev_fd dev) 1 5 # map (Ioctl_dvfs (dev_fd dev) 0) vs"
    "distinct_adj vs" "set vs \<subseteq> {2, 3, 5}" "g_last_dvfs_index g = (if vs = [] then - 1 else last vs)"
    using assms(1) by (auto simp: monitor_log_def)
  have inv: "dvfs_inv now n g" using assms(3,4) by (auto simp: dvfs_inv_def split: if_splits)
  from assms(2-4) show ?thesis
  proof (cases rule: cycle_cases)
    case 1
    then show ?thesis using assms(1) inv by simp
  next
    case (2 p g1)
    let ?v = "g_last_dvfs_index g'"
    show ?thesis
    proof (cases "?v = g_last_dvfs_index g")
      case True
      then show ?thesis using 2 assms(1) by (simp add: monitor_log_def)
    next
      case False
      then have w': "log w' = log w @ [Ioctl_dvfs (dev_fd dev) 0 ?v]" "get_device device w' = Some dev"
        using 2(4) set_dvfs_log [OF _ l(1)] by auto
      have "distinct_adj (vs @ [?v])"
        using l(3,5) False by (auto simp: distinct_adj_append_iff)
      moreover have "?v \<in> {2, 3, 5}" using 2(3) index_levels by metis
      ultimately show ?thesis using l w' 2(2) unfolding monitor_log_def
        by (intro conjI exI [of _ dev] exI [of _ "vs @ [?v]"]) auto
    qed
  qed
qed

lemma dvfs_run_ok: "dvfs_run device w0 t n g w \<Longrightarrow> dvfs_inv t n g \<and> monitor_log device w0 g w"
proof (induction rule: dvfs_run.induct)
  case (start t g0 r g w)
  then obtain dev where "get_device device w = Some dev" "dvfs_inv t 0 g" "g_last_dvfs_index g = - 1"
    "log w = log w0 @ [Ioctl_dvfs (dev_fd dev) 1 5]"
    using init_dvfs_ok by blast
  then show ?case unfolding monitor_log_def by (intro conjI exI [of _ dev] exI [of _ "[]"]) auto
next
  case (enter t n g w now)
  then show ?case
    using dvfs_inv_enter [of t n g now] by (auto simp: monitor_log_def preprocess_work_piece_def Let_def)
next
  case (leave t n g w now)
  then show ?case
    using dvfs_inv_leave [of t n g now] by (auto simp: monitor_log_def postprocess_work_piece_def Let_def)
next
  case (cycle t n g w now b g' w')
  then show ?case using monitor_log_cycle by blast
qed

section \<open>Properties\<close>

text \<open>
  C25. Busy time is accounted exactly enough: in every run of commands entering and leaving, with any
  number of monitor cycles in between, the working count is the number of commands in progress, and an
  evaluation over a non-empty interval returns a percentage between 0 and 100. With a clock value read
  before the lock was waited for, as the code reads it, the percentage can be higher.
\<close>

theorem usage_bounded:
  assumes "dvfs_run device w0 t n g w" and "t \<le> now" and "g_starttime g < now"
  shows "unat (g_workingcount g) = n \<and>
    (\<exists>p g'. calculate_vdsp_usage (g_starttime g) now now g = Some (p, g') \<and> unat p \<le> 100) \<and>
    (\<forall>h. map_option fst (calculate_vdsp_usage 0 10 20 (h\<lparr>g_workingcount := 0, g_cycle_totaltime := 20\<rparr>)) = Some 200)"
proof (intro conjI)
  have inv: "dvfs_inv t n g" using dvfs_run_ok [OF assms(1)] by blast
  then show "unat (g_workingcount g) = n" by (simp add: dvfs_inv_def)
  obtain p g' where u: "calculate_vdsp_usage (g_starttime g) now now g = Some (p, g')"
    using assms(3) by (auto simp: calculate_vdsp_usage_def Let_def)
  then show "\<exists>p g'. calculate_vdsp_usage (g_starttime g) now now g = Some (p, g') \<and> unat p \<le> 100"
    using usage_ok [OF inv assms(2)] by blast
  show "\<forall>h. map_option fst (calculate_vdsp_usage 0 10 20 (h\<lparr>g_workingcount := 0, g_cycle_totaltime := 20\<rparr>)) = Some 200"
    by (simp add: calculate_vdsp_usage_def Let_def signed_divide_int_def)
qed

text \<open>A run: a command enters at time 5; the monitor looks at time 25.\<close>

definition dvfs0 :: dvfs where
  "dvfs0 = \<lparr>g_workingcount = 0, g_monitor_exit = False, g_starttime = 0, g_cycle_totaltime = 0, g_piece_starttime = 0,
     g_powerhint_count_level = [], g_last_powerhint_level = - 1, g_last_dvfs_index = - 1, last_percent = 0\<rparr>"

lemma dvfs0_run:
  "\<exists>g w. dvfs_run 16 (world_dev env_good) 5 1 g w \<and> g_starttime g = 0 \<and> g_last_dvfs_index g = - 1 \<and>
     g_workingcount g = 1 \<and> g_cycle_totaltime g = 0 \<and> g_piece_starttime g = 5 \<and> \<not> g_monitor_exit g \<and>
     g_last_powerhint_level g = - 1 \<and> log w = [Open 0 O_RDONLY, Ioctl_dvfs 3 1 5]"
proof -
  obtain r g w where i: "init_dvfs True 0 16 (dvfs0\<lparr>g_workingcount := 0\<rparr>, world_dev env_good) = Some (r, g, w)"
    and g: "g_starttime g = 0" "g_last_dvfs_index g = - 1" "g_workingcount g = 0" "g_cycle_totaltime g = 0"
    "\<not> g_monitor_exit g" "g_last_powerhint_level g = - 1" "log w = [Open 0 O_RDONLY, Ioctl_dvfs 3 1 5]"
    by (simp add: init_dvfs_def set_dvfs_def ask_def record_call_def get_device_def dvfs0_def Let_def)
  have "dvfs_run 16 (world_dev env_good) 5 1 (preprocess_work_piece 5 g) w"
    using dvfs_run.enter [OF dvfs_run.start [OF i], of 5] by simp
  then show ?thesis using g by (intro exI) (auto simp: preprocess_work_piece_def Let_def)
qed

text \<open>The monitor's cycle at time 25 finds 80 per cent and asks for level 5.\<close>

lemma dvfs0_cycle:
  "\<exists>g w. dvfs_run 16 (world_dev env_good) 25 1 g w \<and>
     log w = [Open 0 O_RDONLY, Ioctl_dvfs 3 1 5, Ioctl_dvfs 3 0 5]"
proof -
  obtain g w where g: "dvfs_run 16 (world_dev env_good) 5 1 g w" "g_starttime g = 0" "g_last_dvfs_index g = - 1"
     "g_workingcount g = 1" "g_cycle_totaltime g = 0" "g_piece_starttime g = 5" "\<not> g_monitor_exit g"
     "g_last_powerhint_level g = - 1" "log w = [Open 0 O_RDONLY, Ioctl_dvfs 3 1 5]" using dvfs0_run by blast
  obtain dev where dev: "get_device 16 w = Some dev" "dev_fd dev = 3"
    using dvfs_run_ok [OF g(1)] g(9) by (auto simp: monitor_log_def)
  have u: "calculate_vdsp_usage 0 25 25 g = Some (80, g\<lparr>g_starttime := 25, g_cycle_totaltime := 0\<rparr>)"
    using g by (simp add: calculate_vdsp_usage_def Let_def signed_divide_int_def)
  then have "\<exists>g' w'. dvfs_monitor_cycle 25 25 16 (g, w) = Some (True, g', w') \<and> log w' = log w @ [Ioctl_dvfs 3 0 5]"
    using g dev by (simp add: dvfs_monitor_cycle_def dvfs_index_eq dvfs_level_def set_dvfs_def ask_def record_call_def Let_def)
  then show ?thesis using dvfs_run.cycle [OF g(1), of 25] g(9) by fastforce
qed

theorem usage_bounded_witness:
  "\<exists>g w p g'. dvfs_run 16 (world_dev env_good) 5 1 g w \<and> g_starttime g < 25 \<and>
     calculate_vdsp_usage (g_starttime g) 25 25 g = Some (p, g') \<and> unat p \<le> 100"
proof -
  obtain g w where "dvfs_run 16 (world_dev env_good) 5 1 g w" "g_starttime g = 0" using dvfs0_run by blast
  then show ?thesis using usage_bounded [of 16 "world_dev env_good" 5 1 g w 25] by auto
qed

text \<open>
  C26. The choice of the level is what its three tables amount to: level 5 above 50 per cent, level 3
  between 20 and 50 per cent if the previous cycle was above 20 too, and level 2 otherwise; levels 0, 1 and
  4 are never chosen.
\<close>

theorem dvfs_index_correct:
  "calculate_dvfs_index percent g =
     (if percent > 50 then level_code SPRD_VDSP_POWERHINT_LEVEL_5
      else if percent > 20 \<and> last_percent g > 20 then level_code SPRD_VDSP_POWERHINT_LEVEL_3
      else level_code SPRD_VDSP_POWERHINT_LEVEL_2, g\<lparr>last_percent := percent\<rparr>)"
  by (simp add: dvfs_index_eq dvfs_level_def)

text \<open>
  C27. In every run the driver is told to enable frequency control once, at the start, with the value 5 (the
  index overwrites the enable flag in the union), and afterwards only levels 2, 3 and 5, never the same
  level twice in a row; the level remembered is the last one sent.
\<close>

theorem monitor_calls_correct:
  assumes "dvfs_run device w0 t n g w"
  shows "\<exists>dev vs. get_device device w = Some dev \<and>
     log w = log w0 @ Ioctl_dvfs (dev_fd dev) 1 5 # map (Ioctl_dvfs (dev_fd dev) 0) vs \<and>
     distinct_adj vs \<and> set vs \<subseteq> {2, 3, 5} \<and> g_last_dvfs_index g = (if vs = [] then - 1 else last vs)"
  using dvfs_run_ok [OF assms] unfolding monitor_log_def by blast

theorem monitor_calls_correct_witness:
  "\<exists>g w dev vs. dvfs_run 16 (world_dev env_good) 25 1 g w \<and> get_device 16 w = Some dev \<and>
     [Open 0 O_RDONLY, Ioctl_dvfs 3 1 5, Ioctl_dvfs 3 0 5] =
       Open 0 O_RDONLY # Ioctl_dvfs (dev_fd dev) 1 5 # map (Ioctl_dvfs (dev_fd dev) 0) vs \<and>
     distinct_adj vs \<and> set vs \<subseteq> {2, 3, 5}"
proof -
  obtain g w where g: "dvfs_run 16 (world_dev env_good) 25 1 g w"
     "log w = [Open 0 O_RDONLY, Ioctl_dvfs 3 1 5, Ioctl_dvfs 3 0 5]" using dvfs0_cycle by blast
  obtain dev vs where "get_device 16 w = Some dev" "log w = log (world_dev env_good) @ Ioctl_dvfs (dev_fd dev) 1 5 # map (Ioctl_dvfs (dev_fd dev) 0) vs"
    "distinct_adj vs" "set vs \<subseteq> {2, 3, 5}"
    using monitor_calls_correct [OF g(1)] by blast
  with g show ?thesis by (intro exI [of _ g] exI [of _ w] exI [of _ dev] exI [of _ vs]) auto
qed

end
