(* ===== verification/Vdsp_Service.thy ===== *)
theory Vdsp_Service
  imports Vdsp_Interface Vdsp_Dvfs
begin

text \<open>
  The service, \<open>BnVdspService\<close> of \<open>vdsp-service/IVdspService.cpp\<close>, in the configuration of its header
  (\<open>DVFS_OPEN\<close> is not defined): the clients' open counts, loaded libraries and power hints, and the shared
  device. An operation that gives up \<open>mLock\<close> around its driver call is defined by its sections under the
  lock and the call between them; the operation itself is their composition.

  A client is the number of its binder. Names of libraries are the contents of the C strings.
\<close>

section \<open>State\<close>

type_synonym client = nat

record lib_info =
  libname :: bytes
  loadcount :: int

record client_info =
  mclientbinder :: client
  mopencount :: int
  mpowerhint_levelnum :: "u32 list"
  mloadinfo :: "lib_info list"

record vdsp_service =
  mopen_count :: u32
  mworking :: u32
  mDevice :: ptr
  mType :: sprd_vdsp_worktype
  mIonDevFd :: int
  mClientInfo :: "client_info list"

type_synonym service_state = "vdsp_service \<times> world"

section \<open>The table of clients\<close>

text \<open>
  The loops over \<open>mClientInfo\<close> and \<open>mloadinfo\<close> look for an entry: binders are distinct in the table, and
  names in an entry, so that a loop that does not stop at its match does nothing more.
\<close>

definition find_client :: "client \<Rightarrow> vdsp_service \<Rightarrow> client_info option" where
  "find_client client s = List.find (\<lambda>c. mclientbinder c = client) (mClientInfo s)"

fun alter_client :: "client \<Rightarrow> (client_info \<Rightarrow> client_info) \<Rightarrow> client_info list \<Rightarrow> client_info list" where
  "alter_client client f [] = []"
| "alter_client client f (c # cs) =
     (if mclientbinder c = client then f c # cs else c # alter_client client f cs)"

fun erase_client :: "client \<Rightarrow> client_info list \<Rightarrow> client_info list" where
  "erase_client client [] = []"
| "erase_client client (c # cs) = (if mclientbinder c = client then cs else c # erase_client client cs)"

definition on_client :: "client \<Rightarrow> (client_info \<Rightarrow> client_info) \<Rightarrow> vdsp_service \<Rightarrow> vdsp_service" where
  "on_client client f s = s\<lparr>mClientInfo := alter_client client f (mClientInfo s)\<rparr>"

text \<open>The first library of a name: its count, and the two updates the service makes.\<close>

fun lib_count :: "bytes \<Rightarrow> lib_info list \<Rightarrow> int" where
  "lib_count name [] = 0"
| "lib_count name (l # ls) = (if libname l = name then loadcount l else lib_count name ls)"

fun lib_add :: "bytes \<Rightarrow> lib_info list \<Rightarrow> lib_info list" where
  "lib_add name [] = [\<lparr>libname = name, loadcount = 1\<rparr>]"
| "lib_add name (l # ls) =
     (if libname l = name then l\<lparr>loadcount := loadcount l + 1\<rparr> # ls else l # lib_add name ls)"

fun lib_dec :: "bytes \<Rightarrow> lib_info list \<Rightarrow> lib_info list option" where
  "lib_dec name [] = None"
| "lib_dec name (l # ls) =
     (if libname l = name
      then Some (if loadcount l - 1 = 0 then ls else l\<lparr>loadcount := loadcount l - 1\<rparr> # ls)
      else map_option ((#) l) (lib_dec name ls))"

definition GetClientOpenNum :: "client \<Rightarrow> vdsp_service \<Rightarrow> int" where
  "GetClientOpenNum client s = (case find_client client s of Some c \<Rightarrow> mopencount c | None \<Rightarrow> 0)"

definition GetClientLoadNumByName :: "bytes \<Rightarrow> client \<Rightarrow> vdsp_service \<Rightarrow> int" where
  "GetClientLoadNumByName name client s =
     (case find_client client s of Some c \<Rightarrow> lib_count name (mloadinfo c) | None \<Rightarrow> 0)"

definition GetLoadNumTotalByName :: "bytes \<Rightarrow> vdsp_service \<Rightarrow> int" where
  "GetLoadNumTotalByName name s = (\<Sum>c\<leftarrow>mClientInfo s. lib_count name (mloadinfo c))"

definition GetTotalOpenNumAndLibCount :: "vdsp_service \<Rightarrow> int \<times> int" where
  "GetTotalOpenNumAndLibCount s =
     (\<Sum>c\<leftarrow>mClientInfo s. mopencount c, \<Sum>c\<leftarrow>mClientInfo s. \<Sum>l\<leftarrow>mloadinfo c. loadcount l)"

definition GetClientLoadTotalNum :: "client \<Rightarrow> vdsp_service \<Rightarrow> int" where
  "GetClientLoadTotalNum client s =
     (case find_client client s of Some c \<Rightarrow> (\<Sum>l\<leftarrow>mloadinfo c. loadcount l) | None \<Rightarrow> 0)"

definition AddClientOpenNumber :: "client \<Rightarrow> service_state \<Rightarrow> int \<times> service_state" where
  "AddClientOpenNumber client = (\<lambda>(s, w).
     case find_client client s of
       Some c \<Rightarrow> (0, on_client client (\<lambda>c. c\<lparr>mopencount := mopencount c + 1\<rparr>) s, w)
     | None \<Rightarrow>
         let new = \<lparr>mclientbinder = client, mopencount = 1, mpowerhint_levelnum = replicate 6 0, mloadinfo = []\<rparr>;
             (ret, w1) = ask link_status (record_call (Link_death client) w)
         in (ret, if ret = 0 then s\<lparr>mClientInfo := mClientInfo s @ [new]\<rparr> else s, w1))"

definition DecClientOpenNumber :: "client \<Rightarrow> service_state \<Rightarrow> int \<times> service_state" where
  "DecClientOpenNumber client = (\<lambda>(s, w).
     case find_client client s of
       Some c \<Rightarrow>
         if mopencount c - 1 = 0
         then (0, s\<lparr>mClientInfo := erase_client client (mClientInfo s)\<rparr>, record_call (Unlink_death client) w)
         else (0, on_client client (\<lambda>c. c\<lparr>mopencount := mopencount c - 1\<rparr>) s, w)
     | None \<Rightarrow> (- 1, s, w))"

definition ClearClientInfo :: "client \<Rightarrow> service_state \<Rightarrow> int \<times> service_state" where
  "ClearClientInfo client = (\<lambda>(s, w).
     case find_client client s of
       Some c \<Rightarrow> (0, s\<lparr>mClientInfo := erase_client client (mClientInfo s)\<rparr>, record_call (Unlink_death client) w)
     | None \<Rightarrow> (- 1, s, w))"

text \<open>\<open>strcpy\<close> into \<open>libname[32]\<close>: a new name of more than 31 characters overflows it.\<close>

definition AddClientLoadNumByName :: "bytes \<Rightarrow> client \<Rightarrow> vdsp_service \<Rightarrow> (int \<times> vdsp_service) option" where
  "AddClientLoadNumByName name client s =
     (case find_client client s of
        None \<Rightarrow> Some (- 1, s)
      | Some c \<Rightarrow>
          if name \<notin> libname ` set (mloadinfo c) \<and> 32 \<le> length name then None
          else Some (0, on_client client (\<lambda>c. c\<lparr>mloadinfo := lib_add name (mloadinfo c)\<rparr>) s))"

definition DecClientLoadNumByName :: "bytes \<Rightarrow> client \<Rightarrow> vdsp_service \<Rightarrow> int \<times> vdsp_service" where
  "DecClientLoadNumByName name client s =
     (case find_client client s of
        None \<Rightarrow> (- 1, s)
      | Some c \<Rightarrow>
          (case lib_dec name (mloadinfo c) of
             None \<Rightarrow> (- 1, s)
           | Some ls \<Rightarrow> (0, on_client client (\<lambda>c. c\<lparr>mloadinfo := ls\<rparr>) s)))"

text \<open>\<open>level\<close> indexes an array of six counters, and \<open>acquire_release\<close> is 0 or 1 in the interface's enum.\<close>

definition AddDecClientPowerHint :: "client \<Rightarrow> int \<Rightarrow> u32 \<Rightarrow> vdsp_service \<Rightarrow> (int \<times> vdsp_service) option" where
  "AddDecClientPowerHint client level acquire_release s =
     (case find_client client s of
        None \<Rightarrow> Some (- 1, s)
      | Some c \<Rightarrow>
          if acquire_release \<noteq> 0 \<and> acquire_release \<noteq> 1 then Some (- 1, s)
          else if level < 0 \<or> 6 \<le> level then None
          else Some (0, on_client client (\<lambda>c. c\<lparr>mpowerhint_levelnum := (mpowerhint_levelnum c)[nat level :=
                    mpowerhint_levelnum c ! nat level + (if acquire_release = 0 then 1 else - 1)]\<rparr>) s))"

section \<open>Memory\<close>

text \<open>
  The mapping is logged with its first two and last two bytes, indexed by \<open>size - 2\<close> and \<open>size - 1\<close> in 32
  bits: a size of 1 reads 4 GiB away. A mapping of no bytes fails.
\<close>

definition MapIonFd :: "int \<Rightarrow> u32 \<Rightarrow> world \<Rightarrow> (u64 option \<times> world) option" where
  "MapIonFd infd sz w =
     (let (r, w1) = ask mmap_addr (record_call (Mmap infd sz) w)
      in if r = None \<or> sz = 0 then Some (None, w1)
         else if sz = 1 then None
         else Some (r, w1))"

definition unMapIon :: "u64 \<Rightarrow> u32 \<Rightarrow> world \<Rightarrow> world" where
  "unMapIon p sz w = record_call (Munmap p sz) w"

section \<open>Opening and closing\<close>

definition openXrpDevice :: "client \<Rightarrow> sprd_vdsp_worktype \<Rightarrow> service_state \<Rightarrow> (int \<times> service_state) option" where
  "openXrpDevice client type st =
     (case AddClientOpenNumber client st of (ret, s, w) \<Rightarrow>
        if ret \<noteq> 0 then Some (ret, s, w)
        else if mopen_count s = 0 then do {
          (device, w1) \<leftarrow> sprd_vdsp_open_device 0 type w;
          let (ionfd, w2) = ask open_fd (record_call (Open_ion O_RDWR) w1);
          let s1 = s\<lparr>mDevice := device, mType := type, mIonDevFd := ionfd\<rparr>;
          (if device \<noteq> None \<and> 0 < ionfd
           then Some (0, s1\<lparr>mopen_count := mopen_count s1 + 1\<rparr>, w2)
           else do {
             w3 \<leftarrow> (case device of Some d \<Rightarrow> sprd_vdsp_release_device d w2 | None \<Rightarrow> Some w2);
             let w4 = (if 0 < ionfd then record_call (Close ionfd) w3 else w3);
             let s2 = s1\<lparr>mDevice := None, mIonDevFd := - 1, mType := SPRD_VDSP_WORK_MAXTYPE\<rparr>;
             Some (- 1, snd (DecClientOpenNumber client (s2, w4)))
           })
        }
        else if mType s = type then Some (0, s\<lparr>mopen_count := mopen_count s + 1\<rparr>, w)
        else Some (- 2, snd (DecClientOpenNumber client (s, w))))"

text \<open>The part that \<open>closeXrpDevice\<close> and \<open>closeXrpDevice_NoLock\<close> share: nobody has the device open any more.\<close>

definition close_device :: "service_state \<Rightarrow> service_state option" where
  "close_device = (\<lambda>(s, w). do {
     d \<leftarrow> mDevice s;
     w1 \<leftarrow> sprd_vdsp_release_device d w;
     Some (s\<lparr>mIonDevFd := - 1, mDevice := None, mType := SPRD_VDSP_WORK_MAXTYPE\<rparr>, record_call (Close (mIonDevFd s)) w1)
   })"

definition closeXrpDevice :: "client \<Rightarrow> service_state \<Rightarrow> (int \<times> service_state) option" where
  "closeXrpDevice client = (\<lambda>(s, w).
     if GetClientOpenNum client s \<le> 0 then Some (- 3, s, w)
     else
       let s1 = s\<lparr>mopen_count := mopen_count s - 1\<rparr>
       in if mopen_count s1 = 0
          then if mworking s1 \<noteq> 0 then Some (- 2, s1\<lparr>mopen_count := mopen_count s1 + 1\<rparr>, w)
               else do { st \<leftarrow> close_device (s1, w); Some (0, snd (DecClientOpenNumber client st)) }
          else Some (0, snd (DecClientOpenNumber client (s1, w))))"

section \<open>Commands\<close>

definition status_code :: "sprd_vdsp_status \<Rightarrow> int" where
  "status_code s = (case s of SPRD_XRP_STATUS_SUCCESS \<Rightarrow> 0 | SPRD_XRP_STATUS_FAILURE \<Rightarrow> 1 | SPRD_XRP_STATUS_PENDING \<Rightarrow> 2)"

text \<open>The section that opens \<open>sendXrpCommand\<close>; the flag tells whether the command goes on.\<close>

definition sendXrpCommand_begin :: "client \<Rightarrow> vdsp_service \<Rightarrow> bool \<times> vdsp_service" where
  "sendXrpCommand_begin client s =
     (if mopen_count s = 0 \<or> GetClientOpenNum client s = 0 then (False, s)
      else (True, s\<lparr>mworking := mworking s + 1\<rparr>))"

text \<open>
  Mapping of the input and of the output; the result is the argument with its \<open>viraddr\<close> set and whether it
  was mapped, or failure.
\<close>

definition map_inout :: "bool \<Rightarrow> hptr sprd_vdsp_inout option \<Rightarrow> world \<Rightarrow>
    ((hptr sprd_vdsp_inout option \<times> (u64 \<times> u32) option) option \<times> world) option" where
  "map_inout faceid p w =
     (case p of
        None \<Rightarrow> Some (Some (None, None), w)
      | Some x \<Rightarrow>
          if io_fd x \<noteq> - 1 \<and> (io_size x \<le> 16 \<or> faceid)
          then do {
            (r, w1) \<leftarrow> MapIonFd (io_fd x) (io_size x) w;
            (case r of
               None \<Rightarrow> Some (None, w1)
             | Some a \<Rightarrow> Some (Some (Some (x\<lparr>vir_addr := H_Addr a\<rparr>), Some (a, io_size x)), w1))
          }
          else Some (Some (Some (x\<lparr>vir_addr := H_Null\<rparr>), None), w))"

definition unmap_inout :: "(u64 \<times> u32) option \<Rightarrow> world \<Rightarrow> world" where
  "unmap_inout m w = (case m of None \<Rightarrow> w | Some (a, sz) \<Rightarrow> unMapIon a sz w)"

text \<open>
  What \<open>sendXrpCommand\<close> does without the lock. The flag is false for the early returns, which skip the
  section that ends the command.
\<close>

definition sendXrpCommand_body :: "ptr \<Rightarrow> bytes \<Rightarrow> hptr sprd_vdsp_inout option \<Rightarrow> hptr sprd_vdsp_inout option \<Rightarrow>
    u64 sprd_vdsp_inout list \<Rightarrow> nat \<Rightarrow> u32 \<Rightarrow> world \<Rightarrow> ((bool \<times> int) \<times> world) option" where
  "sendXrpCommand_body device ns input outp buffer bufnum priority w = do {
     (inr, w1) \<leftarrow> map_inout (take 9 ns = FACEID_NSID) input w;
     (case inr of
        None \<Rightarrow> Some ((False, - 1), w1)
      | Some (inp, inmap) \<Rightarrow> do {
          (outr, w2) \<leftarrow> map_inout False outp w1;
          (case outr of
             None \<Rightarrow> Some ((False, - 1), unmap_inout inmap w2)
           | Some (out1, outmap) \<Rightarrow> do {
               d \<leftarrow> device;
               (ret, w3) \<leftarrow> sprd_vdsp_send_command_directly d ns inp out1 buffer bufnum priority w2;
               Some ((True, status_code ret), unmap_inout outmap (unmap_inout inmap w3))
             })
        })
   }"

definition sendXrpCommand_end :: "vdsp_service \<Rightarrow> vdsp_service" where
  "sendXrpCommand_end s = s\<lparr>mworking := mworking s - 1\<rparr>"

definition sendXrpCommand :: "client \<Rightarrow> bytes \<Rightarrow> hptr sprd_vdsp_inout option \<Rightarrow> hptr sprd_vdsp_inout option \<Rightarrow>
    u64 sprd_vdsp_inout list \<Rightarrow> nat \<Rightarrow> u32 \<Rightarrow> service_state \<Rightarrow> (int \<times> service_state) option" where
  "sendXrpCommand client ns input outp buffer bufnum priority = (\<lambda>(s, w).
     case sendXrpCommand_begin client s of
       (False, _) \<Rightarrow> Some (- 1, s, w)
     | (True, s1) \<Rightarrow> do {
         ((finished, ret), w1) \<leftarrow> sendXrpCommand_body (mDevice s1) ns input outp buffer bufnum priority w;
         Some (ret, if finished then sendXrpCommand_end s1 else s1, w1)
       })"

section \<open>Libraries\<close>

text \<open>
  \<open>loadXrpLibrary\<close>: the section that begins it (\<open>Some need\<close>: the client has the device open, and the
  DSP has to load the library or not), and the section that ends it. \<open>mem\<close> is the content of the fresh
  command block.
\<close>

definition loadXrpLibrary_begin :: "client \<Rightarrow> bytes \<Rightarrow> vdsp_service \<Rightarrow> bool option \<times> vdsp_service" where
  "loadXrpLibrary_begin client name s =
     (if mopen_count s = 0 \<or> GetClientOpenNum client s = 0 then (None, s)
      else let s1 = s\<lparr>mworking := mworking s + 1\<rparr> in (Some (GetLoadNumTotalByName name s1 = 0), s1))"

definition loadXrpLibrary_end :: "client \<Rightarrow> bytes \<Rightarrow> int \<Rightarrow> vdsp_service \<Rightarrow> vdsp_service option" where
  "loadXrpLibrary_end client name ret s = do {
     s1 \<leftarrow> (if ret = 0 then map_option snd (AddClientLoadNumByName name client s) else Some s);
     Some (s1\<lparr>mworking := mworking s1 - 1\<rparr>)
   }"

definition dsp_load :: "ptr \<Rightarrow> bytes \<Rightarrow> bytes \<Rightarrow> u64 sprd_vdsp_inout \<Rightarrow> world \<Rightarrow> (int \<times> world) option" where
  "dsp_load device mem name input w = do {
     d \<leftarrow> device;
     (r, w1) \<leftarrow> sprd_vdsp_load_library d input mem (name @ [0]) 2 w;
     Some (status_code r, w1)
   }"

definition loadXrpLibrary :: "bytes \<Rightarrow> client \<Rightarrow> bytes \<Rightarrow> u64 sprd_vdsp_inout \<Rightarrow> service_state \<Rightarrow>
    (int \<times> service_state) option" where
  "loadXrpLibrary mem client name input = (\<lambda>(s, w).
     case loadXrpLibrary_begin client name s of
       (None, _) \<Rightarrow> Some (- 1, s, w)
     | (Some need, s1) \<Rightarrow> do {
         (ret, w1) \<leftarrow> (if need then dsp_load (mDevice s1) mem name input w else Some (0, w));
         s2 \<leftarrow> loadXrpLibrary_end client name ret s1;
         Some (ret, s2, w1)
       })"

text \<open>\<open>unloadXrpLibrary\<close>, in the same way; \<open>Inl\<close> is a return value.\<close>

definition unloadXrpLibrary_begin :: "client \<Rightarrow> bytes \<Rightarrow> vdsp_service \<Rightarrow> (int + bool) \<times> vdsp_service" where
  "unloadXrpLibrary_begin client name s =
     (if mopen_count s = 0 \<or> GetClientOpenNum client s = 0 then (Inl (- 1), s)
      else
        let (ret, s1) = DecClientLoadNumByName name client (s\<lparr>mworking := mworking s + 1\<rparr>)
        in if ret \<noteq> 0 then (Inl (- 1), s1\<lparr>mworking := mworking s1 - 1\<rparr>)
           else (Inr (GetLoadNumTotalByName name s1 = 0), s1))"

definition unloadXrpLibrary_end :: "vdsp_service \<Rightarrow> vdsp_service" where
  "unloadXrpLibrary_end s = s\<lparr>mworking := mworking s - 1\<rparr>"

definition dsp_unload :: "ptr \<Rightarrow> bytes \<Rightarrow> bytes \<Rightarrow> world \<Rightarrow> (int \<times> world) option" where
  "dsp_unload device mem name w = do {
     d \<leftarrow> device;
     (r, w1) \<leftarrow> sprd_vdsp_unload_library d mem (name @ [0]) 2 w;
     Some (status_code r, w1)
   }"

definition unloadXrpLibrary :: "bytes \<Rightarrow> client \<Rightarrow> bytes \<Rightarrow> service_state \<Rightarrow> (int \<times> service_state) option" where
  "unloadXrpLibrary mem client name = (\<lambda>(s, w).
     case unloadXrpLibrary_begin client name s of
       (Inl r, s1) \<Rightarrow> Some (r, s1, w)
     | (Inr need, s1) \<Rightarrow> do {
         (ret, w1) \<leftarrow> (if need then dsp_unload (mDevice s1) mem name w else Some (0, w));
         Some (ret, unloadXrpLibrary_end s1, w1)
       })"

section \<open>Power hints\<close>

definition powerHint_begin :: "client \<Rightarrow> vdsp_service \<Rightarrow> bool \<times> vdsp_service" where
  "powerHint_begin client s =
     (if mopen_count s = 0 \<or> GetClientOpenNum client s = 0 then (False, s)
      else (True, s\<lparr>mworking := mworking s + 1\<rparr>))"

definition powerHint_end :: "client \<Rightarrow> int \<Rightarrow> u32 \<Rightarrow> int \<Rightarrow> vdsp_service \<Rightarrow> (int \<times> vdsp_service) option" where
  "powerHint_end client level acquire_release ret s = do {
     (ret1, s1) \<leftarrow> (if ret = 0 then AddDecClientPowerHint client level acquire_release s else Some (ret, s));
     Some (ret1, s1\<lparr>mworking := mworking s1 - 1\<rparr>)
   }"

definition powerHint :: "client \<Rightarrow> int \<Rightarrow> u32 \<Rightarrow> service_state \<Rightarrow> (int \<times> service_state) option" where
  "powerHint client level acquire_release = (\<lambda>(s, w).
     case powerHint_begin client s of
       (False, _) \<Rightarrow> Some (- 1, s, w)
     | (True, s1) \<Rightarrow> do {
         d \<leftarrow> mDevice s1;
         (ret, w1) \<leftarrow> set_powerhint_flag d level acquire_release w;
         (ret1, s2) \<leftarrow> powerHint_end client level acquire_release ret s1;
         Some (ret1, s2, w1)
       })"

section \<open>The death of a client\<close>

text \<open>\<open>unloadLibraryLoadByClient\<close>: one round of its inner loop, and the loop over the client's libraries.\<close>

definition unload_client_library :: "bytes \<Rightarrow> client \<Rightarrow> nat \<Rightarrow> service_state \<Rightarrow> (int option \<times> service_state) option" where
  "unload_client_library mem client i = (\<lambda>(s, w). do {
     c \<leftarrow> find_client client s;
     let l = mloadinfo c ! i;
     let s1 = on_client client (\<lambda>c. c\<lparr>mloadinfo := (mloadinfo c)[i := l\<lparr>loadcount := 0\<rparr>]\<rparr>) s;
     (if GetLoadNumTotalByName (libname l) s1 = 0
      then do { (ret, w1) \<leftarrow> dsp_unload (mDevice s1) mem (libname l) w; Some (Some ret, s1, w1) }
      else Some (None, s1, w))
   })"

primrec unload_client_libraries :: "bytes \<Rightarrow> client \<Rightarrow> nat list \<Rightarrow> int \<Rightarrow> service_state \<Rightarrow> (int \<times> service_state) option" where
  "unload_client_libraries mem client [] ret st = Some (ret, st)"
| "unload_client_libraries mem client (i # is) ret st = do {
     (r, st1) \<leftarrow> unload_client_library mem client i st;
     unload_client_libraries mem client is (case r of Some x \<Rightarrow> x | None \<Rightarrow> ret) st1
   }"

definition unloadLibraryLoadByClient :: "bytes \<Rightarrow> client \<Rightarrow> service_state \<Rightarrow> (int \<times> service_state) option" where
  "unloadLibraryLoadByClient mem client st =
     (case find_client client (fst st) of
        None \<Rightarrow> Some (0, st)
      | Some c \<Rightarrow> unload_client_libraries mem client [0..<length (mloadinfo c)] 0 st)"

text \<open>The loops of \<open>ReleaseCilentPowerHint\<close>: the releases of one level, counting those accepted, and the levels.\<close>

primrec release_hints :: "ptr \<Rightarrow> nat \<Rightarrow> nat \<Rightarrow> u32 \<Rightarrow> int \<Rightarrow> world \<Rightarrow> ((u32 \<times> int) \<times> world) option" where
  "release_hints device level 0 level_count ret w = Some ((level_count, ret), w)"
| "release_hints device level (Suc n) level_count ret w = do {
     d \<leftarrow> device;
     (r, w1) \<leftarrow> set_powerhint_flag d (int level) 1 w;
     release_hints device level n (if r = 0 then level_count + 1 else level_count) r w1
   }"

primrec release_levels :: "client \<Rightarrow> nat list \<Rightarrow> int \<times> int \<Rightarrow> service_state \<Rightarrow> ((int \<times> int) \<times> service_state) option" where
  "release_levels client [] rets st = Some (rets, st)"
| "release_levels client (i # is) rets st = do {
     c \<leftarrow> find_client client (fst st);
     let n = mpowerhint_levelnum c ! i;
     ((level_count, ret), w1) \<leftarrow> release_hints (mDevice (fst st)) i (unat n) 0 (fst rets) (snd st);
     let s1 = on_client client (\<lambda>c. c\<lparr>mpowerhint_levelnum := (mpowerhint_levelnum c)[i := n - level_count]\<rparr>) (fst st);
     release_levels client is (ret, if n - level_count \<noteq> 0 then - 1 else snd rets) (s1, w1)
   }"

definition ReleaseCilentPowerHint :: "client \<Rightarrow> service_state \<Rightarrow> (int \<times> service_state) option" where
  "ReleaseCilentPowerHint client st =
     (case find_client client (fst st) of
        None \<Rightarrow> Some (0, st)
      | Some c \<Rightarrow> do {
          ((ret, realret), st1) \<leftarrow> release_levels client [0..<6] (- 1, 0) st;
          Some (if ret \<noteq> 0 \<and> realret \<noteq> 0 then 1 else 0, st1)
        })"

text \<open>
  \<open>closeXrpDevice_NoLock\<close> gives up \<open>mLoadLock\<close> and \<open>mLock\<close> while commands are in progress: it is a
  first section and, for every time it has slept, a section that looks again. \<open>Inr cnt\<close>: it sleeps.
\<close>

primrec dec_opens :: "client \<Rightarrow> nat \<Rightarrow> service_state \<Rightarrow> service_state" where
  "dec_opens client 0 st = st"
| "dec_opens client (Suc n) st = dec_opens client n (snd (DecClientOpenNumber client st))"

definition nolock_start :: "client \<Rightarrow> service_state \<Rightarrow> ((unit + int) \<times> service_state) option" where
  "nolock_start client = (\<lambda>(s, w).
     let cnt = GetClientOpenNum client s
     in if cnt \<le> 0 then Some (Inl (), s, w)
        else
          let s1 = s\<lparr>mopen_count := mopen_count s - word_of_int cnt\<rparr>
          in if mopen_count s1 = 0
             then if mworking s1 \<noteq> 0 then Some (Inr cnt, s1\<lparr>mopen_count := mopen_count s1 + 1\<rparr>, w)
                  else do { st \<leftarrow> close_device (s1, w); Some (Inl (), dec_opens client (nat cnt) st) }
             else Some (Inl (), dec_opens client (nat cnt) (s1, w)))"

definition nolock_again :: "client \<Rightarrow> int \<Rightarrow> service_state \<Rightarrow> ((unit + int) \<times> service_state) option" where
  "nolock_again client cnt = (\<lambda>(s, w).
     let s1 = s\<lparr>mopen_count := mopen_count s - 1\<rparr>
     in if mworking s1 \<noteq> 0 then Some (Inr cnt, s1\<lparr>mopen_count := mopen_count s1 + 1\<rparr>, w)
        else if mopen_count s1 \<noteq> 0 then Some (Inl (), dec_opens client (nat cnt) (s1, w))
        else do { st \<leftarrow> close_device (s1, w); Some (Inl (), dec_opens client (nat cnt) st) })"

text \<open>
  \<open>binderDied\<close>: its loop of closes with \<open>n\<close> rounds left, and what follows it; \<open>Inr (cnt, n)\<close>: it sleeps
  in a round, with \<open>n\<close> more to go.
\<close>

primrec died_closes :: "client \<Rightarrow> nat \<Rightarrow> service_state \<Rightarrow> ((unit + int \<times> nat) \<times> service_state) option" where
  "died_closes client 0 st = Some (Inl (), snd (ClearClientInfo client st))"
| "died_closes client (Suc n) st = do {
     (r, st1) \<leftarrow> nolock_start client st;
     (case r of Inl _ \<Rightarrow> died_closes client n st1 | Inr cnt \<Rightarrow> Some (Inr (cnt, n), st1))
   }"

definition binderDied :: "bytes \<Rightarrow> client \<Rightarrow> service_state \<Rightarrow> ((unit + int \<times> nat) \<times> service_state) option" where
  "binderDied mem client st = do {
     (_, st1) \<leftarrow> unloadLibraryLoadByClient mem client st;
     (_, st2) \<leftarrow> ReleaseCilentPowerHint client st1;
     died_closes client (nat (GetClientOpenNum client (fst st2))) st2
   }"

definition binderDied_again :: "client \<Rightarrow> int \<Rightarrow> nat \<Rightarrow> service_state \<Rightarrow> ((unit + int \<times> nat) \<times> service_state) option" where
  "binderDied_again client cnt n st = do {
     (r, st1) \<leftarrow> nolock_again client cnt st;
     (case r of Inl _ \<Rightarrow> died_closes client n st1 | Inr c \<Rightarrow> Some (Inr (c, n), st1))
   }"

end
