(* ===== verification/Service_Table.thy ===== *)
theory Service_Table
  imports Vdsp_Service
begin

text \<open>
  The service's table of clients: lookups, updates and removal seen as a map, the sums the service takes over
  it (open counts, counts of a library), and its invariant.
\<close>

section \<open>Lemmas on the table\<close>

lemma find_client_update [simp]:
  "find_client client (s\<lparr>mopen_count := a\<rparr>) = find_client client s"
  "find_client client (s\<lparr>mworking := a\<rparr>) = find_client client s"
  "find_client client (s\<lparr>mDevice := p\<rparr>) = find_client client s"
  "find_client client (s\<lparr>mType := t\<rparr>) = find_client client s"
  "find_client client (s\<lparr>mIonDevFd := i\<rparr>) = find_client client s"
  by (simp_all add: find_client_def)

lemma GetClientOpenNum_update [simp]:
  "GetClientOpenNum client (s\<lparr>mopen_count := a\<rparr>) = GetClientOpenNum client s"
  "GetClientOpenNum client (s\<lparr>mworking := a\<rparr>) = GetClientOpenNum client s"
  "GetClientOpenNum client (s\<lparr>mDevice := p\<rparr>) = GetClientOpenNum client s"
  "GetClientOpenNum client (s\<lparr>mType := t\<rparr>) = GetClientOpenNum client s"
  "GetClientOpenNum client (s\<lparr>mIonDevFd := i\<rparr>) = GetClientOpenNum client s"
  by (simp_all add: GetClientOpenNum_def)

lemma GetLoadNumTotalByName_update [simp]:
  "GetLoadNumTotalByName name (s\<lparr>mopen_count := a\<rparr>) = GetLoadNumTotalByName name s"
  "GetLoadNumTotalByName name (s\<lparr>mworking := a\<rparr>) = GetLoadNumTotalByName name s"
  "GetLoadNumTotalByName name (s\<lparr>mDevice := p\<rparr>) = GetLoadNumTotalByName name s"
  "GetLoadNumTotalByName name (s\<lparr>mType := t\<rparr>) = GetLoadNumTotalByName name s"
  "GetLoadNumTotalByName name (s\<lparr>mIonDevFd := i\<rparr>) = GetLoadNumTotalByName name s"
  by (simp_all add: GetLoadNumTotalByName_def)

lemma on_client_simps [simp]:
  "mopen_count (on_client client f s) = mopen_count s" "mworking (on_client client f s) = mworking s"
  "mDevice (on_client client f s) = mDevice s" "mType (on_client client f s) = mType s"
  "mIonDevFd (on_client client f s) = mIonDevFd s"
  "mClientInfo (on_client client f s) = alter_client client f (mClientInfo s)"
  by (simp_all add: on_client_def)

text \<open>\<open>entry\<close>: the table as a map; the tables that occur have distinct binders.\<close>

definition entry :: "client_info list \<Rightarrow> client \<Rightarrow> client_info option" where
  "entry cs client = List.find (\<lambda>c. mclientbinder c = client) cs"

lemma entry_simps [simp]:
  "entry [] client = None"
  "entry (c # cs) client = (if mclientbinder c = client then Some c else entry cs client)"
  by (simp_all add: entry_def)

lemma entry_append: "entry (cs @ ds) client = (case entry cs client of Some c \<Rightarrow> Some c | None \<Rightarrow> entry ds client)"
  by (induction cs) auto

lemma entry_Some: "entry cs client = Some c \<Longrightarrow> c \<in> set cs \<and> mclientbinder c = client"
  by (induction cs) (auto split: if_splits)

lemma entry_None: "entry cs client = None \<longleftrightarrow> client \<notin> mclientbinder ` set cs"
  by (induction cs) auto

lemma entry_in: "distinct (map mclientbinder cs) \<Longrightarrow> c \<in> set cs \<Longrightarrow> entry cs (mclientbinder c) = Some c"
  by (induction cs) auto

lemma find_client_entry: "find_client client s = entry (mClientInfo s) client"
  by (simp add: find_client_def entry_def)

definition same_binder :: "(client_info \<Rightarrow> client_info) \<Rightarrow> bool" where
  "same_binder f \<longleftrightarrow> (\<forall>c. mclientbinder (f c) = mclientbinder c)"

lemma same_binders [simp]:
  "same_binder (\<lambda>c. c\<lparr>mopencount := a c\<rparr>)" "same_binder (\<lambda>c. c\<lparr>mloadinfo := l c\<rparr>)"
  "same_binder (\<lambda>c. c\<lparr>mpowerhint_levelnum := h c\<rparr>)"
  by (simp_all add: same_binder_def)

lemma alter_binders [simp]:
  "same_binder f \<Longrightarrow> map mclientbinder (alter_client client f cs) = map mclientbinder cs"
  by (induction cs) (auto simp: same_binder_def)

lemma entry_alter:
  "same_binder f \<Longrightarrow>
   entry (alter_client client f cs) x = (if x = client then map_option f (entry cs x) else entry cs x)"
  by (induction cs) (auto simp: same_binder_def)

lemma alter_none: "entry cs client = None \<Longrightarrow> alter_client client f cs = cs"
  by (induction cs) (auto split: if_splits)

lemma set_alter:
  "c \<in> set (alter_client client f cs) \<Longrightarrow> c \<in> set cs \<or> (\<exists>d. entry cs client = Some d \<and> c = f d)"
  by (induction cs) (auto split: if_splits)

lemma erase_binders: "map mclientbinder (erase_client client cs) = remove1 client (map mclientbinder cs)"
  by (induction cs) auto

lemma set_erase: "c \<in> set (erase_client client cs) \<Longrightarrow> c \<in> set cs"
  by (induction cs) (auto split: if_splits)

lemma entry_erase:
  "distinct (map mclientbinder cs) \<Longrightarrow>
   entry (erase_client client cs) x = (if x = client then None else entry cs x)"
  by (induction cs) (auto simp: entry_None)

lemma sum_alter:
  "(\<Sum>c\<leftarrow>alter_client client f cs. (g c :: int)) =
   (\<Sum>c\<leftarrow>cs. g c) + (case entry cs client of Some c \<Rightarrow> g (f c) - g c | None \<Rightarrow> 0)"
  by (induction cs) auto

lemma sum_erase:
  "(\<Sum>c\<leftarrow>erase_client client cs. (g c :: int)) =
   (\<Sum>c\<leftarrow>cs. g c) - (case entry cs client of Some c \<Rightarrow> g c | None \<Rightarrow> 0)"
  by (induction cs) auto

text \<open>Counts of libraries.\<close>

lemma lib_count_notin: "name \<notin> libname ` set ls \<Longrightarrow> lib_count name ls = 0"
  by (induction ls) auto

lemma lib_count_add: "lib_count n (lib_add name ls) = lib_count n ls + (if n = name then 1 else 0)"
  by (induction ls) auto

lemma lib_add_names: "set (map libname (lib_add name ls)) = insert name (libname ` set ls)"
  by (induction ls) auto

lemma lib_add_distinct: "distinct (map libname ls) \<Longrightarrow> distinct (map libname (lib_add name ls))"
proof (induction ls)
  case (Cons l ls)
  then show ?case using lib_add_names [of name ls] by auto
qed simp

lemma lib_add_pos: "\<forall>l \<in> set ls. 0 < loadcount l \<Longrightarrow> \<forall>l \<in> set (lib_add name ls). 0 < loadcount l"
  by (induction ls) auto

lemma lib_dec_None: "lib_dec name ls = None \<longleftrightarrow> name \<notin> libname ` set ls"
  by (induction ls) auto

lemma lib_dec_cases:
  assumes "lib_dec name (l # ls) = Some ls'"
  obtains "libname l = name" "loadcount l = 1" "ls' = ls"
  | "libname l = name" "loadcount l \<noteq> 1" "ls' = l\<lparr>loadcount := loadcount l - 1\<rparr> # ls"
  | ms where "libname l \<noteq> name" "lib_dec name ls = Some ms" "ls' = l # ms"
  using assms by (auto split: if_splits)

lemma lib_dec_names: "lib_dec name ls = Some ls' \<Longrightarrow> libname ` set ls' \<subseteq> libname ` set ls"
proof (induction ls arbitrary: ls')
  case (Cons l ls)
  from Cons.prems show ?case by (cases rule: lib_dec_cases) (use Cons.IH in auto)
qed simp

lemma lib_dec_distinct:
  "distinct (map libname ls) \<Longrightarrow> lib_dec name ls = Some ls' \<Longrightarrow> distinct (map libname ls')"
proof (induction ls arbitrary: ls')
  case (Cons l ls)
  from Cons.prems(2) show ?case
  proof (cases rule: lib_dec_cases)
    case (3 ms)
    then show ?thesis using Cons.IH [OF _ 3(2)] Cons.prems(1) lib_dec_names [OF 3(2)] by auto
  qed (use Cons.prems(1) in auto)
qed simp

lemma lib_count_dec:
  "distinct (map libname ls) \<Longrightarrow> lib_dec name ls = Some ls' \<Longrightarrow>
   lib_count n ls' = lib_count n ls - (if n = name then 1 else 0)"
proof (induction ls arbitrary: ls')
  case (Cons l ls)
  from Cons.prems(2) show ?case
    by (cases rule: lib_dec_cases) (use Cons in \<open>auto simp: lib_count_notin\<close>)
qed simp

lemma lib_dec_pos:
  "\<forall>l \<in> set ls. 0 < loadcount l \<Longrightarrow> lib_dec name ls = Some ls' \<Longrightarrow> \<forall>l \<in> set ls'. 0 < loadcount l"
proof (induction ls arbitrary: ls')
  case (Cons l ls)
  from Cons.prems(2) show ?case by (cases rule: lib_dec_cases) (use Cons in auto)
qed simp

lemma lib_count_nonneg: "\<forall>l \<in> set ls. 0 < loadcount l \<Longrightarrow> 0 \<le> lib_count name ls"
  by (induction ls) auto

lemma lib_count_pos: "\<forall>l \<in> set ls. 0 < loadcount l \<Longrightarrow> name \<in> libname ` set ls \<Longrightarrow> 0 < lib_count name ls"
  by (induction ls) auto

section \<open>The table's invariant\<close>

text \<open>\<open>D\<close>: the clients that are being cleaned up, whose libraries may have the count 0.\<close>

definition client_ok :: "client set \<Rightarrow> client_info \<Rightarrow> bool" where
  "client_ok D c \<longleftrightarrow> 0 < mopencount c \<and> length (mpowerhint_levelnum c) = 6 \<and> distinct (map libname (mloadinfo c)) \<and>
     (\<forall>l \<in> set (mloadinfo c). (if mclientbinder c \<in> D then 0 \<le> loadcount l else 0 < loadcount l) \<and>
       length (libname l) < 32 \<and> 0 \<notin> set (libname l))"

lemma client_ok_mono:
  "client_ok D c \<Longrightarrow> (mclientbinder c \<in> D \<Longrightarrow> mclientbinder c \<in> E) \<Longrightarrow> client_ok E c"
  unfolding client_ok_def by (auto split: if_splits)

definition table_ok :: "client set \<Rightarrow> client_info list \<Rightarrow> bool" where
  "table_ok D cs \<longleftrightarrow> distinct (map mclientbinder cs) \<and> (\<forall>c \<in> set cs. client_ok D c)"

definition opens :: "client_info list \<Rightarrow> int" where
  "opens cs = (\<Sum>c\<leftarrow>cs. mopencount c)"

lemma opens_simps [simp]: "opens [] = 0" "opens (c # cs) = mopencount c + opens cs" "opens (cs @ ds) = opens cs + opens ds"
  by (simp_all add: opens_def)

lemma opens_alter:
  "opens (alter_client client f cs) =
   opens cs + (case entry cs client of Some c \<Rightarrow> mopencount (f c) - mopencount c | None \<Rightarrow> 0)"
  by (simp add: opens_def sum_alter)

lemma opens_erase:
  "opens (erase_client client cs) = opens cs - (case entry cs client of Some c \<Rightarrow> mopencount c | None \<Rightarrow> 0)"
  by (simp add: opens_def sum_erase)

lemma table_okD: "table_ok D cs \<Longrightarrow> entry cs client = Some c \<Longrightarrow> client_ok D c"
  using entry_Some [of cs client c] by (auto simp: table_ok_def)

lemma opens_nonneg: "\<forall>c \<in> set cs. client_ok D c \<Longrightarrow> 0 \<le> opens cs"
  by (induction cs) (auto simp: client_ok_def)

lemma opens_zero: "\<forall>c \<in> set cs. client_ok D c \<Longrightarrow> opens cs = 0 \<longleftrightarrow> cs = []"
proof (cases cs)
  case (Cons c ds)
  moreover assume "\<forall>c \<in> set cs. client_ok D c"
  ultimately have "0 < mopencount c" "0 \<le> opens ds" using opens_nonneg [of ds] by (auto simp: client_ok_def)
  then show ?thesis using Cons by simp
qed simp

lemma opens_ge_entry:
  assumes "table_ok D cs" and "entry cs client = Some c"
  shows "mopencount c \<le> opens cs"
proof -
  have "\<forall>d \<in> set (erase_client client cs). client_ok D d" using assms(1) set_erase by (auto simp: table_ok_def)
  then have "0 \<le> opens (erase_client client cs)" by (rule opens_nonneg)
  then show ?thesis using assms(2) by (simp add: opens_erase)
qed

lemma table_ok_alter:
  assumes "table_ok D cs" and "same_binder f" and "\<And>c. entry cs client = Some c \<Longrightarrow> client_ok D (f c)"
  shows "table_ok D (alter_client client f cs)"
  using assms set_alter [of _ client f cs] by (fastforce simp: table_ok_def)

lemma table_ok_erase: "table_ok D cs \<Longrightarrow> table_ok D (erase_client client cs)"
  using set_erase by (auto simp: table_ok_def erase_binders)

section \<open>Counting opens\<close>

definition new_client :: "client \<Rightarrow> client_info" where
  "new_client client = \<lparr>mclientbinder = client, mopencount = 1, mpowerhint_levelnum = replicate 6 0, mloadinfo = []\<rparr>"

definition add_open :: "client \<Rightarrow> client_info list \<Rightarrow> client_info list" where
  "add_open client cs =
     (case entry cs client of
        Some _ \<Rightarrow> alter_client client (\<lambda>c. c\<lparr>mopencount := mopencount c + 1\<rparr>) cs
      | None \<Rightarrow> cs @ [new_client client])"

definition dec_open :: "client \<Rightarrow> client_info list \<Rightarrow> client_info list" where
  "dec_open client cs =
     (case entry cs client of
        Some c \<Rightarrow> if mopencount c = 1 then erase_client client cs
                  else alter_client client (\<lambda>c. c\<lparr>mopencount := mopencount c - 1\<rparr>) cs
      | None \<Rightarrow> cs)"

lemma add_number:
  "AddClientOpenNumber client (s, w) =
     (if entry (mClientInfo s) client \<noteq> None
      then (0, s\<lparr>mClientInfo := add_open client (mClientInfo s)\<rparr>, w)
      else let w1 = (record_call (Link_death client) w)\<lparr>ticks := Suc (ticks w)\<rparr>; r = link_status (env w) (ticks w)
           in (r, if r = 0 then s\<lparr>mClientInfo := add_open client (mClientInfo s)\<rparr> else s, w1))"
  by (auto simp: AddClientOpenNumber_def find_client_entry add_open_def on_client_def new_client_def ask_def Let_def
      record_call_def)

lemma dec_number:
  "snd (DecClientOpenNumber client (s, w)) =
     (s\<lparr>mClientInfo := dec_open client (mClientInfo s)\<rparr>,
      case entry (mClientInfo s) client of
        Some c \<Rightarrow> if mopencount c = 1 then record_call (Unlink_death client) w else w | None \<Rightarrow> w)"
  by (auto simp: DecClientOpenNumber_def find_client_entry dec_open_def on_client_def split: option.split)

lemma add_open_ok:
  assumes "table_ok D cs"
  shows "table_ok D (add_open client cs)"
proof (cases "entry cs client")
  case None
  then have "add_open client cs = cs @ [new_client client]" by (simp add: add_open_def)
  moreover have "client \<notin> mclientbinder ` set cs" using None by (simp add: entry_None)
  moreover have "client_ok D (new_client client)" "mclientbinder (new_client client) = client"
    by (simp_all add: client_ok_def new_client_def)
  ultimately show ?thesis using assms by (auto simp: table_ok_def)
next
  case (Some c)
  then have "client_ok D c" using table_okD [OF assms] by blast
  then show ?thesis using assms Some by (auto simp: add_open_def client_ok_def intro!: table_ok_alter)
qed

lemma opens_add: "opens (add_open client cs) = opens cs + 1"
  by (auto simp: add_open_def opens_alter new_client_def split: option.split)

lemma erase_last: "entry cs client = None \<Longrightarrow> mclientbinder c = client \<Longrightarrow> erase_client client (cs @ [c]) = cs"
  by (induction cs) (auto split: if_splits)

lemma alter_alter:
  "same_binder f \<Longrightarrow> alter_client client g (alter_client client f cs) = alter_client client (g \<circ> f) cs"
  by (induction cs) (auto simp: same_binder_def)

lemma alter_id: "(\<And>c. f c = c) \<Longrightarrow> alter_client client f cs = cs"
  by (induction cs) auto

lemma dec_add_open: "table_ok D cs \<Longrightarrow> dec_open client (add_open client cs) = cs"
proof (cases "entry cs client")
  case None
  then show ?thesis by (simp add: add_open_def dec_open_def entry_append new_client_def erase_last)
next
  case (Some c)
  assume "table_ok D cs"
  then have "0 < mopencount c" using table_okD [OF _ Some] by (simp add: client_ok_def)
  then show ?thesis using Some
    by (simp add: add_open_def dec_open_def entry_alter alter_alter) (rule alter_id, simp)
qed

lemma dec_open_ok:
  assumes "table_ok D cs"
  shows "table_ok D (dec_open client cs)"
proof (cases "entry cs client")
  case (Some c)
  then have "client_ok D c" using table_okD [OF assms] by blast
  then show ?thesis using assms Some
    by (auto simp: dec_open_def table_ok_erase client_ok_def intro!: table_ok_alter)
qed (use assms in \<open>simp add: dec_open_def\<close>)

lemma opens_dec: "entry cs client = Some c \<Longrightarrow> opens (dec_open client cs) = opens cs - 1"
  by (auto simp: dec_open_def opens_alter opens_erase)

definition open_num :: "client_info list \<Rightarrow> client \<Rightarrow> int" where
  "open_num cs client = (case entry cs client of Some c \<Rightarrow> mopencount c | None \<Rightarrow> 0)"

lemma GetClientOpenNum_eq: "GetClientOpenNum client s = open_num (mClientInfo s) client"
  by (simp add: GetClientOpenNum_def open_num_def find_client_entry)

lemma open_num_nonneg: "table_ok D cs \<Longrightarrow> 0 \<le> open_num cs client"
  using table_okD [of D cs client] by (force simp: open_num_def client_ok_def split: option.split)

lemma open_num_zero: "table_ok D cs \<Longrightarrow> open_num cs client = 0 \<longleftrightarrow> entry cs client = None"
  using table_okD [of D cs client] by (force simp: open_num_def client_ok_def split: option.split)

lemma open_num_le: "table_ok D cs \<Longrightarrow> open_num cs client \<le> opens cs"
  using opens_ge_entry [of D cs client] opens_nonneg [of cs]
  by (auto simp: open_num_def table_ok_def split: option.split)

lemma open_num_add:
  "open_num (add_open client cs) x = open_num cs x + (if x = client then 1 else 0)"
  by (auto simp: add_open_def open_num_def entry_alter entry_append new_client_def split: option.split)

lemma open_num_dec:
  assumes "table_ok D cs" and "entry cs client \<noteq> None"
  shows "open_num (dec_open client cs) x = open_num cs x - (if x = client then 1 else 0)"
proof -
  have "distinct (map mclientbinder cs)" using assms(1) by (simp add: table_ok_def)
  with assms(2) show ?thesis by (auto simp: dec_open_def open_num_def entry_alter entry_erase)
qed

text \<open>The libraries of the clients that stay are not touched.\<close>

lemma entry_dec_other: "table_ok D cs \<Longrightarrow> x \<noteq> client \<Longrightarrow> entry (dec_open client cs) x = entry cs x"
  by (auto simp: dec_open_def entry_alter entry_erase table_ok_def split: option.split)

end
