(* ===== verification/Service_Safety.thy ===== *)
theory Service_Safety
  imports Service_Table
begin

text \<open>
  Each operation of the service from a state in order: it is defined (no freed device, no null pointer, no
  index out of range) and keeps the state in order, and what it does to the counts.
\<close>

section \<open>The device underneath\<close>

text \<open>
  \<open>ready s w n\<close>: the driver's objects are in order, the device the service has opened is alive and held by
  it, and \<open>n\<close> more references can be made.
\<close>

definition ready :: "vdsp_service \<Rightarrow> world \<Rightarrow> nat \<Rightarrow> bool" where
  "ready s w n \<longleftrightarrow> (\<exists>c. world_ok w c \<and> room w c n \<and>
     (\<forall>d. mDevice s = Some d \<longrightarrow> d \<in># c \<and> kinds w d = Some K_Device))"

lemma ready_mono: "ready s w n \<Longrightarrow> m \<le> n \<Longrightarrow> ready s w m"
  unfolding ready_def room_def by (meson add_le_cancel_left le_less_trans)

lemma ready_cong: "mDevice s' = mDevice s \<Longrightarrow> ready s' w n = ready s w n"
  by (simp add: ready_def)

lemma ready_ticks [simp]: "ready s (w\<lparr>ticks := t\<rparr>) n = ready s w n"
  by (simp add: ready_def)

lemma ready_record [simp]: "ready s (record_call k w) n = ready s w n"
  by (simp add: ready_def record_call_def)

lemma readyE:
  assumes "ready s w n" and "mDevice s = Some d"
  obtains c dev where "world_ok w c" "room w c n" "d \<in># c" "kinds w d = Some K_Device" "get_device d w = Some dev"
proof -
  obtain c where c: "world_ok w c" "room w c n" "d \<in># c" "kinds w d = Some K_Device"
    using assms by (auto simp: ready_def)
  obtain obj dev where "heap w d = Some obj" "contents obj = Device dev" using c(4) by (rule device_kindE)
  then have "get_device d w = Some dev" by (simp add: get_device_def)
  with c show thesis by (rule that)
qed

text \<open>A call that keeps the device leaves the service ready.\<close>

lemma ready_moves:
  assumes ok: "world_ok w c" and m: "moves j w c w' (lost + c)" and room: "room w c (n + j)"
    and d: "d \<in># c" "kinds w d = Some K_Device" "mDevice s = Some d"
  shows "ready s w' n"
proof -
  have "world_ok w' (lost + c)" using m by (rule moves_ok)
  moreover have "kinds w' d = Some K_Device"
    using moves_kind [OF m ok d(1)] d by simp
  ultimately show ?thesis using moves_room [OF m room] d unfolding ready_def by auto
qed

lemma hint_ready:
  assumes "ready s w n" and "mDevice s = Some d"
  shows "\<exists>r w'. set_powerhint_flag d level a w = Some (r, w') \<and> ready s w' n"
proof -
  obtain dev where "get_device d w = Some dev" using assms by (rule readyE)
  then show ?thesis using assms(1) by (simp add: set_powerhint_flag_def ask_def)
qed

lemma send_ready:
  assumes "ready s w (n + (3 * k + 1))" and "mDevice s = Some d"
    and "copy_nsid ns = Some ns_id" and "take 9 ns_id = FACEID_NSID \<longrightarrow> input \<noteq> None"
    and "k \<le> length buffer" and "servable w (take k buffer)"
  shows "\<exists>r w'. sprd_vdsp_send_command_directly d ns input outp buffer k prio w = Some (r, w') \<and>
    ready s w' n \<and> env w' = env w"
proof -
  obtain c dev where c: "world_ok w c" "room w c (n + (3 * k + 1))" "d \<in># c" "kinds w d = Some K_Device"
    "get_device d w = Some dev" using assms(1,2) by (rule readyE)
  have req: "direct_request_ok w c d ns input buffer k"
    using c assms(3-6) by (simp add: direct_request_ok_def held_direct)
  have "room w c (3 * k + 1)" using c(2) by (simp add: room_def)
  then obtain r lost w' where
    "sprd_vdsp_send_command_directly d ns input outp buffer k prio w = Some (r, w')"
    "moves (3 * k + 1) w c w' (lost + c)"
    using send_directly_ok [OF c(1) req _ c(5), of outp prio] by blast
  then show ?thesis using ready_moves [OF c(1) _ c(2-4) assms(2)] moves_env by blast
qed

lemma library_command_ready:
  assumes "ready s w (n + (3 * length xs + 1))" and "mDevice s = Some d" and "servable w xs"
    and "length mem = 44" and "c_strlen name = Some k" and "k \<le> 42"
  shows "\<exists>r w'. library_command flag d xs mem name prio w = Some (r, w') \<and> ready s w' n"
proof (cases "ion_mem (env w) (ticks w)")
  case None
  then have "library_command flag d xs mem name prio w =
    Some (SPRD_XRP_STATUS_FAILURE, (record_call (Ion_alloc 44 False) w)\<lparr>ticks := Suc (ticks w)\<rparr>)"
    by (simp add: library_command_def ask_def USER_LIBRARY_CMD_LOAD_UNLOAD_INPUTSIZE_def record_call_def)
  then show ?thesis using assms(1) ready_mono by auto
next
  case (Some m)
  obtain h fd va where m: "m = (h, fd, va)" by (cases m)
  let ?w1 = "(record_call (Ion_alloc 44 False) w)\<lparr>ticks := Suc (ticks w)\<rparr>"
  let ?in = "Some \<lparr>io_fd = fd, vir_addr = H_Data (flag # take k name @ 0 # drop (k + 2) mem), phy_addr = 0, io_size = 44,
                    io_flag = SPRD_VDSP_XRP_READ\<rparr>"
  have r1: "ready s ?w1 (n + (3 * length xs + 1))" using assms(1) by simp
  have "servable ?w1 (take (length xs) xs)" using assms(3) by (simp add: servable_def record_call_def)
  then obtain r w' where s: "sprd_vdsp_send_command_directly d XRP_EXAMPLE_V3_NSID ?in None xs (length xs) prio ?w1 = Some (r, w')"
    "ready s w' n"
    using send_ready [OF r1 assms(2) system_nsid(1), of ?in xs None prio] by auto
  then have "library_command flag d xs mem name prio w = Some (r, sprd_free_ionmem h w')"
    using Some m library_block_ok [OF assms(4,5), of flag] assms(6)
    by (simp add: library_command_def ask_def USER_LIBRARY_CMD_LOAD_UNLOAD_INPUTSIZE_def record_call_def)
  moreover have "ready s (sprd_free_ionmem h w') n" using s(2) by simp
  ultimately show ?thesis by blast
qed

section \<open>The service's invariant\<close>

text \<open>
  \<open>svc_ok D k s\<close>: the table is in order and \<open>mopen_count\<close> is the sum of the clients' open counts, less \<open>k\<close>
  (0 but while the service waits for a dead client's commands); the device is open exactly when the count is
  not 0.
\<close>

definition svc_ok :: "client set \<Rightarrow> int \<Rightarrow> vdsp_service \<Rightarrow> bool" where
  "svc_ok D k s \<longleftrightarrow> table_ok D (mClientInfo s) \<and> uint (mopen_count s) + k = opens (mClientInfo s) \<and>
     (mDevice s = None \<longleftrightarrow> mopen_count s = 0)"

lemma svc_ok_cong:
  "mClientInfo s' = mClientInfo s \<Longrightarrow> mopen_count s' = mopen_count s \<Longrightarrow> mDevice s' = mDevice s \<Longrightarrow> svc_ok D k s' = svc_ok D k s"
  by (simp add: svc_ok_def)

lemma open_device_ready:
  assumes "ready s w (n + 1)" and "mDevice s = None"
  shows "\<exists>r w'. sprd_vdsp_open_device idx type w = Some (r, w') \<and>
    ready (s\<lparr>mDevice := r\<rparr>) w' n \<and> env w' = env w"
proof -
  obtain c where c: "world_ok w c" "room w c (n + 1)" using assms(1) by (auto simp: ready_def)
  have new: "\<exists>r w'. map_option (\<lambda>((d, _), w'). (d, w')) (xrp_open_device_newmode idx t w) = Some (r, w') \<and>
      (\<exists>c'. moves 1 w c w' c' \<and> (\<forall>d. r = Some d \<longrightarrow> d \<in># c' \<and> kinds w' d = Some K_Device))" for t
  proof -
    obtain r st w' where o: "xrp_open_device_newmode idx t w = Some ((r, st), w')" "created 1 K_Device w c r st w'"
      using open_device_newmode_ok [OF c(1)] by blast
    then show ?thesis by (cases r) (auto simp: created_def intro: moves_mono)
  qed
  have "\<exists>r w'. sprd_vdsp_open_device idx type w = Some (r, w') \<and>
      (\<exists>c'. moves 1 w c w' c' \<and> (\<forall>d. r = Some d \<longrightarrow> d \<in># c' \<and> kinds w' d = Some K_Device))"
  proof (cases type)
    case SPRD_VDSP_WORK_NORMAL
    then show ?thesis using new [of XRP_OPEN_NORMAL_TYPE]
      by (cases "xrp_open_device_newmode idx XRP_OPEN_NORMAL_TYPE w") (auto simp: sprd_vdsp_open_device_def)
  next
    case SPRD_VDSP_WORK_FACEID
    then show ?thesis using new [of XRP_OPEN_FACEID_TYPE]
      by (cases "xrp_open_device_newmode idx XRP_OPEN_FACEID_TYPE w") (auto simp: sprd_vdsp_open_device_def)
  next
    case SPRD_VDSP_WORK_MAXTYPE
    then show ?thesis using moves_mono [OF moves_refl [OF c(1)]] by (auto simp: sprd_vdsp_open_device_def)
  qed
  then obtain r w' c' where o: "sprd_vdsp_open_device idx type w = Some (r, w')" and m: "moves 1 w c w' c'"
    and d: "\<forall>d. r = Some d \<longrightarrow> d \<in># c' \<and> kinds w' d = Some K_Device" by blast
  have "world_ok w' c'" "room w' c' n" using moves_ok [OF m] moves_room [OF m c(2)] by simp_all
  then have "ready (s\<lparr>mDevice := r\<rparr>) w' n" using d by (auto simp: ready_def)
  then show ?thesis using o moves_env [OF m] by blast
qed

lemma release_ready:
  assumes "ready s w n" and "mDevice s = Some d"
  shows "\<exists>w'. sprd_vdsp_release_device d w = Some w' \<and> ready (s\<lparr>mDevice := None\<rparr>) w' n \<and> env w' = env w \<and> quiet w w'"
proof -
  obtain c dev where c: "world_ok w c" "room w c n" "d \<in># c" "kinds w d = Some K_Device"
    using assms by (rule readyE)
  obtain c0 where c0: "c = add_mset d c0" using c(3) by (metis mset_add)
  obtain w' where "sprd_vdsp_release_device d w = Some w'" "moves 0 w c w' c0" "quiet w w'"
    using release_device_ok [of w d c0] c c0 by (auto simp: sprd_vdsp_release_device_def)
  note m = this
  have "world_ok w' c0" "room w' c0 n" using moves_ok [OF m(2)] moves_room [OF m(2), of n] c(2) by simp_all
  then have "ready (s\<lparr>mDevice := None\<rparr>) w' n" by (auto simp: ready_def)
  then show ?thesis using m moves_env [OF m(2)] by blast
qed

section \<open>Opening and closing\<close>

lemma uint_u32_suc:
  assumes "uint (m :: u32) < 2 ^ 32 - 1"
  shows "uint (m + 1) = uint m + 1 \<and> m + 1 \<noteq> 0"
proof -
  have "int (unat m) < 2 ^ 32 - 1" using assms by simp
  then have "unat m < nat (2 ^ 32 - 1)" by (simp only: zless_nat_eq_int_zless)
  then have "Suc (unat m) < 2 ^ LENGTH(32)" by simp
  then have "int (unat (m + 1)) = int (Suc (unat m))" by (simp add: unat_inc unat_lt_max)
  then have "uint (m + 1) = uint m + 1" by simp
  moreover have "0 < uint m + 1" by (simp add: add_nonneg_pos)
  ultimately show ?thesis by (metis less_irrefl unsigned_0)
qed

lemma uint_u32_dec:
  assumes "(m :: u32) \<noteq> 0"
  shows "uint (m - 1) = uint m - 1 \<and> 0 < uint m"
proof -
  have "0 < unat m" using assms by (simp add: unat_gt_0)
  then have "int (unat (m - 1)) = int (unat m) - 1" by (simp only: unat_dec [OF assms] of_nat_diff Suc_leI One_nat_def of_nat_Suc)
  moreover have "int (unat m) > 0" using \<open>0 < unat m\<close> by linarith
  ultimately show ?thesis by simp
qed

text \<open>Undoing the count of a client whose open failed.\<close>

lemma dec_after_add:
  assumes "table_ok D (mClientInfo s)" and "mClientInfo s' = add_open client (mClientInfo s)"
  shows "\<exists>w'. snd (DecClientOpenNumber client (s', w)) = (s'\<lparr>mClientInfo := mClientInfo s\<rparr>, w') \<and>
    (\<forall>t n. ready t w' n = ready t w n) \<and> env w' = env w"
  using assms by (auto simp: dec_number dec_add_open split: option.split)

definition closed :: "vdsp_service \<Rightarrow> vdsp_service" where
  "closed s = s\<lparr>mDevice := None, mIonDevFd := - 1, mType := SPRD_VDSP_WORK_MAXTYPE\<rparr>"

lemma closed_simps [simp]:
  "mClientInfo (closed s) = mClientInfo s" "mopen_count (closed s) = mopen_count s" "mworking (closed s) = mworking s"
  "mDevice (closed s) = None" "mIonDevFd (closed s) = - 1" "mType (closed s) = SPRD_VDSP_WORK_MAXTYPE"
  by (simp_all add: closed_def)

text \<open>The first open, once the client is counted: the device and the ion node are opened, or nothing is.\<close>

lemma open_first:
  assumes add: "AddClientOpenNumber client (s, w) = (0, s\<lparr>mClientInfo := add_open client (mClientInfo s)\<rparr>, w0)"
    and T: "table_ok D (mClientInfo s)" and r: "ready s w0 (n + 1)" and none: "mDevice s = None" "mopen_count s = 0"
  shows "(\<exists>d i w'. openXrpDevice client type (s, w) = Some (0, s\<lparr>mClientInfo := add_open client (mClientInfo s),
        mDevice := Some d, mType := type, mIonDevFd := i, mopen_count := 1\<rparr>, w') \<and>
      ready (s\<lparr>mDevice := Some d\<rparr>) w' n \<and> env w' = env w0 \<and> 0 < i) \<or>
    (\<exists>w'. openXrpDevice client type (s, w) = Some (- 1, closed s, w') \<and> ready (closed s) w' n \<and> env w' = env w0)"
proof -
  obtain p w1 where o: "sprd_vdsp_open_device 0 type w0 = Some (p, w1)" "ready (s\<lparr>mDevice := p\<rparr>) w1 n" "env w1 = env w0"
    using open_device_ready [OF r none(1), of 0 type] by blast
  let ?fd = "open_fd (env w1) (ticks w1)"
  let ?w2 = "(record_call (Open_ion O_RDWR) w1)\<lparr>ticks := Suc (ticks w1)\<rparr>"
  show ?thesis
  proof (cases "p \<noteq> None \<and> 0 < ?fd")
    case True
    then obtain d where d: "p = Some d" "0 < ?fd" by blast
    have "openXrpDevice client type (s, w) = Some (0, s\<lparr>mClientInfo := add_open client (mClientInfo s),
        mDevice := Some d, mType := type, mIonDevFd := ?fd, mopen_count := 1\<rparr>, ?w2)"
      using add none o(1) d by (simp add: openXrpDevice_def ask_def Let_def)
    moreover have "ready (s\<lparr>mDevice := Some d\<rparr>) ?w2 n" using o(2) d by simp
    ultimately show ?thesis using o(3) d(2) by (auto simp: record_call_def)
  next
    case False
    have r2: "ready (s\<lparr>mDevice := p\<rparr>) ?w2 n" using o(2) by simp
    obtain w3 where w3: "(case p of Some d \<Rightarrow> sprd_vdsp_release_device d ?w2 | None \<Rightarrow> Some ?w2) = Some w3"
      "ready (s\<lparr>mDevice := None\<rparr>) w3 n" "env w3 = env w1"
      using release_ready [OF r2] r2 by (cases p) (auto simp: record_call_def)
    let ?s' = "closed (s\<lparr>mClientInfo := add_open client (mClientInfo s)\<rparr>)"
    let ?w4 = "if 0 < ?fd then record_call (Close ?fd) w3 else w3"
    obtain w' where w': "snd (DecClientOpenNumber client (?s', ?w4)) = (?s'\<lparr>mClientInfo := mClientInfo s\<rparr>, w')"
      "\<forall>t n. ready t w' n = ready t ?w4 n" "env w' = env ?w4"
      using dec_after_add [OF T, of ?s' client ?w4] by auto
    have "openXrpDevice client type (s, w) = Some (- 1, closed s, w')"
      using add none o(1) False w3(1) w'(1) by (simp add: openXrpDevice_def ask_def Let_def closed_def)
    moreover have "ready (closed s) w' n"
      using w'(2) w3(2) ready_cong [of "closed s" "s\<lparr>mDevice := None\<rparr>"] by simp
    ultimately show ?thesis using w3(3) w'(3) o(3) by (auto simp: record_call_def)
  qed
qed

text \<open>
  An open that fails leaves the table and the count as they were; one that succeeds counts for its client
  alone, and reaches the driver only if nobody had the device open.
\<close>

lemma open_ok:
  assumes ok: "svc_ok D k s" and r: "ready s w (n + 1)" and small: "uint (mopen_count s) < 2 ^ 32 - 1"
  shows "\<exists>r s' w'. openXrpDevice client type (s, w) = Some (r, s', w') \<and> ready s' w' n \<and> svc_ok D k s' \<and>
    mworking s' = mworking s \<and> env w' = env w \<and> (mopen_count s \<noteq> 0 \<longrightarrow> mDevice s' = mDevice s \<and> mType s' = mType s) \<and>
    (if r = 0 then mClientInfo s' = add_open client (mClientInfo s) \<and> mopen_count s' = mopen_count s + 1 \<and>
       mType s' = type
     else mClientInfo s' = mClientInfo s \<and> mopen_count s' = mopen_count s)"
proof -
  have T: "table_ok D (mClientInfo s)" using ok by (simp add: svc_ok_def)
  let ?s0 = "s\<lparr>mClientInfo := add_open client (mClientInfo s)\<rparr>"
  obtain r0 s0 w0 where add: "AddClientOpenNumber client (s, w) = (r0, s0, w0)" by (cases "AddClientOpenNumber client (s, w)")
  then have w0: "ready s w0 (n + 1)" "env w0 = env w" and s0: "s0 = (if r0 = 0 then ?s0 else s)"
    using r by (auto simp: add_number Let_def split: if_splits)
  have r0: "ready s' w0 n" if "mDevice s' = mDevice s" for s'
    using ready_mono [OF w0(1), of n] ready_cong [OF that] by simp
  have T0: "table_ok D (add_open client (mClientInfo s))" using add_open_ok [OF T] .
  have inc: "uint (mopen_count s + 1) = uint (mopen_count s) + 1" "mopen_count s + 1 \<noteq> 0"
    using uint_u32_suc [OF small] by simp_all
  consider (refused) "r0 \<noteq> 0" | (same) "r0 = 0" "mopen_count s \<noteq> 0" "mType s = type"
    | (other) "r0 = 0" "mopen_count s \<noteq> 0" "mType s \<noteq> type" | (first) "r0 = 0" "mopen_count s = 0" by blast
  then show ?thesis
  proof cases
    case refused
    then show ?thesis using add s0 w0 ok r0 by (auto simp: openXrpDevice_def)
  next
    case same
    let ?s' = "?s0\<lparr>mopen_count := mopen_count s + 1\<rparr>"
    have "openXrpDevice client type (s, w) = Some (0, ?s', w0)" using add s0 same by (simp add: openXrpDevice_def)
    moreover have "svc_ok D k ?s'" using ok T0 inc same by (simp add: svc_ok_def opens_add)
    moreover have "ready ?s' w0 n" using r0 by simp
    ultimately show ?thesis using same w0(2) by auto
  next
    case other
    then show ?thesis using dec_after_add [OF T, of ?s0 client w0] add s0 ok w0 r0 by (auto simp: openXrpDevice_def)
  next
    case first
    then have none: "mDevice s = None" using ok by (simp add: svc_ok_def)
    have eq: "AddClientOpenNumber client (s, w) = (0, ?s0, w0)" using add s0 first by simp
    from open_first [OF eq T w0(1) none first(2), of type] show ?thesis
    proof (elim disjE exE conjE)
      fix d i w'
      let ?s' = "s\<lparr>mClientInfo := add_open client (mClientInfo s), mDevice := Some d, mType := type, mIonDevFd := i,
                   mopen_count := 1\<rparr>"
      assume o: "openXrpDevice client type (s, w) = Some (0, ?s', w')" "ready (s\<lparr>mDevice := Some d\<rparr>) w' n" "env w' = env w0"
      have "svc_ok D k ?s'" using ok T0 first by (simp add: svc_ok_def opens_add)
      moreover have "ready ?s' w' n" using o(2) ready_cong [of ?s' "s\<lparr>mDevice := Some d\<rparr>"] by simp
      ultimately show ?thesis using o w0(2) first by auto
    next
      fix w'
      assume "openXrpDevice client type (s, w) = Some (- 1, closed s, w')" "ready (closed s) w' n" "env w' = env w0"
      moreover have "svc_ok D k (closed s)" using ok first none by (simp add: svc_ok_def)
      ultimately show ?thesis using w0(2) first by auto
    qed
  qed
qed

lemma close_device_ok:
  assumes "ready s w n" and "mDevice s = Some d"
  shows "\<exists>w'. close_device (s, w) = Some (closed s, w') \<and> ready (closed s) w' n \<and> env w' = env w \<and> quiet w w'"
proof -
  obtain w' where w': "sprd_vdsp_release_device d w = Some w'" "ready (s\<lparr>mDevice := None\<rparr>) w' n" "env w' = env w" "quiet w w'"
    using release_ready [OF assms] by blast
  have "ready (closed s) (record_call (Close (mIonDevFd s)) w') n"
    using w'(2) ready_cong [of "closed s" "s\<lparr>mDevice := None\<rparr>"] by simp
  moreover have "quiet w (record_call (Close (mIonDevFd s)) w')"
    using quiet_trans [OF w'(4) quiet_snoc [of "record_call (Close (mIonDevFd s)) w'" w' "Close (mIonDevFd s)"]]
    by (simp add: record_call_def)
  ultimately show ?thesis using w' assms(2) by (auto simp: close_device_def closed_def)
qed

text \<open>A state after the table was changed for a client that leaves one open.\<close>

lemma dec_ready:
  "\<exists>w'. snd (DecClientOpenNumber client (s, w)) = (s\<lparr>mClientInfo := dec_open client (mClientInfo s)\<rparr>, w') \<and>
     (\<forall>t n. ready t w' n = ready t w n) \<and> env w' = env w"
  by (auto simp: dec_number split: option.split)

text \<open>
  A close is refused for a client that has not opened the device, and for the last one while commands are in
  progress; otherwise it counts for its client alone, and the last one closes the device.
\<close>

lemma close_ok:
  assumes ok: "svc_ok D k s" and r: "ready s w n" and pos: "open_num (mClientInfo s) client \<noteq> 0 \<Longrightarrow> mopen_count s \<noteq> 0"
  shows "\<exists>r s' w'. closeXrpDevice client (s, w) = Some (r, s', w') \<and> ready s' w' n \<and> svc_ok D k s' \<and> env w' = env w \<and>
    mworking s' = mworking s \<and>
    (if open_num (mClientInfo s) client = 0 then r = - 3 \<and> s' = s
     else if mopen_count s = 1 \<and> mworking s \<noteq> 0 then r = - 2 \<and> s' = s
     else r = 0 \<and> mClientInfo s' = dec_open client (mClientInfo s) \<and> mopen_count s' = mopen_count s - 1 \<and>
       mDevice s' = (if mopen_count s = 1 then None else mDevice s))"
proof -
  have T: "table_ok D (mClientInfo s)" using ok by (simp add: svc_ok_def)
  have ge: "0 \<le> open_num (mClientInfo s) client" using open_num_nonneg [OF T] .
  let ?s1 = "s\<lparr>mopen_count := mopen_count s - 1\<rparr>"
  have same: "mopen_count s = 1 \<Longrightarrow> s\<lparr>mopen_count := 1\<rparr> = s" by (cases s) simp
  show ?thesis
  proof (cases "open_num (mClientInfo s) client = 0")
    case True
    then show ?thesis using ok r by (simp add: closeXrpDevice_def GetClientOpenNum_eq)
  next
    case False
    then obtain c where c: "entry (mClientInfo s) client = Some c" by (auto simp: open_num_def split: option.splits)
    have dec1: "uint (mopen_count s - 1) = uint (mopen_count s) - 1" using uint_u32_dec [OF pos [OF False]] by simp
    have T1: "table_ok D (dec_open client (mClientInfo s))" using dec_open_ok [OF T] .
    obtain d where d: "mDevice s = Some d" using ok pos [OF False] by (auto simp: svc_ok_def)
    show ?thesis
    proof (cases "mopen_count s = 1")
      case one: True
      show ?thesis
      proof (cases "mworking s = 0")
        case True
        have "ready ?s1 w n" using r ready_cong [of ?s1 s] by simp
        then obtain w1 where w1: "close_device (?s1, w) = Some (closed ?s1, w1)" "ready (closed ?s1) w1 n" "env w1 = env w"
          using close_device_ok [of ?s1 w n d] d by auto
        let ?s' = "(closed ?s1)\<lparr>mClientInfo := dec_open client (mClientInfo s)\<rparr>"
        obtain w' where w': "snd (DecClientOpenNumber client (closed ?s1, w1)) = (?s', w')"
          "\<forall>t n. ready t w' n = ready t w1 n" "env w' = env w1" using dec_ready [of client "closed ?s1" w1] by auto
        have "closeXrpDevice client (s, w) = Some (0, ?s', w')"
          using False ge one True w1(1) w'(1) by (simp add: closeXrpDevice_def GetClientOpenNum_eq Let_def)
        moreover have "svc_ok D k ?s'" using ok T1 one opens_dec [OF c] by (simp add: svc_ok_def)
        moreover have "ready ?s' w' n" using w'(2) w1(2) ready_cong [of ?s' "closed ?s1"] by simp
        ultimately show ?thesis using False one True w1(3) w'(3) by auto
      next
        case busy: False
        have "closeXrpDevice client (s, w) = Some (- 2, s\<lparr>mopen_count := 1\<rparr>, w)"
          using False ge one busy by (simp add: closeXrpDevice_def GetClientOpenNum_eq Let_def)
        then show ?thesis using False one busy ok r unfolding same [OF one] by simp
      qed
    next
      case more: False
      let ?s' = "?s1\<lparr>mClientInfo := dec_open client (mClientInfo s)\<rparr>"
      obtain w' where w': "snd (DecClientOpenNumber client (?s1, w)) = (?s', w')"
        "\<forall>t n. ready t w' n = ready t w n" "env w' = env w" using dec_ready [of client ?s1 w] by auto
      have "closeXrpDevice client (s, w) = Some (0, ?s', w')"
        using False ge more w'(1) by (simp add: closeXrpDevice_def GetClientOpenNum_eq Let_def)
      moreover have "svc_ok D k ?s'" using ok T1 more d dec1 opens_dec [OF c] by (simp add: svc_ok_def)
      moreover have "ready ?s' w' n" using w'(2) r ready_cong [of ?s' s] by simp
      ultimately show ?thesis using False more w'(3) by auto
    qed
  qed
qed

section \<open>Commands\<close>

text \<open>What the service needs of a command's arguments; in particular no mapped block may have one byte.\<close>

definition mapped :: "bool \<Rightarrow> hptr sprd_vdsp_inout option \<Rightarrow> bool" where
  "mapped faceid p \<longleftrightarrow> (\<exists>x. p = Some x \<and> io_fd x \<noteq> - 1 \<and> (io_size x \<le> 16 \<or> faceid))"

definition inout_ok :: "bool \<Rightarrow> hptr sprd_vdsp_inout option \<Rightarrow> bool" where
  "inout_ok faceid p \<longleftrightarrow> (\<forall>x. p = Some x \<longrightarrow> mapped faceid p \<longrightarrow> io_size x \<noteq> 1)"

definition command_ok :: "world \<Rightarrow> bytes \<Rightarrow> hptr sprd_vdsp_inout option \<Rightarrow> hptr sprd_vdsp_inout option \<Rightarrow>
    u64 sprd_vdsp_inout list \<Rightarrow> nat \<Rightarrow> bool" where
  "command_ok w ns input outp buffer k \<longleftrightarrow>
     (\<exists>ns_id. copy_nsid ns = Some ns_id \<and> (take 9 ns_id = FACEID_NSID \<longrightarrow> input \<noteq> None)) \<and>
     inout_ok (take 9 ns = FACEID_NSID) input \<and> inout_ok False outp \<and>
     k \<le> length buffer \<and> servable w (take k buffer)"

lemma map_inout_ok:
  assumes "inout_ok faceid p"
  shows "\<exists>r w'. map_inout faceid p w = Some (r, w') \<and> (\<forall>s n. ready s w' n = ready s w n) \<and> env w' = env w \<and>
    (r = None \<longrightarrow> mapped faceid p) \<and> (\<forall>q m. r = Some (q, m) \<longrightarrow> (q = None \<longleftrightarrow> p = None))"
proof (cases p)
  case None
  then show ?thesis by (simp add: map_inout_def)
next
  case (Some x)
  then show ?thesis using assms
    by (auto simp: map_inout_def inout_ok_def mapped_def MapIonFd_def ask_def Let_def split: option.splits)
qed

lemma unmap_ready [simp]: "ready s (unmap_inout m w) n = ready s w n" "env (unmap_inout m w) = env w"
  by (simp_all add: unmap_inout_def unMapIon_def split: option.split)

lemma body_ok_send:
  assumes r: "ready s w (n + (3 * k + 1))" and d: "mDevice s = Some d" and a: "command_ok w ns input outp buffer k"
  shows "\<exists>f x w'. sendXrpCommand_body (mDevice s) ns input outp buffer k prio w = Some ((f, x), w') \<and>
    ready s w' n \<and> env w' = env w \<and> (\<not> f \<longrightarrow> mapped (take 9 ns = FACEID_NSID) input \<or> mapped False outp)"
proof -
  let ?fid = "take 9 ns = FACEID_NSID"
  obtain ns_id where ns: "copy_nsid ns = Some ns_id" "take 9 ns_id = FACEID_NSID \<longrightarrow> input \<noteq> None"
    using a by (auto simp: command_ok_def)
  obtain r1 w1 where m1: "map_inout ?fid input w = Some (r1, w1)" "\<forall>s n. ready s w1 n = ready s w n" "env w1 = env w"
    "r1 = None \<longrightarrow> mapped ?fid input" "\<forall>q m. r1 = Some (q, m) \<longrightarrow> (q = None \<longleftrightarrow> input = None)"
    using a map_inout_ok [of ?fid "input" w] by (auto simp: command_ok_def)
  show ?thesis
  proof (cases r1)
    case None
    then show ?thesis using m1 ready_mono [OF r, of n]
      by (intro exI [of _ False]) (simp add: sendXrpCommand_body_def)
  next
    case (Some qm)
    obtain q inmap where q: "qm = (q, inmap)" by (cases qm)
    obtain r2 w2 where m2: "map_inout False outp w1 = Some (r2, w2)" "\<forall>s n. ready s w2 n = ready s w1 n" "env w2 = env w1"
      "r2 = None \<longrightarrow> mapped False outp"
      using a map_inout_ok [of False outp w1] by (auto simp: command_ok_def)
    show ?thesis
    proof (cases r2)
      case None
      then show ?thesis using m1 m2 Some q ready_mono [OF r, of n]
        by (intro exI [of _ False]) (simp add: sendXrpCommand_body_def)
    next
      case some2: (Some qm2)
      obtain q2 outmap where q2: "qm2 = (q2, outmap)" by (cases qm2)
      have r2: "ready s w2 (n + (3 * k + 1))" using r m1(2) m2(2) by simp
      have "servable w2 (take k buffer)" "k \<le> length buffer"
        using a m1(3) m2(3) by (simp_all add: command_ok_def servable_def)
      moreover have "take 9 ns_id = FACEID_NSID \<longrightarrow> q \<noteq> None" using ns(2) m1(5) Some q by blast
      ultimately obtain x w3 where "sprd_vdsp_send_command_directly d ns q q2 buffer k prio w2 = Some (x, w3)" "ready s w3 n"
        "env w3 = env w2"
        using send_ready [OF r2 d ns(1), of q buffer q2 prio] by blast
      then show ?thesis using m1 m2 Some q some2 q2 d
        by (intro exI [of _ True]) (simp add: sendXrpCommand_body_def)
    qed
  qed
qed

section \<open>Libraries and power hints\<close>

definition lib_total :: "client_info list \<Rightarrow> bytes \<Rightarrow> int" where
  "lib_total cs name = (\<Sum>c\<leftarrow>cs. lib_count name (mloadinfo c))"

definition name_fits :: "bytes \<Rightarrow> bool" where
  "name_fits name \<longleftrightarrow> length name < 32 \<and> 0 \<notin> set name"

lemma GetLoadNumTotalByName_eq: "GetLoadNumTotalByName name s = lib_total (mClientInfo s) name"
  by (simp add: GetLoadNumTotalByName_def lib_total_def)

lemma lib_total_alter:
  "lib_total (alter_client client f cs) name =
   lib_total cs name + (case entry cs client of Some c \<Rightarrow> lib_count name (mloadinfo (f c)) - lib_count name (mloadinfo c) | None \<Rightarrow> 0)"
  by (simp add: lib_total_def sum_alter)

lemma lib_total_erase:
  "lib_total (erase_client client cs) name =
   lib_total cs name - (case entry cs client of Some c \<Rightarrow> lib_count name (mloadinfo c) | None \<Rightarrow> 0)"
  by (simp add: lib_total_def sum_erase)

lemma lib_add_mem: "l \<in> set (lib_add name ls) \<Longrightarrow> libname l = name \<or> l \<in> set ls"
  by (induction ls) (auto split: if_splits)

lemma lib_dec_mem: "lib_dec name ls = Some ls' \<Longrightarrow> l \<in> set ls' \<Longrightarrow> libname l \<in> libname ` set ls"
  using lib_dec_names by fastforce

lemma open_num_alter:
  "same_binder f \<Longrightarrow> (\<And>c. mopencount (f c) = mopencount c) \<Longrightarrow> open_num (alter_client client f cs) x = open_num cs x"
  by (auto simp: open_num_def entry_alter split: option.split)

lemma load_end_ok:
  assumes ok: "svc_ok D k s" and name: "name_fits name" and live: "client \<notin> D"
  shows "\<exists>s'. loadXrpLibrary_end client name ret s = Some s' \<and> svc_ok D k s' \<and> mworking s' = mworking s - 1 \<and>
    mopen_count s' = mopen_count s \<and> mDevice s' = mDevice s \<and> mType s' = mType s \<and>
    (\<forall>x. open_num (mClientInfo s') x = open_num (mClientInfo s) x) \<and>
    (\<forall>n. lib_total (mClientInfo s') n = lib_total (mClientInfo s) n +
       (if ret = 0 \<and> n = name \<and> open_num (mClientInfo s) client \<noteq> 0 then 1 else 0))"
proof (cases "ret = 0 \<and> entry (mClientInfo s) client \<noteq> None")
  case False
  then have "loadXrpLibrary_end client name ret s = Some (s\<lparr>mworking := mworking s - 1\<rparr>)"
    by (auto simp: loadXrpLibrary_end_def AddClientLoadNumByName_def find_client_entry)
  moreover have "svc_ok D k (s\<lparr>mworking := mworking s - 1\<rparr>)" using ok by (simp add: svc_ok_def)
  ultimately show ?thesis using False by (auto simp: open_num_def)
next
  case True
  then obtain c where c: "entry (mClientInfo s) client = Some c" by blast
  have T: "table_ok D (mClientInfo s)" using ok by (simp add: svc_ok_def)
  have cl: "client_ok D c" "mclientbinder c = client" using table_okD [OF T c] entry_Some [OF c] by simp_all
  let ?f = "\<lambda>c. c\<lparr>mloadinfo := lib_add name (mloadinfo c)\<rparr>"
  let ?s' = "(on_client client ?f s)\<lparr>mworking := mworking s - 1\<rparr>"
  have "loadXrpLibrary_end client name ret s = Some ?s'"
    using True c name
    by (simp add: loadXrpLibrary_end_def AddClientLoadNumByName_def find_client_entry name_fits_def)
  moreover have "client_ok D (?f c)"
    using cl live name lib_add_distinct [of "mloadinfo c" name] lib_add_pos [of "mloadinfo c" name] lib_add_mem [of _ name "mloadinfo c"]
    by (fastforce simp: client_ok_def name_fits_def)
  then have "svc_ok D k ?s'"
    using ok T c by (auto simp: svc_ok_def opens_alter intro!: table_ok_alter)
  moreover have "open_num (mClientInfo s) client \<noteq> 0" using c cl by (simp add: open_num_def client_ok_def)
  ultimately show ?thesis
    using True c by (auto simp: open_num_alter lib_total_alter lib_count_add)
qed

lemma unload_begin_ok:
  assumes ok: "svc_ok D k s" and live: "client \<notin> D"
  shows "\<exists>s' r. unloadXrpLibrary_begin client name s = (r, s') \<and> svc_ok D k s' \<and>
    mopen_count s' = mopen_count s \<and> mDevice s' = mDevice s \<and> mType s' = mType s \<and>
    (\<forall>x. open_num (mClientInfo s') x = open_num (mClientInfo s) x) \<and>
    (case r of
       Inl v \<Rightarrow> v = - 1 \<and> s' = s \<and> GetClientLoadNumByName name client s = 0 \<or>
               v = - 1 \<and> s' = s \<and> (mopen_count s = 0 \<or> open_num (mClientInfo s) client = 0)
     | Inr need \<Rightarrow> 0 < GetClientLoadNumByName name client s \<and> mworking s' = mworking s + 1 \<and> mopen_count s \<noteq> 0 \<and>
         (\<forall>n. lib_total (mClientInfo s') n = lib_total (mClientInfo s) n - (if n = name then 1 else 0)) \<and>
         (need \<longleftrightarrow> lib_total (mClientInfo s) name = 1))"
proof (cases "mopen_count s = 0 \<or> open_num (mClientInfo s) client = 0")
  case True
  then show ?thesis using ok by (auto simp: unloadXrpLibrary_begin_def GetClientOpenNum_eq)
next
  case False
  then obtain c where c: "entry (mClientInfo s) client = Some c" by (auto simp: open_num_def split: option.splits)
  have T: "table_ok D (mClientInfo s)" using ok by (simp add: svc_ok_def)
  have cl: "client_ok D c" "mclientbinder c = client" using table_okD [OF T c] entry_Some [OF c] by simp_all
  have cnt: "GetClientLoadNumByName name client s = lib_count name (mloadinfo c)"
    using c by (simp add: GetClientLoadNumByName_def find_client_entry)
  show ?thesis
  proof (cases "lib_dec name (mloadinfo c)")
    case None
    have "unloadXrpLibrary_begin client name s = (Inl (- 1), s)"
      using False c None by (simp add: unloadXrpLibrary_begin_def GetClientOpenNum_eq DecClientLoadNumByName_def find_client_entry)
    moreover have "GetClientLoadNumByName name client s = 0" using None cnt by (simp add: lib_dec_None lib_count_notin)
    ultimately show ?thesis using ok by simp
  next
    case (Some ls)
    let ?f = "\<lambda>c. c\<lparr>mloadinfo := ls\<rparr>"
    let ?s' = "on_client client ?f (s\<lparr>mworking := mworking s + 1\<rparr>)"
    have dist: "distinct (map libname (mloadinfo c))" and pos: "\<forall>l \<in> set (mloadinfo c). 0 < loadcount l"
      using cl live by (auto simp: client_ok_def)
    have tot: "lib_total (mClientInfo ?s') n = lib_total (mClientInfo s) n - (if n = name then 1 else 0)" for n
      using c lib_count_dec [OF dist Some] by (simp add: lib_total_alter)
    have "unloadXrpLibrary_begin client name s = (Inr (lib_total (mClientInfo s) name = 1), ?s')"
      using False c Some tot [of name]
      by (simp add: unloadXrpLibrary_begin_def GetClientOpenNum_eq DecClientLoadNumByName_def find_client_entry
          GetLoadNumTotalByName_eq)
    moreover have "client_ok D (?f c)"
      using cl live lib_dec_distinct [OF dist Some] lib_dec_pos [OF pos Some] lib_dec_mem [OF Some]
      by (fastforce simp: client_ok_def)
    then have "svc_ok D k ?s'" using ok T c by (auto simp: svc_ok_def opens_alter intro!: table_ok_alter)
    moreover have "0 < GetClientLoadNumByName name client s"
      using cnt lib_count_pos [OF pos, of name] Some lib_dec_None [of name "mloadinfo c"] by force
    ultimately show ?thesis using tot False by (auto simp: open_num_alter)
  qed
qed

lemma dsp_load_ready:
  assumes "ready s w (n + 4)" and "mDevice s = Some d" and "servable w [input]" and "length mem = 44" and "name_fits name"
  shows "\<exists>r w'. dsp_load (mDevice s) mem name input w = Some (r, w') \<and> ready s w' n"
proof -
  have "ready s w (n + (3 * length [input] + 1))" using assms(1) by simp
  from library_command_ready [OF this assms(2-4), of "name @ [0]" "length name" 1 2] assms(2,5) show ?thesis
    by (auto simp: dsp_load_def sprd_vdsp_load_library_def name_fits_def)
qed

lemma dsp_unload_ready:
  assumes "ready s w (n + 1)" and "mDevice s = Some d" and "length mem = 44" and "name_fits name"
  shows "\<exists>r w'. dsp_unload (mDevice s) mem name w = Some (r, w') \<and> ready s w' n"
proof -
  have "ready s w (n + (3 * length [] + 1))" "servable w []" using assms(1) by (simp_all add: servable_def)
  from library_command_ready [OF this(1) assms(2) this(2) assms(3), of "name @ [0]" "length name" 2 2] assms(2,4)
  show ?thesis by (auto simp: dsp_unload_def sprd_vdsp_unload_library_def name_fits_def)
qed

lemma hint_end_ok:
  assumes ok: "svc_ok D k s" and level: "0 \<le> level" "level < 6"
  shows "\<exists>r s'. powerHint_end client level a ret s = Some (r, s') \<and> svc_ok D k s' \<and> mworking s' = mworking s - 1 \<and>
    mopen_count s' = mopen_count s \<and> mDevice s' = mDevice s \<and> mType s' = mType s \<and>
    (\<forall>x. open_num (mClientInfo s') x = open_num (mClientInfo s) x) \<and>
    (\<forall>n. lib_total (mClientInfo s') n = lib_total (mClientInfo s) n)"
proof -
  let ?f = "\<lambda>v c. c\<lparr>mpowerhint_levelnum := (mpowerhint_levelnum c)[nat level := v c]\<rparr>"
  have T: "table_ok D (mClientInfo s)" using ok by (simp add: svc_ok_def)
  have alt: "svc_ok D k ((on_client client (?f v) s)\<lparr>mworking := mworking s - 1\<rparr>)" for v
    using ok T table_okD [OF T, of client] entry_Some [of "mClientInfo s" client]
    by (auto simp: svc_ok_def opens_alter client_ok_def intro!: table_ok_alter split: option.splits)
  have keep: "svc_ok D k (s\<lparr>mworking := mworking s - 1\<rparr>)" using ok by (simp add: svc_ok_def)
  show ?thesis using level alt keep
    by (auto simp: powerHint_end_def AddDecClientPowerHint_def open_num_alter lib_total_alter split: option.split)
qed

end
