(* ===== verification/Service_Death.thy ===== *)
theory Service_Death
  imports Service_Safety
begin

text \<open>
  The clean-up after a client has died: its libraries, its hints and its opens, with the wait for the
  commands in progress.
\<close>

section \<open>Libraries\<close>

lemma alter_cong:
  "(\<And>c. entry cs client = Some c \<Longrightarrow> f c = g c) \<Longrightarrow> alter_client client f cs = alter_client client g cs"
  by (induction cs) auto

lemma erase_alter: "same_binder f \<Longrightarrow> erase_client client (alter_client client f cs) = erase_client client cs"
  by (induction cs) (auto simp: same_binder_def)

text \<open>The first \<open>m\<close> libraries of a client are counted 0.\<close>

definition zero_libs :: "nat \<Rightarrow> client_info \<Rightarrow> client_info" where
  "zero_libs m c = c\<lparr>mloadinfo := map (\<lambda>l. l\<lparr>loadcount := 0\<rparr>) (take m (mloadinfo c)) @ drop m (mloadinfo c)\<rparr>"

lemma zero_libs_simps [simp]:
  "mclientbinder (zero_libs m c) = mclientbinder c" "mopencount (zero_libs m c) = mopencount c"
  "mpowerhint_levelnum (zero_libs m c) = mpowerhint_levelnum c" "same_binder (zero_libs m)" "zero_libs 0 c = c"
  "length (mloadinfo (zero_libs m c)) = length (mloadinfo c)"
  by (simp_all add: zero_libs_def same_binder_def)

lemma zero_libs_names: "map libname (mloadinfo (zero_libs m c)) = map libname (mloadinfo c)"
  by (simp add: zero_libs_def comp_def flip: take_map drop_map)

lemma zero_libs_step:
  "m < length (mloadinfo c) \<Longrightarrow>
   zero_libs (Suc m) c = (zero_libs m c)\<lparr>mloadinfo := (mloadinfo (zero_libs m c))[m := (mloadinfo c ! m)\<lparr>loadcount := 0\<rparr>]\<rparr>"
  by (simp add: zero_libs_def take_Suc_conv_app_nth list_update_append Cons_nth_drop_Suc [symmetric])

lemma zero_libs_nth: "m < length (mloadinfo c) \<Longrightarrow> mloadinfo (zero_libs m c) ! m = mloadinfo c ! m"
  by (simp add: zero_libs_def nth_append)

lemma lib_count_distinct:
  "distinct (map libname ls) \<Longrightarrow> i < length ls \<Longrightarrow> lib_count (libname (ls ! i)) ls = loadcount (ls ! i)"
proof (induction ls arbitrary: i)
  case (Cons l ls)
  then show ?case by (cases i) (auto simp: nth_mem image_iff)
qed simp

lemma lib_count_zero_libs:
  assumes "distinct (map libname (mloadinfo c))" and "m < length (mloadinfo c)"
  shows "lib_count (libname (mloadinfo c ! m)) (mloadinfo (zero_libs (Suc m) c)) = 0"
proof -
  let ?ls = "mloadinfo (zero_libs (Suc m) c)"
  have d: "distinct (map libname ?ls)" using assms(1) by (simp only: zero_libs_names)
  have nth: "?ls ! m = (mloadinfo c ! m)\<lparr>loadcount := 0\<rparr>"
    using assms(2) by (simp add: zero_libs_def nth_append take_Suc_conv_app_nth)
  show ?thesis using lib_count_distinct [OF d, of m] nth assms(2) by simp
qed

text \<open>Unloading libraries one after the other; the ones that only this client has loaded.\<close>

primrec dsp_unloads :: "ptr \<Rightarrow> bytes \<Rightarrow> bytes list \<Rightarrow> world \<Rightarrow> world option" where
  "dsp_unloads device mem [] w = Some w"
| "dsp_unloads device mem (name # names) w = do {
     (_, w1) \<leftarrow> dsp_unload device mem name w;
     dsp_unloads device mem names w1
   }"

definition own_names :: "client_info list \<Rightarrow> client_info \<Rightarrow> nat \<Rightarrow> bytes list" where
  "own_names cs c m =
     filter (\<lambda>n. lib_total cs n = lib_count n (mloadinfo c)) (map libname (drop m (mloadinfo c)))"

lemma unload_libraries_eq:
  assumes c: "entry (mClientInfo s) client = Some c" and d: "distinct (map libname (mloadinfo c))"
  shows "m \<le> length (mloadinfo c) \<Longrightarrow>
    (case dsp_unloads (mDevice s) mem (own_names (mClientInfo s) c m) w of
       None \<Rightarrow> unload_client_libraries mem client [m..<length (mloadinfo c)] ret (on_client client (zero_libs m) s, w) = None
     | Some w' \<Rightarrow> \<exists>r. unload_client_libraries mem client [m..<length (mloadinfo c)] ret (on_client client (zero_libs m) s, w) =
         Some (r, on_client client (zero_libs (length (mloadinfo c))) s, w'))"
proof (induction "length (mloadinfo c) - m" arbitrary: m ret w)
  case 0
  then show ?case by (simp add: own_names_def)
next
  case (Suc k)
  let ?n = "length (mloadinfo c)" and ?l = "mloadinfo c ! m"
  have m: "m < ?n" using Suc.hyps(2) by simp
  let ?s = "on_client client (zero_libs m) s" and ?s1 = "on_client client (zero_libs (Suc m)) s"
  have f: "find_client client ?s = Some (zero_libs m c)" using c by (simp add: find_client_entry entry_alter)
  have s1c: "alter_client client (\<lambda>c'. c'\<lparr>mloadinfo := (mloadinfo c')[m := ?l\<lparr>loadcount := 0\<rparr>]\<rparr>)
      (alter_client client (zero_libs m) (mClientInfo s)) = alter_client client (zero_libs (Suc m)) (mClientInfo s)"
    unfolding alter_alter [OF zero_libs_simps(4)] by (rule alter_cong) (use c m in \<open>simp add: zero_libs_step\<close>)
  then have s1: "on_client client (\<lambda>c'. c'\<lparr>mloadinfo := (mloadinfo c')[m := ?l\<lparr>loadcount := 0\<rparr>]\<rparr>) ?s = ?s1"
    by (simp add: on_client_def)
  have "lib_total (mClientInfo ?s1) (libname ?l) = lib_total (mClientInfo s) (libname ?l) - lib_count (libname ?l) (mloadinfo c)"
    using c lib_count_zero_libs [OF d m] by (simp add: lib_total_alter)
  then have one: "unload_client_library mem client m (?s, w) =
      (if lib_total (mClientInfo s) (libname ?l) = lib_count (libname ?l) (mloadinfo c)
       then do { (r, w1) \<leftarrow> dsp_unload (mDevice s) mem (libname ?l) w; Some (Some r, ?s1, w1) }
       else Some (None, ?s1, w))"
    using f m by (simp add: s1 s1c unload_client_library_def zero_libs_nth GetLoadNumTotalByName_eq Let_def)
  have own: "own_names (mClientInfo s) c m =
      (if lib_total (mClientInfo s) (libname ?l) = lib_count (libname ?l) (mloadinfo c) then [libname ?l] else []) @
      own_names (mClientInfo s) c (Suc m)"
    using m by (simp add: own_names_def Cons_nth_drop_Suc [symmetric])
  have up: "[m..<?n] = m # [Suc m..<?n]" using m by (simp add: upt_conv_Cons)
  have IH: "case dsp_unloads (mDevice s) mem (own_names (mClientInfo s) c (Suc m)) w of
       None \<Rightarrow> unload_client_libraries mem client [Suc m..<?n] ret (?s1, w) = None
     | Some w' \<Rightarrow> \<exists>r. unload_client_libraries mem client [Suc m..<?n] ret (?s1, w) = Some (r, on_client client (zero_libs ?n) s, w')"
    for ret w using Suc.hyps(1) [of "Suc m"] Suc.hyps(2) m by simp
  show ?case
  proof (cases "lib_total (mClientInfo s) (libname ?l) = lib_count (libname ?l) (mloadinfo c)")
    case False
    then show ?thesis using IH [of ret w] by (simp add: one own up split: option.splits)
  next
    case True
    show ?thesis
    proof (cases "dsp_unload (mDevice s) mem (libname ?l) w")
      case None
      then show ?thesis using True by (simp add: one own up)
    next
      case (Some rw)
      then show ?thesis using True IH [of "fst rw" "snd rw"] by (cases rw) (simp add: one own up split: option.splits)
    qed
  qed
qed

lemma unload_by_client_eq:
  assumes c: "entry (mClientInfo s) client = Some c" and d: "distinct (map libname (mloadinfo c))"
  shows "case dsp_unloads (mDevice s) mem (own_names (mClientInfo s) c 0) w of
      None \<Rightarrow> unloadLibraryLoadByClient mem client (s, w) = None
    | Some w' \<Rightarrow> \<exists>r. unloadLibraryLoadByClient mem client (s, w) =
        Some (r, on_client client (zero_libs (length (mloadinfo c))) s, w')"
proof -
  have "on_client client (zero_libs 0) s = s"
    by (cases s) (simp add: on_client_def alter_id)
  then show ?thesis using unload_libraries_eq [OF c d, of 0 mem 0 w] c
    by (simp add: unloadLibraryLoadByClient_def find_client_entry split: option.splits)
qed

lemma dsp_unloads_ready:
  "ready s w (n + length names) \<Longrightarrow> mDevice s = Some d \<Longrightarrow> length mem = 44 \<Longrightarrow> \<forall>x \<in> set names. name_fits x \<Longrightarrow>
   \<exists>w'. dsp_unloads (mDevice s) mem names w = Some w' \<and> ready s w' n"
proof (induction names arbitrary: w)
  case (Cons x xs)
  have "ready s w ((n + length xs) + 1)" using Cons.prems(1) by simp
  with Cons.prems obtain r w1 where "dsp_unload (mDevice s) mem x w = Some (r, w1)" "ready s w1 (n + length xs)"
    using dsp_unload_ready [of s w "n + length xs" d mem x] by auto
  then show ?case using Cons by simp
qed simp

section \<open>Hints\<close>

text \<open>Releasing the hints: one call for each, whatever the driver answers.\<close>

definition hint_calls :: "int \<Rightarrow> u32 list \<Rightarrow> nat list \<Rightarrow> call list" where
  "hint_calls fd hs is = concat (map (\<lambda>i. replicate (unat (hs ! i)) (Ioctl_powerhint fd (int i) 1)) is)"

lemma get_device_record [simp]: "get_device d (record_call k w) = get_device d w" "get_device d (w\<lparr>ticks := t\<rparr>) = get_device d w"
  by (simp_all add: get_device_def record_call_def)

lemma release_hints_ok:
  assumes "ready s w n" and "mDevice s = Some d" and "get_device d w = Some dev"
  shows "\<exists>v w'. release_hints (mDevice s) i k lc r w = Some (v, w') \<and> ready s w' n \<and> get_device d w' = Some dev \<and>
    log w' = log w @ replicate k (Ioctl_powerhint (dev_fd dev) (int i) 1) \<and> env w' = env w \<and>
    ((\<forall>t. ioctl_ret (env w) t = 0) \<longrightarrow> fst v = lc + of_nat k)"
  using assms
proof (induction k arbitrary: lc r w)
  case (Suc k)
  let ?w1 = "(record_call (Ioctl_powerhint (dev_fd dev) (int i) 1) w)\<lparr>ticks := Suc (ticks w)\<rparr>"
  let ?lc = "if ioctl_ret (env w) (ticks w) = 0 then lc + 1 else lc"
  have "release_hints (mDevice s) i (Suc k) lc r w = release_hints (mDevice s) i k ?lc (ioctl_ret (env w) (ticks w)) ?w1"
    using Suc.prems by (simp add: set_powerhint_flag_def ask_def)
  moreover have "ready s ?w1 n" "get_device d ?w1 = Some dev" using Suc.prems by simp_all
  ultimately show ?case
    using Suc.IH [of ?w1 ?lc "ioctl_ret (env w) (ticks w)"] Suc.prems(2) by (auto simp: record_call_def ac_simps)
qed simp

lemma release_levels_ok:
  assumes "ready s w n" and "mDevice s = Some d" and "get_device d w = Some dev" and "entry (mClientInfo s) client = Some c"
    and "distinct is" and "\<forall>i \<in> set is. i < length (mpowerhint_levelnum c)"
  shows "\<exists>rs hs w'. release_levels client is r (s, w) =
      Some (rs, on_client client (\<lambda>c. c\<lparr>mpowerhint_levelnum := hs\<rparr>) s, w') \<and> ready s w' n \<and>
    length hs = length (mpowerhint_levelnum c) \<and>
    log w' = log w @ hint_calls (dev_fd dev) (mpowerhint_levelnum c) is \<and> env w' = env w"
  using assms
proof (induction "is" arbitrary: s w c r)
  case Nil
  have "on_client client (\<lambda>c'. c'\<lparr>mpowerhint_levelnum := mpowerhint_levelnum c\<rparr>) s = on_client client (\<lambda>c. c) s"
    unfolding on_client_def using Nil.prems(4) by (intro arg_cong [where f = "\<lambda>cs. s\<lparr>mClientInfo := cs\<rparr>"] alter_cong) simp
  also have "\<dots> = s" by (cases s) (simp add: on_client_def alter_id)
  finally show ?case using Nil.prems
    by (intro exI [of _ r] exI [of _ "mpowerhint_levelnum c"] exI [of _ w]) (simp add: hint_calls_def)
next
  case (Cons i "is")
  let ?h = "mpowerhint_levelnum c ! i"
  obtain v w1 where rel: "release_hints (mDevice s) i (unat ?h) 0 (fst r) w = Some (v, w1)" "ready s w1 n"
    "get_device d w1 = Some dev" "log w1 = log w @ replicate (unat ?h) (Ioctl_powerhint (dev_fd dev) (int i) 1)" "env w1 = env w"
    using release_hints_ok [OF Cons.prems(1-3)] by blast
  let ?g = "\<lambda>c. c\<lparr>mpowerhint_levelnum := (mpowerhint_levelnum c)[i := ?h - fst v]\<rparr>"
  let ?s1 = "on_client client ?g s" and ?r1 = "(snd v, if ?h - fst v \<noteq> 0 then - 1 else snd r)"
  have step: "release_levels client (i # is) r (s, w) = release_levels client is ?r1 (?s1, w1)"
    using Cons.prems(4) rel(1) by (simp add: find_client_entry Let_def split: prod.split)
  have pre: "ready ?s1 w1 n" "mDevice ?s1 = Some d" "entry (mClientInfo ?s1) client = Some (?g c)"
    using rel(2) Cons.prems(2,4) ready_cong [of ?s1 s] by (simp_all add: entry_alter)
  obtain rs hs w' where IH: "release_levels client is ?r1 (?s1, w1) =
      Some (rs, on_client client (\<lambda>c. c\<lparr>mpowerhint_levelnum := hs\<rparr>) ?s1, w')" "ready ?s1 w' n"
    "length hs = length (mpowerhint_levelnum (?g c))"
    "log w' = log w1 @ hint_calls (dev_fd dev) (mpowerhint_levelnum (?g c)) is" "env w' = env w1"
    using Cons.IH [OF pre(1,2) rel(3) pre(3)] Cons.prems(5,6) by fastforce
  have "on_client client (\<lambda>c. c\<lparr>mpowerhint_levelnum := hs\<rparr>) ?s1 = on_client client (\<lambda>c. c\<lparr>mpowerhint_levelnum := hs\<rparr>) s"
    by (simp add: on_client_def alter_alter comp_def)
  moreover have "hint_calls (dev_fd dev) (mpowerhint_levelnum (?g c)) is = hint_calls (dev_fd dev) (mpowerhint_levelnum c) is"
  proof -
    have "(mpowerhint_levelnum c)[i := x] ! j = mpowerhint_levelnum c ! j" if "j \<in> set is" for j x
      using that Cons.prems(5) by (cases "j = i") auto
    then show ?thesis unfolding hint_calls_def by (intro arg_cong [where f = concat] map_cong) simp_all
  qed
  ultimately show ?case using step IH rel(4,5) ready_cong [of ?s1 s]
    by (intro exI [of _ rs] exI [of _ hs] exI [of _ w']) (simp add: hint_calls_def)
qed

lemma release_by_client_ok:
  assumes "ready s w n" and "mDevice s = Some d" and "get_device d w = Some dev" and "entry (mClientInfo s) client = Some c"
    and "length (mpowerhint_levelnum c) = 6"
  shows "\<exists>r hs w'. ReleaseCilentPowerHint client (s, w) =
      Some (r, on_client client (\<lambda>c. c\<lparr>mpowerhint_levelnum := hs\<rparr>) s, w') \<and> ready s w' n \<and> length hs = 6 \<and>
    log w' = log w @ hint_calls (dev_fd dev) (mpowerhint_levelnum c) [0..<6] \<and> env w' = env w"
  using release_levels_ok [OF assms(1-4), of "[0..<6]" "(- 1, 0)"] assms(4,5)
  by (fastforce simp: ReleaseCilentPowerHint_def find_client_entry)

section \<open>Closes\<close>

lemma dec_opens_all:
  assumes "entry (mClientInfo s) client = Some c" and "0 < mopencount c"
  shows "dec_opens client (nat (mopencount c)) (s, w) =
    (s\<lparr>mClientInfo := erase_client client (mClientInfo s)\<rparr>, record_call (Unlink_death client) w)"
proof -
  have "dec_opens client (Suc k) (s, w) =
      (s\<lparr>mClientInfo := erase_client client (mClientInfo s)\<rparr>, record_call (Unlink_death client) w)"
    if "entry (mClientInfo s) client = Some c" "mopencount c = 1 + int k" for k s w c
    using that
  proof (induction k arbitrary: s c)
    case 0
    then show ?case by (simp add: dec_number dec_open_def)
  next
    case (Suc k)
    let ?f = "\<lambda>c. c\<lparr>mopencount := mopencount c - 1\<rparr>"
    let ?s = "s\<lparr>mClientInfo := alter_client client ?f (mClientInfo s)\<rparr>"
    have "dec_opens client (Suc (Suc k)) (s, w) = dec_opens client (Suc k) (?s, w)"
      using Suc.prems by (simp add: dec_number dec_open_def)
    also have "\<dots> = (?s\<lparr>mClientInfo := erase_client client (mClientInfo ?s)\<rparr>, record_call (Unlink_death client) w)"
      using Suc.prems by (intro Suc.IH [of _ "?f c"]) (simp_all add: entry_alter)
    finally show ?case by (simp add: erase_alter)
  qed
  from this [of s c "nat (mopencount c - 1)" w] assms show ?thesis
    by (metis One_nat_def Suc_nat_eq_nat_zadd1 add.commute diff_add_cancel nat_0_le zle_diff1_eq)
qed

lemma erase_absent: "distinct (map mclientbinder cs) \<Longrightarrow> entry (erase_client client cs) client = None"
  by (simp add: entry_erase)

text \<open>The client is gone: what is left of \<open>binderDied\<close> does nothing.\<close>

lemma died_closes_gone:
  "entry (mClientInfo s) client = None \<Longrightarrow> died_closes client n (s, w) = Some (Inl (), s, w)"
  by (induction n) (simp_all add: ClearClientInfo_def nolock_start_def find_client_entry GetClientOpenNum_def)

lemma svc_ok_mono: "svc_ok D k s \<Longrightarrow> D \<subseteq> E \<Longrightarrow> svc_ok E k s"
  unfolding svc_ok_def table_ok_def client_ok_def by (smt (verit) subsetD)

text \<open>
  What the clean-up has changed when it comes to the closes: only the entry of the client, and in it only
  the libraries' counts and the hints.
\<close>

definition cleaned :: "client \<Rightarrow> vdsp_service \<Rightarrow> vdsp_service \<Rightarrow> bool" where
  "cleaned client s s' \<longleftrightarrow> (\<exists>f. same_binder f \<and> (\<forall>c. mopencount (f c) = mopencount c) \<and> s' = on_client client f s)"

lemma erase_ok:
  assumes ok: "svc_ok D k s" and c: "entry (mClientInfo s) client = Some c"
    and m: "uint m + k' = opens (mClientInfo s) - mopencount c"
    and D: "D \<subseteq> insert client E" and p: "p = None \<longleftrightarrow> m = 0"
  shows "svc_ok E k' (s\<lparr>mClientInfo := erase_client client (mClientInfo s), mopen_count := m, mDevice := p\<rparr>)"
proof -
  have T: "table_ok D (mClientInfo s)" using ok by (simp add: svc_ok_def)
  have "table_ok D (erase_client client (mClientInfo s))" using table_ok_erase [OF T] .
  moreover have ne: "mclientbinder c' \<noteq> client" if "c' \<in> set (erase_client client (mClientInfo s))" for c'
    using T that erase_absent [of "mClientInfo s" client] by (auto simp: table_ok_def entry_None)
  ultimately have "client_ok E c'" if "c' \<in> set (erase_client client (mClientInfo s))" for c'
    using that D client_ok_mono [of D c' E] by (auto simp: table_ok_def)
  then have "table_ok E (erase_client client (mClientInfo s))"
    using table_ok_erase [OF T, of client] by (simp add: table_ok_def)
  then show ?thesis using c m p by (simp add: svc_ok_def opens_erase)
qed

lemma uint_sub_int:
  assumes "0 \<le> i" and "i \<le> uint (m :: u32)"
  shows "uint (m - word_of_int i) = uint m - i"
proof -
  have "uint m < 2 ^ 32" using unsigned_less [of m, where ?'a = int] by simp
  then show ?thesis using assms
    by (simp add: uint_word_ariths unsigned_of_int take_bit_int_eq_self mod_pos_pos_trivial)
qed

text \<open>The device is closed, or kept for the other clients; the client's entry goes.\<close>

definition without :: "client \<Rightarrow> u32 \<Rightarrow> vdsp_service \<Rightarrow> vdsp_service" where
  "without client m s =
     (if m = 0 then closed s else s)\<lparr>mClientInfo := erase_client client (mClientInfo s), mopen_count := m\<rparr>"

lemma without_simps [simp]:
  "mClientInfo (without client m s) = erase_client client (mClientInfo s)" "mopen_count (without client m s) = m"
  "mworking (without client m s) = mworking s" "mDevice (without client m s) = (if m = 0 then None else mDevice s)"
  by (simp_all add: without_def)

lemma without_ok:
  assumes "svc_ok D k s" and "entry (mClientInfo s) client = Some c" and "D \<subseteq> insert client E"
    and "uint m = opens (mClientInfo s) - mopencount c" and "mDevice s \<noteq> None"
  shows "svc_ok E 0 (without client m s)"
  using erase_ok [OF assms(1,2) _ assms(3), of m 0 "if m = 0 then None else mDevice s"] assms(4,5)
  by (simp add: svc_ok_def)

lemma quiet_unlink: "quiet w w' \<Longrightarrow> quiet w (record_call (Unlink_death client) w')"
  using quiet_trans [OF _ quiet_snoc [of "record_call (Unlink_death client) w'" w' "Unlink_death client"]]
  by (simp add: record_call_def)

lemma finish_ok:
  assumes ok: "svc_ok D k s" and r: "ready s w n" and c: "entry (mClientInfo s) client = Some c" and d: "mDevice s \<noteq> None"
  shows "m = 0 \<Longrightarrow> \<exists>w'. close_device (s\<lparr>mopen_count := 0\<rparr>, w) = Some (closed (s\<lparr>mopen_count := 0\<rparr>), w') \<and>
      dec_opens client (nat (mopencount c)) (closed (s\<lparr>mopen_count := 0\<rparr>), w') =
        (without client 0 s, record_call (Unlink_death client) w') \<and>
      ready (without client 0 s) (record_call (Unlink_death client) w') n \<and> env w' = env w \<and> quiet w w'"
    and "m \<noteq> 0 \<Longrightarrow> dec_opens client (nat (mopencount c)) (s\<lparr>mopen_count := m\<rparr>, w) =
        (without client m s, record_call (Unlink_death client) w) \<and>
      ready (without client m s) (record_call (Unlink_death client) w) n"
proof -
  have T: "table_ok D (mClientInfo s)" using ok by (simp add: svc_ok_def)
  have pos: "0 < mopencount c" using table_okD [OF T c] by (simp add: client_ok_def)
  { assume "m \<noteq> 0"
    then show "dec_opens client (nat (mopencount c)) (s\<lparr>mopen_count := m\<rparr>, w) =
        (without client m s, record_call (Unlink_death client) w) \<and>
      ready (without client m s) (record_call (Unlink_death client) w) n"
      using dec_opens_all [of "s\<lparr>mopen_count := m\<rparr>" client c w] c pos r ready_cong [of "without client m s" s]
      by (simp add: without_def) }
  { let ?s = "s\<lparr>mopen_count := 0\<rparr>"
    obtain d' where "mDevice s = Some d'" using d by blast
    then obtain w' where w': "close_device (?s, w) = Some (closed ?s, w')" "ready (closed ?s) w' n" "env w' = env w" "quiet w w'"
      using close_device_ok [of ?s w n d'] r ready_cong [of ?s s] by auto
    then show "\<exists>w'. close_device (?s, w) = Some (closed ?s, w') \<and>
      dec_opens client (nat (mopencount c)) (closed ?s, w') = (without client 0 s, record_call (Unlink_death client) w') \<and>
      ready (without client 0 s) (record_call (Unlink_death client) w') n \<and> env w' = env w \<and> quiet w w'"
      using dec_opens_all [of "closed ?s" client c w'] c pos ready_cong [of "without client 0 s" "closed ?s"]
      by (auto simp: without_def closed_def) }
qed

text \<open>The first look: the client's entry is gone afterwards, or the service waits for the commands.\<close>

lemma nolock_start_ok:
  assumes ok: "svc_ok D 0 s" and r: "ready s w n" and c: "entry (mClientInfo s) client = Some c" and D: "D \<subseteq> insert client E"
  shows "if uint (mopen_count s) = mopencount c \<and> mworking s \<noteq> 0
    then nolock_start client (s, w) = Some (Inr (mopencount c), s\<lparr>mopen_count := 1\<rparr>, w) \<and>
      svc_ok D (mopencount c - 1) (s\<lparr>mopen_count := 1\<rparr>) \<and> ready (s\<lparr>mopen_count := 1\<rparr>) w n
    else \<exists>m w'. nolock_start client (s, w) = Some (Inl (), without client m s, w') \<and>
      uint m = uint (mopen_count s) - mopencount c \<and> svc_ok E 0 (without client m s) \<and>
      ready (without client m s) w' n \<and> env w' = env w \<and> entry (mClientInfo (without client m s)) client = None \<and>
      quiet w w'"
proof -
  have T: "table_ok D (mClientInfo s)" and sum: "uint (mopen_count s) = opens (mClientInfo s)" using ok by (simp_all add: svc_ok_def)
  have pos: "0 < mopencount c" and le: "mopencount c \<le> uint (mopen_count s)"
    using table_okD [OF T c] opens_ge_entry [OF T c] sum by (simp_all add: client_ok_def)
  have num: "GetClientOpenNum client s = mopencount c" using c by (simp add: GetClientOpenNum_def find_client_entry)
  have dev: "mDevice s \<noteq> None" using ok pos le by (auto simp: svc_ok_def)
  let ?m = "mopen_count s - word_of_int (mopencount c)"
  have m: "uint ?m = uint (mopen_count s) - mopencount c" using uint_sub_int [OF _ le] pos by simp
  then have m0: "?m = 0 \<longleftrightarrow> uint (mopen_count s) = mopencount c" using uint_0_iff [of ?m] by auto
  have gone: "entry (mClientInfo (without client ?m s)) client = None" using T by (simp add: erase_absent table_ok_def)
  have wok: "svc_ok E 0 (without client ?m s)" using without_ok [OF ok c D _ dev] m sum by simp
  consider (busy) "?m = 0" "mworking s \<noteq> 0" | (last) "?m = 0" "mworking s = 0" | (more) "?m \<noteq> 0" by blast
  then show ?thesis
  proof cases
    case busy
    then have "nolock_start client (s, w) = Some (Inr (mopencount c), s\<lparr>mopen_count := 1\<rparr>, w)"
      using num pos by (simp add: nolock_start_def Let_def)
    moreover have "svc_ok D (mopencount c - 1) (s\<lparr>mopen_count := 1\<rparr>)"
      using ok sum m busy dev by (simp add: svc_ok_def)
    ultimately show ?thesis using busy m0 r ready_cong [of "s\<lparr>mopen_count := 1\<rparr>" s] by simp
  next
    case last
    from finish_ok(1) [OF ok r c dev refl] obtain w' where
      "close_device (s\<lparr>mopen_count := 0\<rparr>, w) = Some (closed (s\<lparr>mopen_count := 0\<rparr>), w')"
      "dec_opens client (nat (mopencount c)) (closed (s\<lparr>mopen_count := 0\<rparr>), w') =
        (without client 0 s, record_call (Unlink_death client) w')"
      "ready (without client 0 s) (record_call (Unlink_death client) w') n" "env w' = env w" "quiet w w'" by blast
    moreover from this have "nolock_start client (s, w) = Some (Inl (), without client 0 s, record_call (Unlink_death client) w')"
      using num pos last by (simp add: nolock_start_def Let_def)
    ultimately show ?thesis using last m m0 gone wok quiet_unlink [of w w' client] by auto
  next
    case more
    then have "nolock_start client (s, w) = Some (Inl (), without client ?m s, record_call (Unlink_death client) w)"
      using num pos finish_ok(2) [OF ok r c dev more] by (simp add: nolock_start_def Let_def)
    then show ?thesis using more m m0 gone wok finish_ok(2) [OF ok r c dev more] quiet_unlink [of w w client]
      by (auto simp: quiet_same)
  qed
qed

text \<open>The later looks.\<close>

lemma nolock_again_ok:
  assumes ok: "svc_ok D (mopencount c - 1) s" and r: "ready s w n" and c: "entry (mClientInfo s) client = Some c"
    and D: "D \<subseteq> insert client E" and dev: "mDevice s \<noteq> None"
  shows "if mworking s \<noteq> 0 then nolock_again client (mopencount c) (s, w) = Some (Inr (mopencount c), s, w)
    else \<exists>w'. nolock_again client (mopencount c) (s, w) = Some (Inl (), without client (mopen_count s - 1) s, w') \<and>
      svc_ok E 0 (without client (mopen_count s - 1) s) \<and> ready (without client (mopen_count s - 1) s) w' n \<and>
      env w' = env w \<and> quiet w w'"
proof -
  let ?m = "mopen_count s - 1"
  have m0: "mopen_count s \<noteq> 0" and sum: "uint (mopen_count s) + (mopencount c - 1) = opens (mClientInfo s)"
    using ok dev by (simp_all add: svc_ok_def)
  have m: "uint ?m = opens (mClientInfo s) - mopencount c" using uint_u32_dec [OF m0] sum by simp
  have wok: "svc_ok E 0 (without client ?m s)" using without_ok [OF ok c D m dev] .
  show ?thesis
  proof (cases "mworking s = 0")
    case False
    then show ?thesis by (simp add: nolock_again_def Let_def)
  next
    case True
    show ?thesis
    proof (cases "?m = 0")
      case last: True
      from finish_ok(1) [OF ok r c dev refl] obtain w' where
        "close_device (s\<lparr>mopen_count := 0\<rparr>, w) = Some (closed (s\<lparr>mopen_count := 0\<rparr>), w')"
        "dec_opens client (nat (mopencount c)) (closed (s\<lparr>mopen_count := 0\<rparr>), w') =
          (without client 0 s, record_call (Unlink_death client) w')"
        "ready (without client 0 s) (record_call (Unlink_death client) w') n" "env w' = env w" "quiet w w'" by blast
      moreover from this have "nolock_again client (mopencount c) (s, w) =
          Some (Inl (), without client 0 s, record_call (Unlink_death client) w')"
        using True last by (simp add: nolock_again_def Let_def)
      ultimately show ?thesis using True last wok quiet_unlink [of w w' client] by auto
    next
      case more: False
      then have "nolock_again client (mopencount c) (s, w) = Some (Inl (), without client ?m s, record_call (Unlink_death client) w)"
        using True finish_ok(2) [OF ok r c dev more] by (simp add: nolock_again_def Let_def)
      then show ?thesis using True more wok finish_ok(2) [OF ok r c dev more] quiet_unlink [of w w client]
        by (auto simp: quiet_same)
    qed
  qed
qed

section \<open>The handler\<close>

lemma client_ok_zero:
  assumes "client_ok D c" and "mclientbinder c \<in> E"
  shows "client_ok E ((zero_libs m c)\<lparr>mpowerhint_levelnum := hs\<rparr>) \<longleftrightarrow> length hs = 6"
proof -
  let ?ls = "map (\<lambda>l. l\<lparr>loadcount := 0\<rparr>) (take m (mloadinfo c)) @ drop m (mloadinfo c)"
  have "\<forall>l \<in> set ?ls. 0 \<le> loadcount l \<and> length (libname l) < 32 \<and> 0 \<notin> set (libname l)"
    using assms(1) by (auto simp: client_ok_def dest!: in_set_takeD in_set_dropD split: if_splits)
  moreover have "distinct (map libname ?ls)"
    using assms(1) zero_libs_names [of m c] by (simp add: client_ok_def zero_libs_def)
  ultimately show ?thesis using assms by (auto simp: client_ok_def zero_libs_def)
qed

definition cleared :: "client \<Rightarrow> u32 list \<Rightarrow> vdsp_service \<Rightarrow> vdsp_service" where
  "cleared client hs = on_client client (\<lambda>c. (zero_libs (length (mloadinfo c)) c)\<lparr>mpowerhint_levelnum := hs\<rparr>)"

lemma cleared_simps [simp]:
  "mopen_count (cleared client hs s) = mopen_count s" "mworking (cleared client hs s) = mworking s"
  "mDevice (cleared client hs s) = mDevice s"
  by (simp_all add: cleared_def)

lemma entry_cleared:
  "entry (mClientInfo (cleared client hs s)) x =
   (if x = client then map_option (\<lambda>c. (zero_libs (length (mloadinfo c)) c)\<lparr>mpowerhint_levelnum := hs\<rparr>) (entry (mClientInfo s) x)
    else entry (mClientInfo s) x)"
  by (simp add: cleared_def entry_alter same_binder_def)

lemma cleared_ok:
  assumes "svc_ok D k s" and "length hs = 6"
  shows "svc_ok (insert client D) k (cleared client hs s)"
proof -
  have T: "table_ok (insert client D) (mClientInfo s)"
    using svc_ok_mono [OF assms(1), of "insert client D"] by (auto simp: svc_ok_def)
  have "table_ok (insert client D) (mClientInfo (cleared client hs s))"
    unfolding cleared_def on_client_simps
  proof (rule table_ok_alter [OF T])
    fix c assume "entry (mClientInfo s) client = Some c"
    then show "client_ok (insert client D) ((zero_libs (length (mloadinfo c)) c)\<lparr>mpowerhint_levelnum := hs\<rparr>)"
      using table_okD [OF T] entry_Some [of "mClientInfo s" client c] assms(2)
      by (subst client_ok_zero [of "insert client D"]) auto
  qed (simp add: same_binder_def)
  then show ?thesis using assms(1) by (simp add: svc_ok_def cleared_def opens_alter split: option.split)
qed

lemma without_cleared: "without client m (cleared client hs s) = without client m s"
  by (auto simp: without_def cleared_def on_client_def closed_def erase_alter same_binder_def)

lemma binder_died_gone:
  assumes "entry (mClientInfo s) client = None"
  shows "binderDied mem client (s, w) = Some (Inl (), s, w)"
  using assms by (simp add: binderDied_def unloadLibraryLoadByClient_def ReleaseCilentPowerHint_def find_client_entry
      GetClientOpenNum_def ClearClientInfo_def)

text \<open>The first half of the handler: the client's libraries are unloaded and its power hints released.\<close>

lemma died_cleanup_ok:
  assumes ok: "svc_ok {} 0 s" and c: "entry (mClientInfo s) client = Some c"
    and r: "ready s w (n + length (mloadinfo c))" and mem: "length mem = 44" and d: "mDevice s = Some d"
  shows "\<exists>r1 r2 hs w1 w2 dev. dsp_unloads (Some d) mem (own_names (mClientInfo s) c 0) w = Some w1 \<and>
    get_device d w1 = Some dev \<and> log w2 = log w1 @ hint_calls (dev_fd dev) (mpowerhint_levelnum c) [0..<6] \<and>
    unloadLibraryLoadByClient mem client (s, w) = Some (r1, on_client client (zero_libs (length (mloadinfo c))) s, w1) \<and>
    ReleaseCilentPowerHint client (on_client client (zero_libs (length (mloadinfo c))) s, w1) =
      Some (r2, cleared client hs s, w2) \<and>
    svc_ok {client} 0 (cleared client hs s) \<and> ready (cleared client hs s) w2 n"
proof -
  have T: "table_ok {} (mClientInfo s)" using ok by (simp add: svc_ok_def)
  have cl: "client_ok {} c" "mclientbinder c = client" using table_okD [OF T c] entry_Some [OF c] by simp_all
  let ?names = "own_names (mClientInfo s) c 0"
  have "length ?names \<le> length (mloadinfo c)" "\<forall>x \<in> set ?names. name_fits x"
    using cl by (auto simp: own_names_def name_fits_def client_ok_def intro: order_trans [OF length_filter_le])
  then obtain w1 where w1: "dsp_unloads (mDevice s) mem ?names w = Some w1" "ready s w1 n"
    using dsp_unloads_ready [of s w n ?names d mem] ready_mono [OF r, of "n + length ?names"] d mem by auto
  let ?s1 = "on_client client (zero_libs (length (mloadinfo c))) s"
  obtain r1 where u: "unloadLibraryLoadByClient mem client (s, w) = Some (r1, ?s1, w1)"
    using unload_by_client_eq [OF c, of mem w] cl w1(1) by (auto simp: client_ok_def)
  have r1: "ready ?s1 w1 n" using w1(2) ready_cong [of ?s1 s] by simp
  obtain dev where dev: "get_device d w1 = Some dev" using readyE [OF w1(2) d] by blast
  have e1: "entry (mClientInfo ?s1) client = Some (zero_libs (length (mloadinfo c)) c)" using c by (simp add: entry_alter)
  obtain r2 hs w2 where h: "ReleaseCilentPowerHint client (?s1, w1) =
      Some (r2, on_client client (\<lambda>c. c\<lparr>mpowerhint_levelnum := hs\<rparr>) ?s1, w2)" "ready ?s1 w2 n" "length hs = 6"
    "log w2 = log w1 @ hint_calls (dev_fd dev) (mpowerhint_levelnum c) [0..<6]"
    using release_by_client_ok [OF r1 _ dev e1] d cl by (auto simp: client_ok_def)
  let ?s2 = "cleared client hs s"
  have "alter_client client (\<lambda>c. c\<lparr>mpowerhint_levelnum := hs\<rparr>) (alter_client client (zero_libs (length (mloadinfo c))) (mClientInfo s)) =
      alter_client client (\<lambda>c. (zero_libs (length (mloadinfo c)) c)\<lparr>mpowerhint_levelnum := hs\<rparr>) (mClientInfo s)"
    unfolding alter_alter [OF zero_libs_simps(4)] by (rule alter_cong) (use c in simp)
  then have s2: "on_client client (\<lambda>c. c\<lparr>mpowerhint_levelnum := hs\<rparr>) ?s1 = ?s2" by (simp add: cleared_def on_client_def)
  have "ready ?s2 w2 n" using h(2) ready_cong [of ?s2 ?s1] by simp
  then show ?thesis
    using w1(1) [unfolded d] dev h(4) u h(1) [unfolded s2] cleared_ok [OF ok h(3), of client] by blast
qed

text \<open>
  First the libraries that only this client has loaded are unloaded, then its hints are released one by one,
  and then its opens: either its entry is gone, and the device closed if nobody else has it open, or the
  service waits for the commands in progress.
\<close>

lemma binder_died_ok:
  assumes ok: "svc_ok {} 0 s" and c: "entry (mClientInfo s) client = Some c"
    and r: "ready s w (n + length (mloadinfo c))" and mem: "length mem = 44"
  shows "\<exists>hs w1 w2 d dev. dsp_unloads (mDevice s) mem (own_names (mClientInfo s) c 0) w = Some w1 \<and>
    mDevice s = Some d \<and> get_device d w1 = Some dev \<and>
    log w2 = log w1 @ hint_calls (dev_fd dev) (mpowerhint_levelnum c) [0..<6] \<and>
    (if uint (mopen_count s) = mopencount c \<and> mworking s \<noteq> 0
     then \<exists>k. binderDied mem client (s, w) = Some (Inr (mopencount c, k), (cleared client hs s)\<lparr>mopen_count := 1\<rparr>, w2) \<and>
       svc_ok {client} (mopencount c - 1) ((cleared client hs s)\<lparr>mopen_count := 1\<rparr>) \<and>
       ready ((cleared client hs s)\<lparr>mopen_count := 1\<rparr>) w2 n
     else \<exists>m w'. binderDied mem client (s, w) = Some (Inl (), without client m s, w') \<and>
       uint m = uint (mopen_count s) - mopencount c \<and> svc_ok {} 0 (without client m s) \<and>
       ready (without client m s) w' n \<and> quiet w2 w')"
proof -
  have T: "table_ok {} (mClientInfo s)" using ok by (simp add: svc_ok_def)
  have pos: "0 < mopencount c" "mopencount c \<le> uint (mopen_count s)"
    using table_okD [OF T c] opens_ge_entry [OF T c] ok by (simp_all add: client_ok_def svc_ok_def)
  then obtain d where d: "mDevice s = Some d" using ok by (auto simp: svc_ok_def)
  obtain r1 r2 hs w1 w2 dev where w: "dsp_unloads (Some d) mem (own_names (mClientInfo s) c 0) w = Some w1"
    "get_device d w1 = Some dev" "log w2 = log w1 @ hint_calls (dev_fd dev) (mpowerhint_levelnum c) [0..<6]"
    "unloadLibraryLoadByClient mem client (s, w) = Some (r1, on_client client (zero_libs (length (mloadinfo c))) s, w1)"
    "ReleaseCilentPowerHint client (on_client client (zero_libs (length (mloadinfo c))) s, w1) =
      Some (r2, cleared client hs s, w2)"
    and s2: "svc_ok {client} 0 (cleared client hs s)" "ready (cleared client hs s) w2 n"
    using died_cleanup_ok [OF ok c r mem d] by blast
  let ?s2 = "cleared client hs s" and ?c = "(zero_libs (length (mloadinfo c)) c)\<lparr>mpowerhint_levelnum := hs\<rparr>"
  have e2: "entry (mClientInfo ?s2) client = Some ?c" using c by (simp add: entry_cleared)
  have num: "nat (GetClientOpenNum client ?s2) = Suc (nat (mopencount c - 1))"
    using e2 pos(1) by (simp add: GetClientOpenNum_def find_client_entry)
  have died: "binderDied mem client (s, w) = died_closes client (Suc (nat (mopencount c - 1))) (?s2, w2)"
    using w(4,5) num by (simp add: binderDied_def)
  note start = nolock_start_ok [OF s2 e2, of "{}"]
  show ?thesis
  proof (cases "uint (mopen_count s) = mopencount c \<and> mworking s \<noteq> 0")
    case True
    then show ?thesis using start died w(1-3) d
      by (intro exI [of _ hs] exI [of _ w1] exI [of _ w2] exI [of _ d] exI [of _ dev]) auto
  next
    case False
    then obtain m w' where m: "nolock_start client (?s2, w2) = Some (Inl (), without client m ?s2, w')"
      "uint m = uint (mopen_count s) - mopencount c" "svc_ok {} 0 (without client m ?s2)"
      "ready (without client m ?s2) w' n" "entry (mClientInfo (without client m ?s2)) client = None" "quiet w2 w'"
      using start by auto
    have "binderDied mem client (s, w) = Some (Inl (), without client m s, w')"
      using died m(1) died_closes_gone [OF m(5)] by (simp add: without_cleared)
    then show ?thesis using False m w(1-3) d unfolding without_cleared
      by (intro exI [of _ hs] exI [of _ w1] exI [of _ w2] exI [of _ d] exI [of _ dev]) auto
  qed
qed

end
