(* ===== verification/Service_Run.thy ===== *)
theory Service_Run
  imports Service_Death
begin

text \<open>
  The service as a whole: the binder threads run its operations at the same time. What an operation does
  under \<open>mLock\<close> is one step; the locks \<open>mLoadLock\<close> and \<open>mPowerHintLock\<close>, which are held across steps, are part
  of the state. The invariant of all runs, and what follows from it.
\<close>

section \<open>Runs\<close>

text \<open>Who holds \<open>mLoadLock\<close>, and who \<open>mPowerHintLock\<close>. \<open>Waiting\<close>: \<open>closeXrpDevice_NoLock\<close> sleeps.\<close>

datatype load_holder = Loading client bytes | Unloading bytes | Cleaning client
datatype hint_holder = Hinting client int u32 | Waiting client int nat

record run_state =
  svc :: vdsp_service
  wld :: world
  sends :: nat
  leaked :: nat
  load_lock :: "load_holder option"
  hint_lock :: "hint_holder option"

text \<open>The service object is value-initialised: \<open>new BnVdspService()\<close>.\<close>

definition initial_service :: vdsp_service where
  "initial_service = \<lparr>mopen_count = 0, mworking = 0, mDevice = None, mType = SPRD_VDSP_WORK_NORMAL, mIonDevFd = 0,
     mClientInfo = []\<rparr>"

definition started :: "world \<Rightarrow> run_state" where
  "started w = \<lparr>svc = initial_service, wld = w, sends = 0, leaked = 0, load_lock = None, hint_lock = None\<rparr>"

text \<open>A dead client makes no more calls; calls it had made before its death go on.\<close>

definition alive :: "client \<Rightarrow> run_state \<Rightarrow> bool" where
  "alive client r \<longleftrightarrow> load_lock r \<noteq> Some (Cleaning client) \<and> (\<forall>i k. hint_lock r \<noteq> Some (Waiting client i k))"

definition unsaturated :: "run_state \<Rightarrow> bool" where
  "unsaturated r \<longleftrightarrow> uint (mopen_count (svc r)) < 2 ^ 32 - 1 \<and> uint (mworking (svc r)) < 2 ^ 32 - 1"

text \<open>\<open>svc_step k r r'\<close>: a step in which at most \<open>k\<close> references to objects of the driver layer are made.\<close>

inductive svc_step :: "nat \<Rightarrow> run_state \<Rightarrow> run_state \<Rightarrow> bool" where
  open_device: "alive client r \<Longrightarrow> unsaturated r \<Longrightarrow> openXrpDevice client type (svc r, wld r) = Some (ret, s, w) \<Longrightarrow>
    svc_step 1 r (r\<lparr>svc := s, wld := w\<rparr>)"
| close_device: "alive client r \<Longrightarrow> closeXrpDevice client (svc r, wld r) = Some (ret, s, w) \<Longrightarrow>
    svc_step 0 r (r\<lparr>svc := s, wld := w\<rparr>)"
| send_begin: "alive client r \<Longrightarrow> unsaturated r \<Longrightarrow> sendXrpCommand_begin client (svc r) = (True, s) \<Longrightarrow>
    svc_step 0 r (r\<lparr>svc := s, sends := Suc (sends r)\<rparr>)"
| send_end: "sends r = Suc m \<Longrightarrow> command_ok (wld r) ns input outp buffer k \<Longrightarrow>
    sendXrpCommand_body (mDevice (svc r)) ns input outp buffer k prio (wld r) = Some ((f, x), w) \<Longrightarrow>
    svc_step (3 * k + 1) r (r\<lparr>svc := (if f then sendXrpCommand_end (svc r) else svc r), wld := w, sends := m,
      leaked := (if f then leaked r else Suc (leaked r))\<rparr>)"
| load_begin: "alive client r \<Longrightarrow> unsaturated r \<Longrightarrow> load_lock r = None \<Longrightarrow> name_fits name \<Longrightarrow>
    loadXrpLibrary_begin client name (svc r) = (Some True, s) \<Longrightarrow>
    svc_step 0 r (r\<lparr>svc := s, load_lock := Some (Loading client name)\<rparr>)"
| load_more: "alive client r \<Longrightarrow> unsaturated r \<Longrightarrow> load_lock r = None \<Longrightarrow> name_fits name \<Longrightarrow>
    loadXrpLibrary_begin client name (svc r) = (Some False, s) \<Longrightarrow> loadXrpLibrary_end client name 0 s = Some s' \<Longrightarrow>
    svc_step 0 r (r\<lparr>svc := s'\<rparr>)"
| load_end: "load_lock r = Some (Loading client name) \<Longrightarrow> length mem = 44 \<Longrightarrow> servable (wld r) [input] \<Longrightarrow>
    dsp_load (mDevice (svc r)) mem name input (wld r) = Some (ret, w) \<Longrightarrow>
    loadXrpLibrary_end client name ret (svc r) = Some s \<Longrightarrow> svc_step 4 r (r\<lparr>svc := s, wld := w, load_lock := None\<rparr>)"
| unload_begin: "alive client r \<Longrightarrow> unsaturated r \<Longrightarrow> load_lock r = None \<Longrightarrow> name_fits name \<Longrightarrow>
    unloadXrpLibrary_begin client name (svc r) = (Inr True, s) \<Longrightarrow>
    svc_step 0 r (r\<lparr>svc := s, load_lock := Some (Unloading name)\<rparr>)"
| unload_fewer: "alive client r \<Longrightarrow> unsaturated r \<Longrightarrow> load_lock r = None \<Longrightarrow>
    unloadXrpLibrary_begin client name (svc r) = (Inr False, s) \<Longrightarrow>
    svc_step 0 r (r\<lparr>svc := unloadXrpLibrary_end s\<rparr>)"
| unload_end: "load_lock r = Some (Unloading name) \<Longrightarrow> length mem = 44 \<Longrightarrow>
    dsp_unload (mDevice (svc r)) mem name (wld r) = Some (ret, w) \<Longrightarrow>
    svc_step 1 r (r\<lparr>svc := unloadXrpLibrary_end (svc r), wld := w, load_lock := None\<rparr>)"
| hint_begin: "alive client r \<Longrightarrow> unsaturated r \<Longrightarrow> hint_lock r = None \<Longrightarrow> 0 \<le> level \<Longrightarrow> level < 6 \<Longrightarrow>
    powerHint_begin client (svc r) = (True, s) \<Longrightarrow>
    svc_step 0 r (r\<lparr>svc := s, hint_lock := Some (Hinting client level a)\<rparr>)"
| hint_end: "hint_lock r = Some (Hinting client level a) \<Longrightarrow> mDevice (svc r) = Some d \<Longrightarrow>
    set_powerhint_flag d level a (wld r) = Some (ret, w) \<Longrightarrow> powerHint_end client level a ret (svc r) = Some (ret', s) \<Longrightarrow>
    svc_step 0 r (r\<lparr>svc := s, wld := w, hint_lock := None\<rparr>)"
| died_lock: "alive client r \<Longrightarrow> load_lock r = None \<Longrightarrow> svc_step 0 r (r\<lparr>load_lock := Some (Cleaning client)\<rparr>)"
| died: "load_lock r = Some (Cleaning client) \<Longrightarrow> hint_lock r = None \<Longrightarrow> length mem = 44 \<Longrightarrow>
    binderDied mem client (svc r, wld r) = Some (x, s, w) \<Longrightarrow>
    svc_step (case entry (mClientInfo (svc r)) client of Some c \<Rightarrow> length (mloadinfo c) | None \<Rightarrow> 0) r
      (r\<lparr>svc := s, wld := w, load_lock := None,
         hint_lock := (case x of Inl _ \<Rightarrow> None | Inr (i, k) \<Rightarrow> Some (Waiting client i k))\<rparr>)"
| died_again: "hint_lock r = Some (Waiting client i k) \<Longrightarrow> load_lock r = None \<Longrightarrow>
    binderDied_again client i k (svc r, wld r) = Some (x, s, w) \<Longrightarrow>
    svc_step 0 r (r\<lparr>svc := s, wld := w, hint_lock := (case x of Inl _ \<Rightarrow> None | Inr (i', k') \<Rightarrow> Some (Waiting client i' k'))\<rparr>)"

text \<open>\<open>service_run w0 n r\<close>: \<open>r\<close> is reached, and \<open>n\<close> more references can be made.\<close>

inductive service_run :: "world \<Rightarrow> nat \<Rightarrow> run_state \<Rightarrow> bool" for w0 where
  start: "world_ok w0 c \<Longrightarrow> room w0 c n \<Longrightarrow> service_run w0 n (started w0)"
| step: "service_run w0 (n + k) r \<Longrightarrow> svc_step k r r' \<Longrightarrow> service_run w0 n r'"

section \<open>The invariant\<close>

fun waiters :: "hint_holder option \<Rightarrow> client set" where
  "waiters (Some (Waiting client _ _)) = {client}"
| "waiters _ = {}"

fun gap_of :: "hint_holder option \<Rightarrow> int" where
  "gap_of (Some (Waiting _ i _)) = i - 1"
| "gap_of _ = 0"

abbreviation waits :: "run_state \<Rightarrow> client set" where
  "waits r \<equiv> waiters (hint_lock r)"

abbreviation gap :: "run_state \<Rightarrow> int" where
  "gap r \<equiv> gap_of (hint_lock r)"

fun load_busy :: "load_holder option \<Rightarrow> nat" where
  "load_busy (Some (Loading _ _)) = 1"
| "load_busy (Some (Unloading _)) = 1"
| "load_busy _ = 0"

fun hint_busy :: "hint_holder option \<Rightarrow> nat" where
  "hint_busy (Some (Hinting _ _ _)) = 1"
| "hint_busy _ = 0"

definition in_progress :: "run_state \<Rightarrow> nat" where
  "in_progress r = sends r + load_busy (load_lock r) + hint_busy (hint_lock r)"

fun load_ok :: "client set \<Rightarrow> load_holder option \<Rightarrow> bool" where
  "load_ok D (Some (Loading client name)) \<longleftrightarrow> client \<notin> D \<and> name_fits name"
| "load_ok D (Some (Unloading name)) \<longleftrightarrow> name_fits name"
| "load_ok D (Some (Cleaning client)) \<longleftrightarrow> client \<notin> D"
| "load_ok D None \<longleftrightarrow> True"

fun hint_ok :: "vdsp_service \<Rightarrow> hint_holder option \<Rightarrow> bool" where
  "hint_ok s (Some (Hinting client level a)) \<longleftrightarrow> 0 \<le> level \<and> level < 6"
| "hint_ok s (Some (Waiting client i k)) \<longleftrightarrow> 0 < i \<and> open_num (mClientInfo s) client = i \<and> mopen_count s \<noteq> 0"
| "hint_ok s None \<longleftrightarrow> True"

lemma waits_cases:
  obtains (quiet) "waits r = {}" "gap r = 0"
  | (wait) x i k where "hint_lock r = Some (Waiting x i k)" "waits r = {x}" "gap r = i - 1"
  by (cases "hint_lock r" rule: waiters.cases) auto

lemma hint_ok_cong:
  "\<forall>x \<in> waiters h. open_num (mClientInfo s') x = open_num (mClientInfo s) x \<Longrightarrow> (waiters h \<noteq> {} \<longrightarrow> mopen_count s' \<noteq> 0) \<Longrightarrow>
   hint_ok s h \<Longrightarrow> hint_ok s' h"
  by (cases "(s, h)" rule: hint_ok.cases) auto

definition run_inv :: "nat \<Rightarrow> run_state \<Rightarrow> bool" where
  "run_inv n r \<longleftrightarrow> ready (svc r) (wld r) n \<and> svc_ok (waits r) (gap r) (svc r) \<and>
     load_ok (waits r) (load_lock r) \<and> hint_ok (svc r) (hint_lock r) \<and>
     uint (mworking (svc r)) = int (in_progress r + leaked r) \<and> (mworking (svc r) \<noteq> 0 \<longrightarrow> mopen_count (svc r) \<noteq> 0)"

lemma run_inv_start: "world_ok w c \<Longrightarrow> room w c n \<Longrightarrow> run_inv n (started w)"
  by (auto simp: run_inv_def started_def initial_service_def ready_def svc_ok_def in_progress_def table_ok_def)

text \<open>A step that leaves the locks alone.\<close>

lemma run_inv_update:
  assumes "run_inv m r" and "ready s w n" and "svc_ok (waits r) (gap r) s"
    and "\<forall>x \<in> waits r. open_num (mClientInfo s) x = open_num (mClientInfo (svc r)) x"
    and "waits r \<noteq> {} \<or> mworking s \<noteq> 0 \<longrightarrow> mopen_count s \<noteq> 0"
    and "uint (mworking s) = int (i + load_busy (load_lock r) + hint_busy (hint_lock r) + j)"
  shows "run_inv n (r\<lparr>svc := s, wld := w, sends := i, leaked := j\<rparr>)"
  using assms hint_ok_cong [of "hint_lock r" s "svc r"] by (simp add: run_inv_def in_progress_def)

lemma waits_alive: "alive client r \<Longrightarrow> client \<notin> waits r"
  by (cases rule: waits_cases [of r]) (auto simp: alive_def)

lemma waiting_open: "run_inv n r \<Longrightarrow> waits r \<noteq> {} \<Longrightarrow> mopen_count (svc r) \<noteq> 0"
  by (cases rule: waits_cases [of r]) (auto simp: run_inv_def in_progress_def)

lemma run_inv_table: "run_inv n r \<Longrightarrow> table_ok (waits r) (mClientInfo (svc r))"
  by (simp add: run_inv_def svc_ok_def)

text \<open>If the client has the device open, then the device is open, also while the service waits.\<close>

lemma open_num_open:
  assumes "run_inv n r" and "open_num (mClientInfo (svc r)) client \<noteq> 0"
  shows "mopen_count (svc r) \<noteq> 0"
proof (cases "waits r = {}")
  case True
  then have "gap r = 0" by (cases rule: waits_cases [of r]) auto
  then have "uint (mopen_count (svc r)) = opens (mClientInfo (svc r))" using assms(1) by (simp add: run_inv_def svc_ok_def)
  then show ?thesis
    using assms(2) open_num_le [OF run_inv_table [OF assms(1)], of client] open_num_nonneg [OF run_inv_table [OF assms(1)], of client]
    by auto
qed (rule waiting_open [OF assms(1)])

lemma device_open: "run_inv n r \<Longrightarrow> mopen_count (svc r) \<noteq> 0 \<Longrightarrow> \<exists>d. mDevice (svc r) = Some d"
  by (auto simp: run_inv_def svc_ok_def)

lemma busy_device: "run_inv n r \<Longrightarrow> 0 < in_progress r \<Longrightarrow> \<exists>d. mDevice (svc r) = Some d"
  using device_open [of n r] by (auto simp: run_inv_def in_progress_def)

lemma step_open:
  assumes inv: "run_inv (n + 1) r" and al: "alive client r" and small: "unsaturated r"
    and o: "openXrpDevice client type (svc r, wld r) = Some (ret, s, w)"
  shows "run_inv n (r\<lparr>svc := s, wld := w\<rparr>)"
proof -
  have "uint (mopen_count (svc r)) < 2 ^ 32 - 1" using small by (simp add: unsaturated_def)
  with inv o have s: "ready s w n" "svc_ok (waits r) (gap r) s" "mworking s = mworking (svc r)"
    "if ret = 0 then mClientInfo s = add_open client (mClientInfo (svc r)) \<and> mopen_count s = mopen_count (svc r) + 1
     else mClientInfo s = mClientInfo (svc r) \<and> mopen_count s = mopen_count (svc r)"
    using open_ok [of "waits r" "gap r" "svc r" "wld r" n client type] by (auto simp: run_inv_def split: if_splits)
  have "mopen_count s = 0 \<Longrightarrow> mopen_count (svc r) = 0"
    using s(4) uint_u32_suc [of "mopen_count (svc r)"] small by (auto simp: unsaturated_def split: if_splits)
  moreover have "\<forall>x \<in> waits r. open_num (mClientInfo s) x = open_num (mClientInfo (svc r)) x"
    using s(4) waits_alive [OF al] by (auto simp: open_num_add split: if_splits)
  ultimately have "run_inv n (r\<lparr>svc := s, wld := w, sends := sends r, leaked := leaked r\<rparr>)"
    using s(1-3) inv waiting_open [OF inv] by (intro run_inv_update [OF inv]) (auto simp: run_inv_def in_progress_def)
  then show ?thesis by simp
qed

lemma step_close:
  assumes inv: "run_inv n r" and al: "alive client r"
    and o: "closeXrpDevice client (svc r, wld r) = Some (ret, s, w)"
  shows "run_inv n (r\<lparr>svc := s, wld := w\<rparr>)"
proof -
  let ?cs = "mClientInfo (svc r)"
  have T: "table_ok (waits r) ?cs" using run_inv_table [OF inv] .
  have s: "ready s w n" "svc_ok (waits r) (gap r) s" "mworking s = mworking (svc r)"
    "if open_num ?cs client = 0 then s = svc r
     else if mopen_count (svc r) = 1 \<and> mworking (svc r) \<noteq> 0 then s = svc r
     else mClientInfo s = dec_open client ?cs \<and> mopen_count s = mopen_count (svc r) - 1"
    using close_ok [of "waits r" "gap r" "svc r" "wld r" n client] open_num_open [OF inv, of client] inv o
    by (auto simp: run_inv_def split: if_splits)
  show ?thesis
  proof (cases "s = svc r")
    case True
    have "run_inv n (r\<lparr>svc := s, wld := w, sends := sends r, leaked := leaked r\<rparr>)"
      using True s(1-3) inv waiting_open [OF inv] by (intro run_inv_update [OF inv]) (auto simp: run_inv_def in_progress_def)
    then show ?thesis by simp
  next
    case False
    then have c: "open_num ?cs client \<noteq> 0" "\<not> (mopen_count (svc r) = 1 \<and> mworking (svc r) \<noteq> 0)"
      "mClientInfo s = dec_open client ?cs" "mopen_count s = mopen_count (svc r) - 1"
      using s(4) by (auto split: if_splits)
    have e: "entry ?cs client \<noteq> None" using c(1) by (auto simp: open_num_def split: option.splits)
    have keep: "open_num (mClientInfo s) x = open_num ?cs x" if "x \<in> waits r" for x
      using that c(3) open_num_dec [OF T e] waits_alive [OF al] by auto
    have "mopen_count s \<noteq> 0" if ne: "waits r \<noteq> {}"
    proof -
      obtain x where x: "x \<in> waits r" "open_num ?cs x - 1 = gap r" "x \<noteq> client"
        using ne inv waits_alive [OF al] by (cases rule: waits_cases [of r]) (auto simp: run_inv_def in_progress_def)
      have "open_num (dec_open client ?cs) x \<le> opens (dec_open client ?cs)" using open_num_le [OF dec_open_ok [OF T]] .
      then have "gap r < opens (mClientInfo s)" using keep [OF x(1)] x(2) c(3) by simp
      then show ?thesis using s(2) by (auto simp: svc_ok_def)
    qed
    moreover have "mopen_count s \<noteq> 0" if "mworking s \<noteq> 0"
      using that s(3) c(2,4) inv by (auto simp: run_inv_def in_progress_def)
    ultimately have "run_inv n (r\<lparr>svc := s, wld := w, sends := sends r, leaked := leaked r\<rparr>)"
      using s(1-3) inv keep by (intro run_inv_update [OF inv]) (auto simp: run_inv_def in_progress_def)
    then show ?thesis by simp
  qed
qed

text \<open>Counting a command in, and out again.\<close>

lemma svc_ok_working [simp]: "svc_ok D k (s\<lparr>mworking := m\<rparr>) = svc_ok D k s"
  by (simp add: svc_ok_def)

lemma begin_working:
  assumes inv: "run_inv n r" and small: "unsaturated r" and opened: "mopen_count (svc r) \<noteq> 0"
  shows "uint (mworking (svc r) + 1) = uint (mworking (svc r)) + 1" "mworking (svc r) + 1 \<noteq> 0"
  using uint_u32_suc [of "mworking (svc r)"] small by (simp_all add: unsaturated_def)

lemma step_send_begin:
  assumes inv: "run_inv n r" and small: "unsaturated r" and o: "sendXrpCommand_begin client (svc r) = (True, s)"
  shows "run_inv n (r\<lparr>svc := s, sends := Suc (sends r)\<rparr>)"
proof -
  have s: "s = (svc r)\<lparr>mworking := mworking (svc r) + 1\<rparr>" "mopen_count (svc r) \<noteq> 0"
    using o by (auto simp: sendXrpCommand_begin_def split: if_splits)
  have "run_inv n (r\<lparr>svc := s, wld := wld r, sends := Suc (sends r), leaked := leaked r\<rparr>)"
    using inv s begin_working [OF inv small s(2)] ready_cong [of s "svc r"]
    by (intro run_inv_update [OF inv]) (auto simp: run_inv_def in_progress_def)
  then show ?thesis by simp
qed

lemma end_working:
  assumes "run_inv n r" and "0 < in_progress r + leaked r"
  shows "uint (mworking (svc r) - 1) = uint (mworking (svc r)) - 1" "mopen_count (svc r) \<noteq> 0"
proof -
  have "uint (mworking (svc r)) \<noteq> 0" using assms by (auto simp: run_inv_def in_progress_def)
  then have "mworking (svc r) \<noteq> 0" by auto
  then show "uint (mworking (svc r) - 1) = uint (mworking (svc r)) - 1" "mopen_count (svc r) \<noteq> 0"
    using uint_u32_dec [of "mworking (svc r)"] assms(1) by (simp_all add: run_inv_def)
qed

lemma step_send_end:
  assumes inv: "run_inv (n + (3 * k + 1)) r" and m: "sends r = Suc m" and a: "command_ok (wld r) ns input outp buffer k"
    and o: "sendXrpCommand_body (mDevice (svc r)) ns input outp buffer k prio (wld r) = Some ((f, x), w)"
  shows "run_inv n (r\<lparr>svc := (if f then sendXrpCommand_end (svc r) else svc r), wld := w, sends := m,
      leaked := (if f then leaked r else Suc (leaked r))\<rparr>)"
proof -
  have prog: "0 < in_progress r" using m by (simp add: in_progress_def)
  obtain d where d: "mDevice (svc r) = Some d" using busy_device [OF inv prog] by blast
  have "ready (svc r) w n"
    using body_ok_send [OF _ d a, of n prio] inv o by (auto simp: run_inv_def in_progress_def)
  then show ?thesis
    using inv prog m end_working [OF inv] ready_cong [of "sendXrpCommand_end (svc r)" "svc r"]
    by (intro run_inv_update [OF inv]) (auto simp: run_inv_def in_progress_def sendXrpCommand_end_def)
qed

text \<open>Taking and leaving \<open>mLoadLock\<close>.\<close>

lemma run_inv_load:
  assumes "run_inv m r" and "ready s w n" and "svc_ok (waits r) (gap r) s"
    and "\<forall>x. open_num (mClientInfo s) x = open_num (mClientInfo (svc r)) x"
    and "mopen_count s = mopen_count (svc r)" and "mopen_count s \<noteq> 0"
    and "uint (mworking s) = int (sends r + load_busy l + hint_busy (hint_lock r) + leaked r)"
    and "load_ok (waits r) l"
  shows "run_inv n (r\<lparr>svc := s, wld := w, load_lock := l\<rparr>)"
  using assms hint_ok_cong [of "hint_lock r" s "svc r"] by (simp add: run_inv_def in_progress_def)

lemma load_begin_ok:
  assumes "loadXrpLibrary_begin client name s = (Some b, s')"
  shows "s' = s\<lparr>mworking := mworking s + 1\<rparr>" "mopen_count s \<noteq> 0"
  using assms by (auto simp: loadXrpLibrary_begin_def Let_def split: if_splits)

lemma step_load_begin:
  assumes inv: "run_inv n r" and al: "alive client r" and small: "unsaturated r" and free: "load_lock r = None"
    and name: "name_fits name" and o: "loadXrpLibrary_begin client name (svc r) = (Some True, s)"
  shows "run_inv n (r\<lparr>svc := s, load_lock := Some (Loading client name)\<rparr>)"
proof -
  note s = load_begin_ok [OF o]
  have "run_inv n (r\<lparr>svc := s, wld := wld r, load_lock := Some (Loading client name)\<rparr>)"
    using inv s free name waits_alive [OF al] begin_working [OF inv small s(2)] ready_cong [of s "svc r"]
    by (intro run_inv_load [OF inv]) (auto simp: run_inv_def in_progress_def)
  then show ?thesis by simp
qed

lemma step_load_more:
  assumes inv: "run_inv n r" and al: "alive client r" and small: "unsaturated r"
    and name: "name_fits name" and o: "loadXrpLibrary_begin client name (svc r) = (Some b, s)"
    and e: "loadXrpLibrary_end client name 0 s = Some s'"
  shows "run_inv n (r\<lparr>svc := s'\<rparr>)"
proof -
  note s = load_begin_ok [OF o]
  have "svc_ok (waits r) (gap r) s" using inv s(1) by (simp add: run_inv_def)
  from load_end_ok [OF this name waits_alive [OF al], of 0] e
  have s': "svc_ok (waits r) (gap r) s'" "mworking s' = mworking s - 1" "mopen_count s' = mopen_count s"
    "mDevice s' = mDevice s" "\<forall>x. open_num (mClientInfo s') x = open_num (mClientInfo s) x" by auto
  have "mworking s' = mworking (svc r)" using s'(2) s(1) by simp
  then have "run_inv n (r\<lparr>svc := s', wld := wld r, sends := sends r, leaked := leaked r\<rparr>)"
    using inv s s' ready_cong [of s' "svc r"] by (intro run_inv_update [OF inv]) (auto simp: run_inv_def in_progress_def)
  then show ?thesis by simp
qed

lemma step_load_end:
  assumes inv: "run_inv (n + 4) r" and l: "load_lock r = Some (Loading client name)" and mem: "length mem = 44"
    and sv: "servable (wld r) [input]" and o: "dsp_load (mDevice (svc r)) mem name input (wld r) = Some (ret, w)"
    and e: "loadXrpLibrary_end client name ret (svc r) = Some s"
  shows "run_inv n (r\<lparr>svc := s, wld := w, load_lock := None\<rparr>)"
proof -
  have prog: "0 < in_progress r" using l by (simp add: in_progress_def)
  obtain d where d: "mDevice (svc r) = Some d" using busy_device [OF inv prog] by blast
  have lk: "name_fits name" "client \<notin> waits r" using inv l by (simp_all add: run_inv_def)
  have r: "ready (svc r) w n" using dsp_load_ready [OF _ d sv mem lk(1), of n] inv o by (auto simp: run_inv_def in_progress_def)
  have "svc_ok (waits r) (gap r) (svc r)" using inv by (simp add: run_inv_def)
  from load_end_ok [OF this lk, of ret] e
  have s: "svc_ok (waits r) (gap r) s" "mworking s = mworking (svc r) - 1" "mopen_count s = mopen_count (svc r)"
    "mDevice s = mDevice (svc r)" "\<forall>x. open_num (mClientInfo s) x = open_num (mClientInfo (svc r)) x" by auto
  show ?thesis using inv l s r prog end_working [OF inv] ready_cong [of s "svc r"]
    by (intro run_inv_load [OF inv]) (auto simp: run_inv_def in_progress_def)
qed

lemma step_unload_begin:
  assumes inv: "run_inv n r" and al: "alive client r" and small: "unsaturated r" and free: "load_lock r = None"
    and name: "name_fits name" and o: "unloadXrpLibrary_begin client name (svc r) = (Inr need, s)"
  shows "run_inv n (r\<lparr>svc := s, load_lock := Some (Unloading name)\<rparr>)"
proof -
  have "svc_ok (waits r) (gap r) (svc r)" using inv by (simp add: run_inv_def)
  from unload_begin_ok [OF this waits_alive [OF al], of name] o
  have s: "svc_ok (waits r) (gap r) s" "mworking s = mworking (svc r) + 1" "mopen_count s = mopen_count (svc r)"
    "mopen_count (svc r) \<noteq> 0" "mDevice s = mDevice (svc r)"
    "\<forall>x. open_num (mClientInfo s) x = open_num (mClientInfo (svc r)) x" by auto
  have "run_inv n (r\<lparr>svc := s, wld := wld r, load_lock := Some (Unloading name)\<rparr>)"
    using inv s free name begin_working [OF inv small s(4)] ready_cong [of s "svc r"]
    by (intro run_inv_load [OF inv]) (auto simp: run_inv_def in_progress_def)
  then show ?thesis by simp
qed

lemma step_unload_fewer:
  assumes inv: "run_inv n r" and al: "alive client r"
    and o: "unloadXrpLibrary_begin client name (svc r) = (Inr need, s)"
  shows "run_inv n (r\<lparr>svc := unloadXrpLibrary_end s\<rparr>)"
proof -
  let ?s = "unloadXrpLibrary_end s"
  have "svc_ok (waits r) (gap r) (svc r)" using inv by (simp add: run_inv_def)
  from unload_begin_ok [OF this waits_alive [OF al], of name] o
  have s: "svc_ok (waits r) (gap r) ?s" "mworking ?s = mworking (svc r)" "mopen_count ?s = mopen_count (svc r)"
    "mopen_count (svc r) \<noteq> 0" "mDevice ?s = mDevice (svc r)"
    "\<forall>x. open_num (mClientInfo ?s) x = open_num (mClientInfo (svc r)) x" by (auto simp: unloadXrpLibrary_end_def)
  have "run_inv n (r\<lparr>svc := ?s, wld := wld r, sends := sends r, leaked := leaked r\<rparr>)"
    using inv s ready_cong [of ?s "svc r"] by (intro run_inv_update [OF inv]) (auto simp: run_inv_def in_progress_def)
  then show ?thesis by simp
qed

lemma step_unload_end:
  assumes inv: "run_inv (n + 1) r" and l: "load_lock r = Some (Unloading name)" and mem: "length mem = 44"
    and o: "dsp_unload (mDevice (svc r)) mem name (wld r) = Some (ret, w)"
  shows "run_inv n (r\<lparr>svc := unloadXrpLibrary_end (svc r), wld := w, load_lock := None\<rparr>)"
proof -
  let ?s = "unloadXrpLibrary_end (svc r)"
  have prog: "0 < in_progress r" using l by (simp add: in_progress_def)
  obtain d where d: "mDevice (svc r) = Some d" using busy_device [OF inv prog] by blast
  have "name_fits name" using inv l by (simp add: run_inv_def)
  then have "ready (svc r) w n" using dsp_unload_ready [OF _ d mem, of "wld r" n name] inv o by (auto simp: run_inv_def)
  then show ?thesis using inv l prog end_working [OF inv] ready_cong [of ?s "svc r"]
    by (intro run_inv_load [OF inv]) (auto simp: run_inv_def in_progress_def unloadXrpLibrary_end_def)
qed

text \<open>Taking and leaving \<open>mPowerHintLock\<close>.\<close>

lemma run_inv_hint:
  assumes "run_inv m r" and "ready s w n" and "svc_ok {} 0 s" and "waits r = {}" and "waiters h = {}"
    and "mopen_count s \<noteq> 0" and "uint (mworking s) = int (sends r + load_busy (load_lock r) + hint_busy h + leaked r)"
    and "hint_ok s h"
  shows "run_inv n (r\<lparr>svc := s, wld := w, hint_lock := h\<rparr>)"
proof -
  have "gap_of h = 0" using assms(5) by (cases h rule: gap_of.cases) auto
  then show ?thesis using assms by (simp add: run_inv_def in_progress_def)
qed

lemma step_hint_begin:
  assumes inv: "run_inv n r" and small: "unsaturated r" and free: "hint_lock r = None"
    and level: "0 \<le> level" "level < 6" and o: "powerHint_begin client (svc r) = (True, s)"
  shows "run_inv n (r\<lparr>svc := s, hint_lock := Some (Hinting client level a)\<rparr>)"
proof -
  have s: "s = (svc r)\<lparr>mworking := mworking (svc r) + 1\<rparr>" "mopen_count (svc r) \<noteq> 0"
    using o by (auto simp: powerHint_begin_def split: if_splits)
  have "run_inv n (r\<lparr>svc := s, wld := wld r, hint_lock := Some (Hinting client level a)\<rparr>)"
    using inv s free level begin_working [OF inv small s(2)] ready_cong [of s "svc r"]
    by (intro run_inv_hint [OF inv]) (auto simp: run_inv_def in_progress_def)
  then show ?thesis by simp
qed

lemma step_hint_end:
  assumes inv: "run_inv n r" and l: "hint_lock r = Some (Hinting client level a)" and d: "mDevice (svc r) = Some d"
    and o: "set_powerhint_flag d level a (wld r) = Some (ret, w)" and e: "powerHint_end client level a ret (svc r) = Some (ret', s)"
  shows "run_inv n (r\<lparr>svc := s, wld := w, hint_lock := None\<rparr>)"
proof -
  have prog: "0 < in_progress r" using l by (simp add: in_progress_def)
  have lv: "0 \<le> level" "level < 6" and ok: "svc_ok {} 0 (svc r)" using inv l by (simp_all add: run_inv_def)
  have "ready (svc r) w n" using hint_ready [OF _ d, of "wld r" n level a] inv o by (auto simp: run_inv_def)
  moreover have "svc_ok {} 0 s" "mworking s = mworking (svc r) - 1" "mopen_count s = mopen_count (svc r)" "mDevice s = mDevice (svc r)"
    using hint_end_ok [OF ok lv, of client a ret] e by auto
  ultimately show ?thesis using inv l prog end_working [OF inv] ready_cong [of s "svc r"]
    by (intro run_inv_hint [OF inv]) (auto simp: run_inv_def in_progress_def)
qed

text \<open>The clean-up.\<close>

lemma run_inv_lock: "run_inv n r \<Longrightarrow> alive client r \<Longrightarrow> load_lock r = None \<Longrightarrow> run_inv n (r\<lparr>load_lock := Some (Cleaning client)\<rparr>)"
  using waits_alive [of client r] by (simp add: run_inv_def in_progress_def)

lemma without_inv:
  assumes inv: "run_inv n0 r" and s: "svc_ok {} 0 s" "ready s w n" and m: "mworking s = mworking (svc r)"
    "mworking s \<noteq> 0 \<longrightarrow> mopen_count s \<noteq> 0" and l: "load_busy (load_lock r) = 0" "hint_busy (hint_lock r) = 0"
  shows "run_inv n (r\<lparr>svc := s, wld := w, load_lock := None, hint_lock := None\<rparr>)"
  using assms by (simp add: run_inv_def in_progress_def)

lemma step_died:
  assumes inv: "run_inv (n + (case entry (mClientInfo (svc r)) client of Some c \<Rightarrow> length (mloadinfo c) | None \<Rightarrow> 0)) r"
    and l: "load_lock r = Some (Cleaning client)" "hint_lock r = None" and mem: "length mem = 44"
    and o: "binderDied mem client (svc r, wld r) = Some (x, s, w)"
  shows "run_inv n (r\<lparr>svc := s, wld := w, load_lock := None,
    hint_lock := (case x of Inl _ \<Rightarrow> None | Inr (i, k) \<Rightarrow> Some (Waiting client i k))\<rparr>)"
proof (cases "entry (mClientInfo (svc r)) client")
  case None
  then show ?thesis using o inv l binder_died_gone [OF None] by (auto simp: run_inv_def in_progress_def)
next
  case (Some c)
  have ok: "svc_ok {} 0 (svc r)" and rd: "ready (svc r) (wld r) (n + length (mloadinfo c))"
    using inv l Some by (simp_all add: run_inv_def)
  have T: "table_ok {} (mClientInfo (svc r))" using ok by (simp add: svc_ok_def)
  have pos: "0 < mopencount c" using table_okD [OF T Some] by (simp add: client_ok_def)
  note res = binder_died_ok [OF ok Some rd mem]
  show ?thesis
  proof (cases "uint (mopen_count (svc r)) = mopencount c \<and> mworking (svc r) \<noteq> 0")
    case True
    then obtain hs w2 k where b: "x = Inr (mopencount c, k)" "s = (cleared client hs (svc r))\<lparr>mopen_count := 1\<rparr>" "w = w2"
      "svc_ok {client} (mopencount c - 1) s" "ready s w n" using res o by auto
    have "open_num (mClientInfo s) client = mopencount c"
      using Some b(2) by (simp add: open_num_def entry_cleared)
    then show ?thesis using inv l b pos by (simp add: run_inv_def in_progress_def)
  next
    case False
    then obtain m where b: "x = Inl ()" "s = without client m (svc r)" "uint m = uint (mopen_count (svc r)) - mopencount c"
      "svc_ok {} 0 s" "ready s w n" using res o by auto
    have "mworking s \<noteq> 0 \<longrightarrow> mopen_count s \<noteq> 0" using False b(2,3) by auto
    then show ?thesis using without_inv [OF inv b(4,5)] b(1,2) l by simp
  qed
qed

lemma again_result:
  assumes inv: "run_inv n r" and l: "hint_lock r = Some (Waiting client i k)"
  defines "s \<equiv> without client (mopen_count (svc r) - 1) (svc r)"
  shows "if mworking (svc r) \<noteq> 0 then binderDied_again client i k (svc r, wld r) = Some (Inr (i, k), svc r, wld r)
    else \<exists>w. binderDied_again client i k (svc r, wld r) = Some (Inl (), s, w) \<and> svc_ok {} 0 s \<and> ready s w n"
proof -
  have ok: "svc_ok {client} (i - 1) (svc r)" and rd: "ready (svc r) (wld r) n" and h: "0 < i"
    "open_num (mClientInfo (svc r)) client = i" "mopen_count (svc r) \<noteq> 0"
    using inv l by (simp_all add: run_inv_def)
  obtain c where c: "entry (mClientInfo (svc r)) client = Some c" "mopencount c = i"
    using h(1,2) by (auto simp: open_num_def split: option.splits)
  have dev: "mDevice (svc r) \<noteq> None" using ok h(3) by (simp add: svc_ok_def)
  have ok': "svc_ok {client} (mopencount c - 1) (svc r)" using ok c(2) by simp
  have "table_ok {client} (mClientInfo (svc r))" using ok by (simp add: svc_ok_def)
  then have gone: "entry (mClientInfo s) client = None" unfolding s_def by (simp add: erase_absent table_ok_def)
  from nolock_again_ok [OF ok' rd c(1) _ dev, of "{}", unfolded c(2)] show ?thesis
    using died_closes_gone [OF gone] by (auto simp: binderDied_again_def s_def)
qed

lemma step_again:
  assumes inv: "run_inv n r" and l: "hint_lock r = Some (Waiting client i k)" "load_lock r = None"
    and o: "binderDied_again client i k (svc r, wld r) = Some (x, s, w)"
  shows "run_inv n (r\<lparr>svc := s, wld := w,
    hint_lock := (case x of Inl _ \<Rightarrow> None | Inr (i', k') \<Rightarrow> Some (Waiting client i' k'))\<rparr>)"
proof (cases "mworking (svc r) = 0")
  case False
  then have "x = Inr (i, k)" "s = svc r" "w = wld r" using again_result [OF inv l(1)] o by auto
  moreover have "r\<lparr>hint_lock := Some (Waiting client i k)\<rparr> = r" using l(1) by (cases r) simp
  ultimately show ?thesis using inv by simp
next
  case True
  then have x: "x = Inl ()" "s = without client (mopen_count (svc r) - 1) (svc r)" "svc_ok {} 0 s" "ready s w n"
    using again_result [OF inv l(1)] o by auto
  have "run_inv n (r\<lparr>svc := s, wld := w, load_lock := None, hint_lock := None\<rparr>)"
    using inv True l x by (simp add: run_inv_def in_progress_def)
  moreover have "r\<lparr>svc := s, wld := w, load_lock := None, hint_lock := None\<rparr> = r\<lparr>svc := s, wld := w, hint_lock := None\<rparr>"
    using l(2) by (cases r) simp
  ultimately show ?thesis using x(1) by simp
qed

lemma step_inv: "svc_step k r r' \<Longrightarrow> run_inv (n + k) r \<Longrightarrow> run_inv n r'"
proof (induction rule: svc_step.induct)
  case (open_device client r type ret s w)
  then show ?case using step_open by blast
next
  case (close_device client r ret s w)
  then show ?case using step_close by simp
next
  case (send_begin client r s)
  then show ?case using step_send_begin by simp
next
  case (send_end r m ns input outp buffer k prio f x w)
  then show ?case using step_send_end by blast
next
  case (load_begin client r name s)
  then show ?case using step_load_begin by simp
next
  case (load_more client r name s s')
  then show ?case using step_load_more by simp
next
  case (load_end r client name mem "input" ret w s)
  then show ?case using step_load_end by blast
next
  case (unload_begin client r name s)
  then show ?case using step_unload_begin by simp
next
  case (unload_fewer client r name s)
  then show ?case using step_unload_fewer by simp
next
  case (unload_end r name mem ret w)
  then show ?case using step_unload_end by blast
next
  case (hint_begin client r level s a)
  then show ?case using step_hint_begin by simp
next
  case (hint_end r client level a d ret w ret' s)
  then show ?case using step_hint_end by simp
next
  case (died_lock client r)
  then show ?case using run_inv_lock by simp
next
  case (died r client mem x s w)
  then show ?case using step_died by blast
next
  case (died_again r client i k x s w)
  then show ?case using step_again by simp
qed

lemma service_run_inv: "service_run w0 n r \<Longrightarrow> run_inv n r"
  by (induction rule: service_run.induct) (use run_inv_start step_inv in blast)+

end
