(* ===== verification/Service_Correct.thy ===== *)
theory Service_Correct
  imports Service_Run
begin

text \<open>
  The properties of the service: the invariant of its runs, that no operation is undefined, what loading,
  unloading and a client's death do, and the two ways in which the service gets stuck.
\<close>

section \<open>A run\<close>

text \<open>Client 7 opens the device.\<close>

definition demo_service :: vdsp_service where
  "demo_service = \<lparr>mopen_count = 1, mworking = 0, mDevice = Some 16, mType = SPRD_VDSP_WORK_NORMAL, mIonDevFd = 3,
     mClientInfo = [new_client 7]\<rparr>"

definition demo_world :: "environment \<Rightarrow> world" where
  "demo_world e = (world_dev e)\<lparr>ticks := 4, log := [Link_death 7, Open 0 O_RDONLY, Open_ion O_RDWR]\<rparr>"

definition demo_run :: "environment \<Rightarrow> run_state" where
  "demo_run e = (started (world_init e))\<lparr>svc := demo_service, wld := demo_world e\<rparr>"

definition grants :: "environment \<Rightarrow> bool" where
  "grants e \<longleftrightarrow> open_fd e = (\<lambda>_. 3) \<and> malloc_ok e = (\<lambda>_. True) \<and> link_status e = (\<lambda>_. 0)"

definition env_no_map :: environment where
  "env_no_map = env_good\<lparr>mmap_addr := (\<lambda>_. None)\<rparr>"

lemma grants_demo [simp]: "grants env_good" "grants env_no_map"
  by (simp_all add: grants_def env_good_def env_no_map_def)

lemma demo_open:
  assumes "grants e"
  shows "openXrpDevice 7 SPRD_VDSP_WORK_NORMAL (initial_service, world_init e) = Some (0, demo_service, demo_world e)"
  using assms
  by (simp add: grants_def openXrpDevice_def AddClientOpenNumber_def find_client_def initial_service_def demo_service_def
      new_client_def sprd_vdsp_open_device_def xrp_open_device_newmode_def ask_def alloc_refcounted_def put_def
      record_call_def world_init_def world_dev_def demo_world_def zero_device_def)

lemma started_simps [simp]:
  "svc (started w) = initial_service" "wld (started w) = w" "sends (started w) = 0" "leaked (started w) = 0"
  "load_lock (started w) = None" "hint_lock (started w) = None"
  by (simp_all add: started_def)

lemma demo_run_reached:
  assumes "grants e" and "n < 1000"
  shows "service_run (world_init e) n (demo_run e)"
proof -
  have "room (world_init e) {#} (n + 1)" using assms(2) by (simp add: room_def world_init_def)
  then have "service_run (world_init e) (n + 1) (started (world_init e))" using service_run.start [OF world_init_ok] by blast
  moreover have "svc_step 1 (started (world_init e)) ((started (world_init e))\<lparr>svc := demo_service, wld := demo_world e\<rparr>)"
    by (rule svc_step.open_device [of 7 _ SPRD_VDSP_WORK_NORMAL 0])
      (use demo_open [OF assms(1)] in \<open>simp_all add: alive_def unsaturated_def\<close>, simp_all add: initial_service_def)
  ultimately show ?thesis unfolding demo_run_def by (rule service_run.step)
qed

lemma demo_run_simps [simp]:
  "svc (demo_run e) = demo_service" "wld (demo_run e) = demo_world e" "sends (demo_run e) = 0" "leaked (demo_run e) = 0"
  "load_lock (demo_run e) = None" "hint_lock (demo_run e) = None"
  by (simp_all add: demo_run_def)

section \<open>Properties\<close>










lemma unload_begin_cases:
  assumes "svc_ok D k s" and "client \<notin> D"
  obtains (refused) "unloadXrpLibrary_begin client name s = (Inl (- 1), s)"
      "GetClientLoadNumByName name client s = 0 \<or> mopen_count s = 0 \<or> open_num (mClientInfo s) client = 0"
  | (counted) s' where "unloadXrpLibrary_begin client name s = (Inr (lib_total (mClientInfo s) name = 1), s')"
      "mDevice s' = mDevice s" "\<forall>y. open_num (mClientInfo s') y = open_num (mClientInfo s) y" "mworking s' = mworking s + 1"
      "\<forall>l. lib_total (mClientInfo s') l = lib_total (mClientInfo s) l - (if l = name then 1 else 0)"
      "0 < GetClientLoadNumByName name client s"
proof -
  obtain s' v where u: "unloadXrpLibrary_begin client name s = (v, s')" "mDevice s' = mDevice s"
    "\<forall>y. open_num (mClientInfo s') y = open_num (mClientInfo s) y"
    "case v of
       Inl x \<Rightarrow> x = - 1 \<and> s' = s \<and> GetClientLoadNumByName name client s = 0 \<or>
               x = - 1 \<and> s' = s \<and> (mopen_count s = 0 \<or> open_num (mClientInfo s) client = 0)
     | Inr need \<Rightarrow> 0 < GetClientLoadNumByName name client s \<and> mworking s' = mworking s + 1 \<and> mopen_count s \<noteq> 0 \<and>
         (\<forall>n. lib_total (mClientInfo s') n = lib_total (mClientInfo s) n - (if n = name then 1 else 0)) \<and>
         (need \<longleftrightarrow> lib_total (mClientInfo s) name = 1)"
    using unload_begin_ok [OF assms, of name] by blast
  show thesis
  proof (cases v)
    case (Inl x)
    then show thesis using u(1,4) refused by auto
  next
    case (Inr need)
    then show thesis using u counted [of s'] by auto
  qed
qed

lemma load_counts:
  assumes inv: "run_inv (n + 4) r" and al: "alive client r" and opened: "GetClientOpenNum client (svc r) \<noteq> 0"
    and name: "name_fits name" and a: "length mem = 44" "servable (wld r) [input]"
  shows "\<exists>x s w. loadXrpLibrary mem client name input (svc r, wld r) = Some (x, s, w) \<and>
      (if GetLoadNumTotalByName name (svc r) = 0 then dsp_load (mDevice (svc r)) mem name input (wld r) = Some (x, w)
       else x = 0 \<and> w = wld r) \<and>
      (\<forall>l. GetLoadNumTotalByName l s = GetLoadNumTotalByName l (svc r) + (if x = 0 \<and> l = name then 1 else 0)) \<and>
      (\<forall>y. GetClientOpenNum y s = GetClientOpenNum y (svc r)) \<and> mworking s = mworking (svc r)"
proof -
  have m: "mopen_count (svc r) \<noteq> 0" using open_num_open [OF inv] opened by (simp add: GetClientOpenNum_eq)
  obtain d where d: "mDevice (svc r) = Some d" using device_open [OF inv m] by blast
  let ?s = "(svc r)\<lparr>mworking := mworking (svc r) + 1\<rparr>"
  have rd: "ready (svc r) (wld r) (n + 4)" and ok: "svc_ok (waits r) (gap r) ?s" using inv by (simp_all add: run_inv_def)
  have begin1: "loadXrpLibrary_begin client name (svc r) = (Some (GetLoadNumTotalByName name (svc r) = 0), ?s)"
    using m opened by (simp add: loadXrpLibrary_begin_def)
  obtain x0 w0 where ld: "dsp_load (mDevice (svc r)) mem name input (wld r) = Some (x0, w0)"
    using dsp_load_ready [OF rd d a(2,1) name] by blast
  define x where "x = (if GetLoadNumTotalByName name (svc r) = 0 then x0 else 0)"
  obtain s where s: "loadXrpLibrary_end client name x ?s = Some s" "mworking s = mworking (svc r)"
    "\<forall>y. open_num (mClientInfo s) y = open_num (mClientInfo (svc r)) y"
    "\<forall>l. lib_total (mClientInfo s) l = lib_total (mClientInfo (svc r)) l + (if x = 0 \<and> l = name then 1 else 0)"
    using load_end_ok [OF ok name waits_alive [OF al], of x] opened by (auto simp: GetClientOpenNum_eq)
  show ?thesis
    using s ld begin1
    by (intro exI [of _ x] exI [of _ s] exI [of _ "if GetLoadNumTotalByName name (svc r) = 0 then w0 else wld r"])
      (cases "GetLoadNumTotalByName name (svc r) = 0";
       simp add: loadXrpLibrary_def x_def GetLoadNumTotalByName_eq GetClientOpenNum_eq)
qed

lemma unload_counts:
  assumes inv: "run_inv (n + 4) r" and al: "alive client r" and opened: "GetClientOpenNum client (svc r) \<noteq> 0"
    and name: "name_fits name" and a: "length mem = 44"
  shows "if GetClientLoadNumByName name client (svc r) = 0
     then unloadXrpLibrary mem client name (svc r, wld r) = Some (- 1, svc r, wld r)
     else \<exists>x s w. unloadXrpLibrary mem client name (svc r, wld r) = Some (x, s, w) \<and>
      (if GetLoadNumTotalByName name (svc r) = 1 then dsp_unload (mDevice (svc r)) mem name (wld r) = Some (x, w)
       else x = 0 \<and> w = wld r) \<and>
      (\<forall>l. GetLoadNumTotalByName l s = GetLoadNumTotalByName l (svc r) - (if l = name then 1 else 0)) \<and>
      (\<forall>y. GetClientOpenNum y s = GetClientOpenNum y (svc r)) \<and> mworking s = mworking (svc r)"
proof -
  have m: "mopen_count (svc r) \<noteq> 0" using open_num_open [OF inv] opened by (simp add: GetClientOpenNum_eq)
  obtain d where d: "mDevice (svc r) = Some d" using device_open [OF inv m] by blast
  have rd: "ready (svc r) (wld r) (n + 3 + 1)" and ok: "svc_ok (waits r) (gap r) (svc r)"
    using inv by (simp_all add: run_inv_def numeral_eq_Suc)
  from ok waits_alive [OF al] show ?thesis
  proof (cases rule: unload_begin_cases [where name = name])
    case refused
    then show ?thesis using m opened by (simp add: GetClientOpenNum_eq unloadXrpLibrary_def)
  next
    case (counted s1)
    obtain x w where "dsp_unload (mDevice (svc r)) mem name (wld r) = Some (x, w)"
      using dsp_unload_ready [OF rd d a name] by blast
    then show ?thesis using counted
      by (simp add: unloadXrpLibrary_def unloadXrpLibrary_end_def GetLoadNumTotalByName_eq GetClientOpenNum_eq)
  qed
qed

text \<open>
  C28. Loading and unloading for a client that has the device open. The DSP is told to load a library exactly
  when no client has it loaded, and to unload it exactly when the last use goes; otherwise only the counts
  change. A load counts if it succeeds and changes nothing if it fails; an unload of a library the client has
  not loaded is refused without effect.
\<close>

theorem load_unload_correct:
  assumes "service_run w0 (n + 4) r" and "alive client r"
    and "GetClientOpenNum client (svc r) \<noteq> 0" and "name_fits name" and "length mem = 44" and "servable (wld r) [input]"
  shows "(\<exists>x s w. loadXrpLibrary mem client name input (svc r, wld r) = Some (x, s, w) \<and>
      (if GetLoadNumTotalByName name (svc r) = 0 then dsp_load (mDevice (svc r)) mem name input (wld r) = Some (x, w)
       else x = 0 \<and> w = wld r) \<and>
      (\<forall>l. GetLoadNumTotalByName l s = GetLoadNumTotalByName l (svc r) + (if x = 0 \<and> l = name then 1 else 0)) \<and>
      (\<forall>y. GetClientOpenNum y s = GetClientOpenNum y (svc r)) \<and> mworking s = mworking (svc r)) \<and>
    (if GetClientLoadNumByName name client (svc r) = 0
     then unloadXrpLibrary mem client name (svc r, wld r) = Some (- 1, svc r, wld r)
     else \<exists>x s w. unloadXrpLibrary mem client name (svc r, wld r) = Some (x, s, w) \<and>
      (if GetLoadNumTotalByName name (svc r) = 1 then dsp_unload (mDevice (svc r)) mem name (wld r) = Some (x, w)
       else x = 0 \<and> w = wld r) \<and>
      (\<forall>l. GetLoadNumTotalByName l s = GetLoadNumTotalByName l (svc r) - (if l = name then 1 else 0)) \<and>
      (\<forall>y. GetClientOpenNum y s = GetClientOpenNum y (svc r)) \<and> mworking s = mworking (svc r))"
  using load_counts [OF service_run_inv [OF assms(1)] assms(2-6)] unload_counts [OF service_run_inv [OF assms(1)] assms(2-5)]
  by blast

theorem load_unload_correct_witness:
  "\<exists>x s w. loadXrpLibrary (replicate 44 0) 7 [0x64, 0x73, 0x70]
       \<lparr>io_fd = 5, vir_addr = 0, phy_addr = 0, io_size = 64, io_flag = SPRD_VDSP_XRP_READ\<rparr>
       (demo_service, demo_world env_good) = Some (x, s, w) \<and>
     GetLoadNumTotalByName [0x64, 0x73, 0x70] s = (if x = 0 then 1 else 0) \<and>
     unloadXrpLibrary (replicate 44 0) 7 [0x64, 0x73, 0x70] (demo_service, demo_world env_good) =
       Some (- 1, demo_service, demo_world env_good)"
proof -
  have run: "service_run (world_init env_good) (96 + 4) (demo_run env_good)" by (rule demo_run_reached) simp_all
  have pre: "alive 7 (demo_run env_good)"
    "GetClientOpenNum 7 (svc (demo_run env_good)) \<noteq> 0" "name_fits [0x64, 0x73, 0x70]" "length (replicate 44 (0 :: u8)) = 44"
    "servable (wld (demo_run env_good)) [\<lparr>io_fd = 5, vir_addr = 0, phy_addr = 0, io_size = 64, io_flag = SPRD_VDSP_XRP_READ\<rparr>]"
    by (simp_all add: alive_def demo_service_def GetClientOpenNum_def find_client_def new_client_def name_fits_def servable_def)
  have none: "GetLoadNumTotalByName [0x64, 0x73, 0x70] demo_service = 0" "GetClientLoadNumByName [0x64, 0x73, 0x70] 7 demo_service = 0"
    by (simp_all add: GetLoadNumTotalByName_def GetClientLoadNumByName_def find_client_def demo_service_def new_client_def)
  from load_unload_correct [OF run pre] none show ?thesis unfolding demo_run_simps by (elim conjE exE) (auto split: if_splits)
qed

lemma own_names_counted:
  assumes "entry (mClientInfo s) y = Some c"
  shows "own_names (mClientInfo s) c 0 = [l \<leftarrow> map libname (mloadinfo c). GetLoadNumTotalByName l s = GetClientLoadNumByName l y s]"
  using assms by (simp add: own_names_def GetLoadNumTotalByName_eq GetClientLoadNumByName_def find_client_entry)

lemma find_without:
  "table_ok D (mClientInfo s) \<Longrightarrow> find_client y (without client m s) = (if y = client then None else find_client y s)"
  by (simp add: find_client_entry entry_erase table_ok_def)

text \<open>
  C10. When a client has died and no other clean-up waits: the libraries that only this client has loaded are
  unloaded from the DSP, in order and no others; every hint it has acquired is released, level by level; and
  then, if it was the last client and commands are in progress, the service waits with its entry still there
  and an open count of 1; otherwise its entry is gone, the open count drops by what it had open, every other
  client keeps its count and its libraries, and the device is closed exactly if nobody else has it open.
\<close>

theorem binder_died_correct:
  assumes "service_run w0 (n + length (mloadinfo c)) r" and "hint_lock r = None" and "length mem = 44"
    and "c \<in> set (mClientInfo (svc r))"
  shows "\<exists>w1 w2 d dev x s w.
    dsp_unloads (mDevice (svc r)) mem
      [l \<leftarrow> map libname (mloadinfo c). GetLoadNumTotalByName l (svc r) = GetClientLoadNumByName l (mclientbinder c) (svc r)]
      (wld r) = Some w1 \<and>
    mDevice (svc r) = Some d \<and> get_device d w1 = Some dev \<and>
    log w2 = log w1 @ concat (map (\<lambda>i. replicate (unat (mpowerhint_levelnum c ! i)) (Ioctl_powerhint (dev_fd dev) (int i) 1)) [0..<6]) \<and>
    binderDied mem (mclientbinder c) (svc r, wld r) = Some (x, s, w) \<and> quiet w2 w \<and>
    (if uint (mopen_count (svc r)) = mopencount c \<and> mworking (svc r) \<noteq> 0
     then (\<exists>k. x = Inr (mopencount c, k)) \<and> GetClientOpenNum (mclientbinder c) s = mopencount c \<and> mopen_count s = 1 \<and>
       mDevice s = mDevice (svc r)
     else x = Inl () \<and> GetClientOpenNum (mclientbinder c) s = 0 \<and>
       uint (mopen_count s) = uint (mopen_count (svc r)) - mopencount c \<and>
       mDevice s = (if mopen_count s = 0 then None else mDevice (svc r)) \<and>
       (\<forall>y. y \<noteq> mclientbinder c \<longrightarrow> find_client y s = find_client y (svc r)))"
proof -
  let ?y = "mclientbinder c"
  have inv: "run_inv (n + length (mloadinfo c)) r" using service_run_inv [OF assms(1)] .
  have ok: "svc_ok {} 0 (svc r)" and rd: "ready (svc r) (wld r) (n + length (mloadinfo c))"
    using inv assms(2) by (simp_all add: run_inv_def)
  have T: "table_ok {} (mClientInfo (svc r))" using ok by (simp add: svc_ok_def)
  have c: "entry (mClientInfo (svc r)) ?y = Some c" using entry_in assms(4) T by (simp add: table_ok_def)
  note names = own_names_counted [OF c]
  from binder_died_ok [OF ok c rd assms(3)] obtain hs w1 w2 d dev where
    b: "dsp_unloads (mDevice (svc r)) mem (own_names (mClientInfo (svc r)) c 0) (wld r) = Some w1"
      "mDevice (svc r) = Some d" "get_device d w1 = Some dev"
      "log w2 = log w1 @ hint_calls (dev_fd dev) (mpowerhint_levelnum c) [0..<6]"
      "if uint (mopen_count (svc r)) = mopencount c \<and> mworking (svc r) \<noteq> 0
       then \<exists>k. binderDied mem ?y (svc r, wld r) = Some (Inr (mopencount c, k), (cleared ?y hs (svc r))\<lparr>mopen_count := 1\<rparr>, w2) \<and>
         svc_ok {?y} (mopencount c - 1) ((cleared ?y hs (svc r))\<lparr>mopen_count := 1\<rparr>) \<and>
         ready ((cleared ?y hs (svc r))\<lparr>mopen_count := 1\<rparr>) w2 n
       else \<exists>m w'. binderDied mem ?y (svc r, wld r) = Some (Inl (), without ?y m (svc r), w') \<and>
         uint m = uint (mopen_count (svc r)) - mopencount c \<and> svc_ok {} 0 (without ?y m (svc r)) \<and>
         ready (without ?y m (svc r)) w' n \<and> quiet w2 w'"
    by blast
  show ?thesis
  proof (cases "uint (mopen_count (svc r)) = mopencount c \<and> mworking (svc r) \<noteq> 0")
    case True
    then obtain k where "binderDied mem ?y (svc r, wld r) = Some (Inr (mopencount c, k), (cleared ?y hs (svc r))\<lparr>mopen_count := 1\<rparr>, w2)"
      using b(5) by auto
    then show ?thesis using True b(1-4) names c
      by (intro exI [of _ w1] exI [of _ w2] exI [of _ d] exI [of _ dev] exI)
        (auto simp: hint_calls_def quiet_same GetClientOpenNum_def find_client_entry entry_cleared)
  next
    case False
    then obtain m w' where m: "binderDied mem ?y (svc r, wld r) = Some (Inl (), without ?y m (svc r), w')"
      "uint m = uint (mopen_count (svc r)) - mopencount c" "quiet w2 w'" using b(5) by auto
    then show ?thesis using False b(1-4) names find_without [OF T]
      by (intro exI [of _ w1] exI [of _ w2] exI [of _ d] exI [of _ dev] exI [of _ "Inl ()"]
          exI [of _ "without ?y m (svc r)"] exI [of _ w'])
        (auto simp: hint_calls_def GetClientOpenNum_def)
  qed
qed

text \<open>Client 7 dies: its one open goes and the device is closed.\<close>

theorem binder_died_correct_witness:
  "\<exists>s w. binderDied (replicate 44 0) 7 (demo_service, demo_world env_good) = Some (Inl (), s, w) \<and> mDevice s = None"
proof -
  let ?r = "demo_run env_good" and ?c = "new_client 7"
  have "service_run (world_init env_good) (100 + length (mloadinfo ?c)) ?r"
    by (rule demo_run_reached) (simp_all add: new_client_def)
  moreover have "?c \<in> set (mClientInfo (svc ?r))" by (simp add: demo_service_def)
  moreover have "hint_lock ?r = None" "length (replicate 44 (0 :: u8)) = 44" by simp_all
  ultimately obtain x s w where "binderDied (replicate 44 0) (mclientbinder ?c) (svc ?r, wld ?r) = Some (x, s, w)"
    "if uint (mopen_count (svc ?r)) = mopencount ?c \<and> mworking (svc ?r) \<noteq> 0 then True
     else x = Inl () \<and> uint (mopen_count s) = uint (mopen_count (svc ?r)) - mopencount ?c \<and>
       mDevice s = (if mopen_count s = 0 then None else mDevice (svc ?r))"
    using binder_died_correct [of "world_init env_good" 100 ?c ?r "replicate 44 0"] by (auto split: if_splits)
  moreover from this have "uint (mopen_count s) = 0" by (simp add: demo_service_def new_client_def)
  then have "mopen_count s = 0" by (simp add: uint_0_iff)
  ultimately show ?thesis by (auto simp: demo_service_def new_client_def)
qed

section \<open>The service stuck\<close>

inductive_cases svc_stepE: "svc_step k r r'"

lemma leaked_mono: "svc_step k r r' \<Longrightarrow> leaked r \<le> leaked r'"
  by (erule svc_stepE) auto

text \<open>Client 7's command returns early, because its input cannot be mapped.\<close>

definition early_input :: "hptr sprd_vdsp_inout" where
  "early_input = \<lparr>io_fd = 5, vir_addr = H_Null, phy_addr = 0, io_size = 8, io_flag = SPRD_VDSP_XRP_READ\<rparr>"

definition sending :: "environment \<Rightarrow> run_state" where
  "sending e = (demo_run e)\<lparr>svc := demo_service\<lparr>mworking := 1\<rparr>, sends := 1\<rparr>"

lemma sending_simps [simp]:
  "svc (sending e) = demo_service\<lparr>mworking := 1\<rparr>" "wld (sending e) = demo_world e" "sends (sending e) = 1"
  "leaked (sending e) = 0" "load_lock (sending e) = None" "hint_lock (sending e) = None"
  by (simp_all add: sending_def)

lemma sending_reached:
  assumes "grants e" and "n < 1000"
  shows "service_run (world_init e) n (sending e)"
proof -
  have "service_run (world_init e) (n + 0) (demo_run e)" using demo_run_reached [OF assms] by simp
  moreover have "svc_step 0 (demo_run e) ((demo_run e)\<lparr>svc := demo_service\<lparr>mworking := 1\<rparr>, sends := Suc (sends (demo_run e))\<rparr>)"
    by (rule svc_step.send_begin [of 7])
      (simp_all add: alive_def unsaturated_def demo_service_def sendXrpCommand_begin_def GetClientOpenNum_def
        find_client_def new_client_def)
  ultimately show ?thesis unfolding sending_def using service_run.step [of _ n 0] by (metis One_nat_def demo_run_simps(3))
qed

lemma demo_command_ok: "command_ok w demo_nsid (Some early_input) None [] 0"
  unfolding command_ok_def
proof (intro conjI)
  show "\<exists>ns_id. copy_nsid demo_nsid = Some ns_id \<and> (take 9 ns_id = FACEID_NSID \<longrightarrow> Some early_input \<noteq> None)"
    using demo_copy by auto
qed (simp_all add: inout_ok_def mapped_def early_input_def servable_def)

definition demo_leaked :: run_state where
  "demo_leaked = (sending env_no_map)\<lparr>wld := (record_call (Mmap 5 8) (demo_world env_no_map))\<lparr>ticks := 5\<rparr>, sends := 0, leaked := 1\<rparr>"

lemma demo_leaked_reached: "service_run (world_init env_no_map) 100 demo_leaked"
proof -
  let ?r = "sending env_no_map"
  let ?w = "(record_call (Mmap 5 8) (demo_world env_no_map))\<lparr>ticks := 5\<rparr>"
  have "sendXrpCommand_body (mDevice (svc ?r)) demo_nsid (Some early_input) None [] 0 2 (wld ?r) = Some ((False, - 1), ?w)"
    by (simp add: sendXrpCommand_body_def map_inout_def early_input_def MapIonFd_def ask_def env_no_map_def record_call_def
        demo_world_def)
  then have "svc_step (3 * 0 + 1) ?r (?r\<lparr>svc := (if False then sendXrpCommand_end (svc ?r) else svc ?r), wld := ?w, sends := 0,
      leaked := (if False then leaked ?r else Suc (leaked ?r))\<rparr>)"
    by (intro svc_step.send_end [OF _ demo_command_ok]) simp_all
  moreover have "service_run (world_init env_no_map) (100 + (3 * 0 + 1)) ?r" by (rule sending_reached) simp_all
  ultimately have "service_run (world_init env_no_map) 100 (?r\<lparr>svc := (if False then sendXrpCommand_end (svc ?r) else svc ?r),
      wld := ?w, sends := 0, leaked := (if False then leaked ?r else Suc (leaked ?r))\<rparr>)" by (rule service_run.step [rotated])
  moreover have "?r\<lparr>svc := (if False then sendXrpCommand_end (svc ?r) else svc ?r), wld := ?w, sends := 0,
      leaked := (if False then leaked ?r else Suc (leaked ?r))\<rparr> = demo_leaked"
    by (simp add: demo_leaked_def sending_def)
  ultimately show ?thesis by metis
qed

text \<open>
  C29. A command that returns early, because its input or output could not be mapped, is counted as in
  progress forever: from then on, in whatever the service does, the last client's close is refused with -2,
  and a clean-up that waits for the commands never ends.
\<close>

theorem early_return_blocks:
  assumes "service_run w0 n r" and "0 < leaked r" and "(\<lambda>r r'. \<exists>k. svc_step k r r')\<^sup>*\<^sup>* r r'" and "service_run w0 m r'"
  shows "(mopen_count (svc r') = 1 \<and> GetClientOpenNum client (svc r') \<noteq> 0 \<longrightarrow>
      (\<exists>w. closeXrpDevice client (svc r', wld r') = Some (- 2, svc r', w))) \<and>
    (hint_lock r' = Some (Waiting client i k) \<longrightarrow>
      binderDied_again client i k (svc r', wld r') = Some (Inr (i, k), svc r', wld r'))"
proof (intro conjI impI)
  have "leaked r \<le> leaked r'" using assms(3) by (induction rule: rtranclp_induct) (auto dest: leaked_mono)
  then have lk: "0 < leaked r'" using assms(2) by simp
  have inv: "run_inv m r'" using service_run_inv [OF assms(4)] .
  then have "0 < uint (mworking (svc r'))" using lk by (simp add: run_inv_def)
  then have busy: "mworking (svc r') \<noteq> 0" by auto
  show "\<exists>w. closeXrpDevice client (svc r', wld r') = Some (- 2, svc r', w)"
    if a: "mopen_count (svc r') = 1 \<and> GetClientOpenNum client (svc r') \<noteq> 0"
    using close_ok [of "waits r'" "gap r'" "svc r'" "wld r'" m client] inv a busy
    by (auto simp: run_inv_def GetClientOpenNum_eq)
  show "binderDied_again client i k (svc r', wld r') = Some (Inr (i, k), svc r', wld r')"
    if "hint_lock r' = Some (Waiting client i k)"
    using again_result [OF inv that] busy by simp
qed

theorem early_return_blocks_witness:
  "\<exists>w. closeXrpDevice 7 (svc demo_leaked, wld demo_leaked) = Some (- 2, svc demo_leaked, w)"
proof -
  have "0 < leaked demo_leaked" by (simp add: demo_leaked_def)
  moreover have "mopen_count (svc demo_leaked) = 1 \<and> GetClientOpenNum 7 (svc demo_leaked) \<noteq> 0"
    by (simp add: demo_leaked_def demo_service_def GetClientOpenNum_def find_client_def new_client_def)
  ultimately show ?thesis
    using early_return_blocks [OF demo_leaked_reached _ rtranclp.rtrancl_refl demo_leaked_reached, of 7] by blast
qed






end
