(* ===== verification/Service_Protocol.thy ===== *)
theory Service_Protocol
  imports Vdsp_Service
begin

text \<open>
  The binder protocol between the client library and the service: the proxies of \<open>BpVdspService\<close>, which
  write a request into a parcel, and \<open>BnVdspService::onTransact\<close>, which reads it and calls the handler
  (\<open>vdsp-service/IVdspService.cpp\<close>).

  A parcel is the sequence of the values written. What belongs to Android is a parameter: how the kernel
  translates binders and file descriptors on the way (\<open>channel\<close>), and what the receiver reads where the
  next value is not of the kind asked for (\<open>receiver\<close>, which also holds the contents of the memory that
  \<open>onTransact\<close> leaves uninitialised). A transaction whose client or string is missing has no meaning here.
\<close>

section \<open>Requests and parcels\<close>

text \<open>A request is a call of a method of \<open>IVdspService\<close>; strings are their contents.\<close>

datatype request =
  R_open sprd_vdsp_worktype
| R_close
| R_send bytes "hptr sprd_vdsp_inout option" "hptr sprd_vdsp_inout option" "u64 sprd_vdsp_inout list option" u32 u32
| R_load bytes "u64 sprd_vdsp_inout option"
| R_unload bytes
| R_hint int u32

datatype parcel_item = P_token string | P_binder nat | P_word u32 | P_cstring bytes | P_fd int

type_synonym parcel = "parcel_item list"

definition descriptor :: string where
  "descriptor = ''android.camera.IVdspService''"

text \<open>\<open>FIRST_CALL_TRANSACTION\<close> is 1.\<close>

fun action_code :: "request \<Rightarrow> u32" where
  "action_code (R_open type) = 1"
| "action_code R_close = 2"
| "action_code (R_send ns input outp buffer bufnum priority) = 3"
| "action_code (R_load name input) = 4"
| "action_code (R_unload name) = 5"
| "action_code (R_hint level acquire_release) = 6"

fun worktype_code :: "sprd_vdsp_worktype \<Rightarrow> u32" where
  "worktype_code SPRD_VDSP_WORK_NORMAL = 0"
| "worktype_code SPRD_VDSP_WORK_FACEID = 1"
| "worktype_code SPRD_VDSP_WORK_MAXTYPE = 2"

fun bufflag_code :: "sprd_vdsp_bufflag \<Rightarrow> u32" where
  "bufflag_code SPRD_VDSP_XRP_READ = 0"
| "bufflag_code SPRD_VDSP_XRP_WRITE = 1"
| "bufflag_code SPRD_VDSP_XRP_READ_WRITE = 2"
| "bufflag_code SPRD_VDSP_XRP_ACCESS_MAX = 3"

text \<open>The casts from integers to the enumerations, undefined for other values.\<close>

definition to_worktype :: "u32 \<Rightarrow> sprd_vdsp_worktype option" where
  "to_worktype x = List.find (\<lambda>t. worktype_code t = x)
     [SPRD_VDSP_WORK_NORMAL, SPRD_VDSP_WORK_FACEID, SPRD_VDSP_WORK_MAXTYPE]"

definition to_bufflag :: "u32 \<Rightarrow> sprd_vdsp_bufflag option" where
  "to_bufflag x = List.find (\<lambda>f. bufflag_code f = x)
     [SPRD_VDSP_XRP_READ, SPRD_VDSP_XRP_WRITE, SPRD_VDSP_XRP_READ_WRITE, SPRD_VDSP_XRP_ACCESS_MAX]"

section \<open>The proxies\<close>

definition write_optional :: "('a \<Rightarrow> parcel) \<Rightarrow> 'a option \<Rightarrow> parcel" where
  "write_optional enc x = P_word (of_bool (x \<noteq> None)) # (case x of None \<Rightarrow> [] | Some y \<Rightarrow> enc y)"

definition write_input :: "hptr sprd_vdsp_inout \<Rightarrow> parcel" where
  "write_input x = [P_fd (io_fd x), P_word (phy_addr x), P_word (io_size x)]"

definition write_output :: "hptr sprd_vdsp_inout \<Rightarrow> parcel" where
  "write_output x = [P_fd (io_fd x), P_word (io_size x)]"

definition write_buffer :: "u64 sprd_vdsp_inout \<Rightarrow> parcel" where
  "write_buffer x = [P_fd (io_fd x), P_word (io_size x), P_word (phy_addr x), P_word (bufflag_code (io_flag x))]"

definition write_buffers :: "u32 \<Rightarrow> u64 sprd_vdsp_inout list \<Rightarrow> parcel" where
  "write_buffers bufnum xs = P_word bufnum # concat (map write_buffer (take (unat bufnum) xs))"

text \<open>
  What each proxy writes after the token and the client's binder; undefined where it reads through a null
  pointer or past the array of buffers.
\<close>

fun proxy_args :: "request \<Rightarrow> parcel option" where
  "proxy_args (R_open type) = Some [P_word (worktype_code type)]"
| "proxy_args R_close = Some []"
| "proxy_args (R_send ns input outp buffer bufnum priority) =
     (if \<exists>xs. buffer = Some xs \<and> length xs < unat bufnum then None
      else Some (P_cstring ns # write_optional write_input input @ write_optional write_output outp @
             write_optional (write_buffers bufnum) buffer @ [P_word priority]))"
| "proxy_args (R_load name input) =
     map_option (\<lambda>x. [P_cstring name, P_fd (io_fd x), P_word (io_size x)]) input"
| "proxy_args (R_unload name) = Some [P_cstring name]"
| "proxy_args (R_hint level acquire_release) = Some [P_word (word_of_int level), P_word acquire_release]"

definition proxy_parcel :: "nat \<Rightarrow> request \<Rightarrow> parcel option" where
  "proxy_parcel callback rq = map_option (\<lambda>p. P_token descriptor # P_binder callback # p) (proxy_args rq)"

text \<open>The result of a proxy: the status of the transaction if it failed, or the integer in the reply.\<close>

definition proxy_result :: "int \<Rightarrow> u32 \<Rightarrow> int" where
  "proxy_result status reply = (if status \<noteq> 0 then status else sint reply)"

section \<open>The way to the service\<close>

record channel =
  client_of :: "nat \<Rightarrow> client"
  fd_of :: "int \<Rightarrow> int"

fun translate_item :: "channel \<Rightarrow> parcel_item \<Rightarrow> parcel_item" where
  "translate_item ch (P_binder b) = P_binder (client_of ch b)"
| "translate_item ch (P_fd f) = P_fd (fd_of ch f)"
| "translate_item ch x = x"

abbreviation delivered :: "channel \<Rightarrow> parcel \<Rightarrow> parcel" where
  "delivered ch \<equiv> map (translate_item ch)"

section \<open>Reading\<close>

record receiver =
  bad_word :: "parcel \<Rightarrow> u32 \<times> parcel"
  bad_fd :: "parcel \<Rightarrow> int \<times> parcel"
  old_input :: "hptr sprd_vdsp_inout"
  old_output :: "hptr sprd_vdsp_inout"
  old_library :: "u64 sprd_vdsp_inout"
  old_buffer :: "nat \<Rightarrow> u64 sprd_vdsp_inout"
  memory_for :: "nat \<Rightarrow> bool"
  block_mem :: bytes

definition checkInterface :: "parcel \<Rightarrow> parcel option" where
  "checkInterface p = (case p of P_token t # q \<Rightarrow> if t = descriptor then Some q else None | _ \<Rightarrow> None)"

definition readStrongBinder :: "parcel \<Rightarrow> (client \<times> parcel) option" where
  "readStrongBinder p = (case p of P_binder b # q \<Rightarrow> Some (b, q) | _ \<Rightarrow> None)"

definition readCString :: "parcel \<Rightarrow> (bytes \<times> parcel) option" where
  "readCString p = (case p of P_cstring s # q \<Rightarrow> Some (s, q) | _ \<Rightarrow> None)"

definition readUint32 :: "receiver \<Rightarrow> parcel \<Rightarrow> u32 \<times> parcel" where
  "readUint32 r p = (case p of P_word x # q \<Rightarrow> (x, q) | _ \<Rightarrow> bad_word r p)"

definition readFileDescriptor :: "receiver \<Rightarrow> parcel \<Rightarrow> int \<times> parcel" where
  "readFileDescriptor r p = (case p of P_fd x # q \<Rightarrow> (x, q) | _ \<Rightarrow> bad_fd r p)"

definition read_input :: "receiver \<Rightarrow> parcel \<Rightarrow> (hptr sprd_vdsp_inout \<times> parcel) option" where
  "read_input r p =
     (let (fd, p1) = readFileDescriptor r p; (phy, p2) = readUint32 r p1; (sz, p3) = readUint32 r p2
      in Some ((old_input r)\<lparr>io_fd := fd, phy_addr := phy, io_size := sz\<rparr>, p3))"

definition read_output :: "receiver \<Rightarrow> parcel \<Rightarrow> (hptr sprd_vdsp_inout \<times> parcel) option" where
  "read_output r p =
     (let (fd, p1) = readFileDescriptor r p; (sz, p2) = readUint32 r p1
      in Some ((old_output r)\<lparr>io_fd := fd, io_size := sz\<rparr>, p2))"

definition read_buffer :: "receiver \<Rightarrow> nat \<Rightarrow> parcel \<Rightarrow> (u64 sprd_vdsp_inout \<times> parcel) option" where
  "read_buffer r i p =
     (let (fd, p1) = readFileDescriptor r p; (sz, p2) = readUint32 r p1; (phy, p3) = readUint32 r p2;
          (code, p4) = readUint32 r p3
      in map_option (\<lambda>flag. ((old_buffer r i)\<lparr>io_fd := fd, io_size := sz, phy_addr := phy, io_flag := flag\<rparr>, p4))
           (to_bufflag code))"

text \<open>A value that follows a flag telling whether it is there, and a loop that reads \<open>n\<close> values.\<close>

definition read_optional :: "receiver \<Rightarrow> (parcel \<Rightarrow> ('a \<times> parcel) option) \<Rightarrow> parcel \<Rightarrow> ('a option \<times> parcel) option" where
  "read_optional r read p =
     (let (valid, p1) = readUint32 r p
      in if valid \<noteq> 0 then do { (x, p2) \<leftarrow> read p1; Some (Some x, p2) } else Some (None, p1))"

primrec read_many :: "(nat \<Rightarrow> parcel \<Rightarrow> ('a \<times> parcel) option) \<Rightarrow> nat \<Rightarrow> nat \<Rightarrow> parcel \<Rightarrow> ('a list \<times> parcel) option" where
  "read_many read i 0 p = Some ([], p)"
| "read_many read i (Suc n) p = do {
     (x, p1) \<leftarrow> read i p;
     (xs, p2) \<leftarrow> read_many read (Suc i) n p1;
     Some (x # xs, p2)
   }"

text \<open>The buffers of a command: \<open>None\<close> in the result where the array cannot be allocated.\<close>

definition read_buffers :: "receiver \<Rightarrow> parcel \<Rightarrow> (u64 sprd_vdsp_inout list option \<times> parcel) option" where
  "read_buffers r p =
     (let (bufnum, p1) = readUint32 r p
      in if bufnum = 0 then Some (Some [], p1)
         else if \<not> memory_for r (unat bufnum) then Some (None, p1)
         else do { (xs, p2) \<leftarrow> read_many (read_buffer r) 0 (unat bufnum) p1; Some (Some xs, p2) })"

section \<open>The service's end\<close>

text \<open>The reply to a handled transaction, \<open>NO_ERROR\<close> with the result of the handler.\<close>

definition reply_with :: "(int \<times> service_state) option \<Rightarrow> ((int \<times> parcel) \<times> service_state) option" where
  "reply_with x = map_option (\<lambda>(ret, st). ((0, [P_word (word_of_int ret)]), st)) x"

definition transact_open :: "receiver \<Rightarrow> parcel \<Rightarrow> service_state \<Rightarrow> ((int \<times> parcel) \<times> service_state) option" where
  "transact_open r p st = do {
     (client, p1) \<leftarrow> readStrongBinder p;
     type \<leftarrow> to_worktype (fst (readUint32 r p1));
     reply_with (openXrpDevice client type st)
   }"

definition transact_close :: "parcel \<Rightarrow> service_state \<Rightarrow> ((int \<times> parcel) \<times> service_state) option" where
  "transact_close p st = do { (client, _) \<leftarrow> readStrongBinder p; reply_with (closeXrpDevice client st) }"

definition transact_send :: "receiver \<Rightarrow> parcel \<Rightarrow> service_state \<Rightarrow> ((int \<times> parcel) \<times> service_state) option" where
  "transact_send r p st = do {
     (client, p1) \<leftarrow> readStrongBinder p;
     (nsid, p2) \<leftarrow> readCString p1;
     (pinput, p3) \<leftarrow> read_optional r (read_input r) p2;
     (poutput, p4) \<leftarrow> read_optional r (read_output r) p3;
     (buffers, p5) \<leftarrow> read_optional r (read_buffers r) p4;
     (if buffers = Some None then Some ((0, [P_word (- 12)]), st)
      else
        let xs = (case buffers of Some (Some xs) \<Rightarrow> xs | _ \<Rightarrow> []);
            priority = fst (readUint32 r p5)
        in reply_with (sendXrpCommand client (nsid @ [0]) pinput poutput xs (length xs) priority st))
   }"

definition transact_load :: "receiver \<Rightarrow> parcel \<Rightarrow> service_state \<Rightarrow> ((int \<times> parcel) \<times> service_state) option" where
  "transact_load r p st = do {
     (client, p1) \<leftarrow> readStrongBinder p;
     (name, p2) \<leftarrow> readCString p1;
     let (fd, p3) = readFileDescriptor r p2;
     reply_with (loadXrpLibrary (block_mem r) client name
       ((old_library r)\<lparr>io_fd := fd, io_size := fst (readUint32 r p3)\<rparr>) st)
   }"

definition transact_unload :: "receiver \<Rightarrow> parcel \<Rightarrow> service_state \<Rightarrow> ((int \<times> parcel) \<times> service_state) option" where
  "transact_unload r p st = do {
     (client, p1) \<leftarrow> readStrongBinder p;
     (name, _) \<leftarrow> readCString p1;
     reply_with (unloadXrpLibrary (block_mem r) client name st)
   }"

definition transact_hint :: "receiver \<Rightarrow> parcel \<Rightarrow> service_state \<Rightarrow> ((int \<times> parcel) \<times> service_state) option" where
  "transact_hint r p st = do {
     (client, p1) \<leftarrow> readStrongBinder p;
     let (level, p2) = readUint32 r p1;
     reply_with (powerHint client (sint level) (fst (readUint32 r p2)) st)
   }"

text \<open>
  \<open>CHECK_INTERFACE\<close> returns \<open>PERMISSION_DENIED\<close>, which is -1. Codes the service does not know are left to
  \<open>BBinder::onTransact\<close>, the parameter \<open>base\<close>.
\<close>

definition onTransact :: "(u32 \<Rightarrow> parcel \<Rightarrow> int \<times> parcel) \<Rightarrow> receiver \<Rightarrow> u32 \<Rightarrow> parcel \<Rightarrow> service_state \<Rightarrow>
    ((int \<times> parcel) \<times> service_state) option" where
  "onTransact base r code data st =
     (if code < 1 \<or> 6 < code then Some (base code data, st)
      else case checkInterface data of
        None \<Rightarrow> Some ((- 1, []), st)
      | Some p \<Rightarrow>
          if code = 1 then transact_open r p st
          else if code = 2 then transact_close p st
          else if code = 3 then transact_send r p st
          else if code = 4 then transact_load r p st
          else if code = 5 then transact_unload r p st
          else transact_hint r p st)"


section \<open>Reading back what was written\<close>

lemma to_worktype_code [simp]: "to_worktype (worktype_code t) = Some t"
  by (cases t) (simp_all add: to_worktype_def)

lemma to_bufflag_code [simp]: "to_bufflag (bufflag_code f) = Some f"
  by (cases f) (simp_all add: to_bufflag_def)

lemma read_head [simp]:
  "readStrongBinder (P_binder b # p) = Some (b, p)"
  "readCString (P_cstring s # p) = Some (s, p)"
  "readUint32 r (P_word x # p) = (x, p)"
  "readFileDescriptor r (P_fd f # p) = (f, p)"
  "checkInterface (P_token t # p) = (if t = descriptor then Some p else None)"
  by (simp_all add: readStrongBinder_def readCString_def readUint32_def readFileDescriptor_def checkInterface_def)

text \<open>
  The contract of a writer and its reader: after the translation on the way the reader gives back the value
  as the receiver sees it, and leaves what follows. Optional values and sequences inherit it.
\<close>

locale parcel_codec =
  fixes ch :: channel
    and enc :: "'a \<Rightarrow> parcel"
    and read :: "nat \<Rightarrow> parcel \<Rightarrow> ('a \<times> parcel) option"
    and seen :: "nat \<Rightarrow> 'a \<Rightarrow> 'a"
  assumes read_write: "read i (delivered ch (enc x) @ p) = Some (seen i x, p)"
begin

lemma optional: "read_optional r (read i) (delivered ch (write_optional enc x) @ p) = Some (map_option (seen i) x, p)"
  by (cases x) (simp_all add: read_optional_def write_optional_def read_write)

lemma many:
  "read_many read i (length xs) (delivered ch (concat (map enc xs)) @ p) =
     Some (map (\<lambda>(j, x). seen j x) (enumerate i xs), p)"
  by (induction xs arbitrary: i) (simp_all add: read_write)

end

text \<open>Input, output and buffers as the service sees them.\<close>

definition input_seen :: "channel \<Rightarrow> receiver \<Rightarrow> hptr sprd_vdsp_inout \<Rightarrow> hptr sprd_vdsp_inout" where
  "input_seen ch r x = (old_input r)\<lparr>io_fd := fd_of ch (io_fd x), phy_addr := phy_addr x, io_size := io_size x\<rparr>"

definition output_seen :: "channel \<Rightarrow> receiver \<Rightarrow> hptr sprd_vdsp_inout \<Rightarrow> hptr sprd_vdsp_inout" where
  "output_seen ch r x = (old_output r)\<lparr>io_fd := fd_of ch (io_fd x), io_size := io_size x\<rparr>"

definition buffer_seen :: "channel \<Rightarrow> receiver \<Rightarrow> nat \<Rightarrow> u64 sprd_vdsp_inout \<Rightarrow> u64 sprd_vdsp_inout" where
  "buffer_seen ch r i x =
     x\<lparr>io_fd := fd_of ch (io_fd x), vir_addr := vir_addr (old_buffer r i)\<rparr>"

definition buffers_seen :: "channel \<Rightarrow> receiver \<Rightarrow> u32 \<Rightarrow> u64 sprd_vdsp_inout list option \<Rightarrow> u64 sprd_vdsp_inout list" where
  "buffers_seen ch r bufnum buffer =
     (case buffer of None \<Rightarrow> [] | Some xs \<Rightarrow> map (\<lambda>(i, x). buffer_seen ch r i x) (enumerate 0 (take (unat bufnum) xs)))"

interpretation input_codec: parcel_codec ch write_input "\<lambda>_. read_input r" "\<lambda>_. input_seen ch r" for ch r
  by unfold_locales (simp add: write_input_def read_input_def input_seen_def)

interpretation output_codec: parcel_codec ch write_output "\<lambda>_. read_output r" "\<lambda>_. output_seen ch r" for ch r
  by unfold_locales (simp add: write_output_def read_output_def output_seen_def)

interpretation buffer_codec: parcel_codec ch write_buffer "read_buffer r" "buffer_seen ch r" for ch r
  by unfold_locales (simp add: write_buffer_def read_buffer_def buffer_seen_def)

lemma read_buffers_written:
  assumes "unat n \<le> length xs" and "memory_for r (unat n) \<or> n = 0"
  shows "read_buffers r (delivered ch (write_buffers n xs) @ p) = Some (Some (buffers_seen ch r n (Some xs)), p)"
proof (cases "n = 0")
  case True
  then show ?thesis by (simp add: read_buffers_def write_buffers_def buffers_seen_def)
next
  case False
  have "length (take (unat n) xs) = unat n" using assms(1) by simp
  with buffer_codec.many [of r 0 "take (unat n) xs" ch p] False assms(2) show ?thesis
    by (simp add: read_buffers_def write_buffers_def buffers_seen_def)
qed

text \<open>A request handed to the service directly, and the request the service sees.\<close>

fun serve :: "channel \<Rightarrow> receiver \<Rightarrow> client \<Rightarrow> request \<Rightarrow> service_state \<Rightarrow> (int \<times> service_state) option" where
  "serve ch r client (R_open type) st = openXrpDevice client type st"
| "serve ch r client R_close st = closeXrpDevice client st"
| "serve ch r client (R_send ns input outp buffer bufnum priority) st =
     (let xs = buffers_seen ch r bufnum buffer
      in sendXrpCommand client (ns @ [0]) (map_option (input_seen ch r) input) (map_option (output_seen ch r) outp)
           xs (length xs) priority st)"
| "serve ch r client (R_load name input) st = do {
     x \<leftarrow> input;
     loadXrpLibrary (block_mem r) client name ((old_library r)\<lparr>io_fd := fd_of ch (io_fd x), io_size := io_size x\<rparr>) st
   }"
| "serve ch r client (R_unload name) st = unloadXrpLibrary (block_mem r) client name st"
| "serve ch r client (R_hint level acquire_release) st = powerHint client level acquire_release st"

text \<open>Enough memory for the array of buffers, and a level that fits its 32 bits.\<close>

fun request_fits :: "receiver \<Rightarrow> request \<Rightarrow> bool" where
  "request_fits r (R_send ns input outp buffer bufnum priority) \<longleftrightarrow>
     buffer = None \<or> bufnum = 0 \<or> memory_for r (unat bufnum)"
| "request_fits r (R_hint level acquire_release) \<longleftrightarrow> - (2 ^ 31) \<le> level \<and> level < 2 ^ 31"
| "request_fits r rq \<longleftrightarrow> True"

lemma send_received:
  assumes "\<not> (\<exists>xs. buffer = Some xs \<and> length xs < unat bufnum)"
    and "buffer = None \<or> bufnum = 0 \<or> memory_for r (unat bufnum)"
  shows "transact_send r (delivered ch (P_binder cb # P_cstring ns # write_optional write_input input @
             write_optional write_output outp @ write_optional (write_buffers bufnum) buffer @ [P_word priority])) st =
    reply_with (serve ch r (client_of ch cb) (R_send ns input outp buffer bufnum priority) st)"
proof -
  have b: "read_optional r (read_buffers r) (delivered ch (write_optional (write_buffers bufnum) buffer) @ p) =
      Some (map_option (\<lambda>xs. Some (buffers_seen ch r bufnum (Some xs))) buffer, p)" for p
    using assms read_buffers_written [of bufnum _ r ch p]
    by (cases buffer) (auto simp: read_optional_def write_optional_def)
  show ?thesis
    using input_codec.optional [of r r ch input] output_codec.optional [of r r ch outp] b
    by (cases buffer) (simp_all add: transact_send_def buffers_seen_def Let_def)
qed

lemma transact_served:
  assumes "proxy_parcel cb rq = Some p" and "request_fits r rq"
  shows "onTransact base r (action_code rq) (delivered ch p) st = reply_with (serve ch r (client_of ch cb) rq st)"
proof -
  show ?thesis
  proof (cases rq)
    case (R_send ns input outp buffer bufnum priority)
    then show ?thesis using assms send_received [of buffer bufnum r ch cb ns input outp priority st]
      by (auto simp: proxy_parcel_def onTransact_def split: if_splits)
  next
    case (R_hint l a)
    then show ?thesis using assms sint_word_of_int_eq [of l] by (auto simp: proxy_parcel_def onTransact_def transact_hint_def)
  qed (use assms in \<open>auto simp: proxy_parcel_def onTransact_def transact_open_def transact_close_def transact_load_def
      transact_unload_def\<close>)
qed

section \<open>Properties\<close>

text \<open>
  C9. A request made through the binder is the same request made of the service directly. Whatever the
  proxy writes, \<open>onTransact\<close> reads back: each argument, the descriptors and the client as the kernel
  translates them, any number of buffers; it calls the one handler with them, and the proxy returns the
  handler's result. What is not written, such as addresses, is whatever the receiver's memory held. (With
  memory for the array of buffers, and a result and a level that fit 32 bits.)
\<close>

theorem binder_call_correct:
  assumes "proxy_parcel callback rq = Some p" and "request_fits r rq"
  shows "onTransact base r (action_code rq) (delivered ch p) st =
      map_option (\<lambda>(ret, st'). ((0, [P_word (word_of_int ret)]), st')) (serve ch r (client_of ch callback) rq st) \<and>
    (\<forall>ret. - (2 ^ 31) \<le> ret \<and> ret < 2 ^ 31 \<longrightarrow> proxy_result 0 (word_of_int ret) = ret)"
  using transact_served [OF assms] sint_word_of_int_eq by (simp add: reply_with_def proxy_result_def)

definition demo_channel :: channel where
  "demo_channel = \<lparr>client_of = (\<lambda>b. b + 7), fd_of = (\<lambda>f. f + 20)\<rparr>"

definition zero_inout :: "'p \<Rightarrow> 'p sprd_vdsp_inout" where
  "zero_inout p = \<lparr>io_fd = 0, vir_addr = p, phy_addr = 0, io_size = 0, io_flag = SPRD_VDSP_XRP_READ\<rparr>"

definition demo_receiver :: receiver where
  "demo_receiver = \<lparr>bad_word = (\<lambda>p. (0, p)), bad_fd = (\<lambda>p. (- 1, p)), old_input = zero_inout H_Null,
     old_output = zero_inout H_Null, old_library = zero_inout 0, old_buffer = (\<lambda>_. zero_inout 0),
     memory_for = (\<lambda>_. True), block_mem = replicate 44 0\<rparr>"

theorem binder_call_correct_witness:
  "\<exists>p. proxy_parcel 0 (R_send [97] None None (Some [zero_inout 5]) 1 2) = Some p \<and>
     (\<forall>st. onTransact (\<lambda>_ p. (0, p)) demo_receiver 3 (delivered demo_channel p) st =
       map_option (\<lambda>(ret, st'). ((0, [P_word (word_of_int ret)]), st'))
         (sendXrpCommand 7 [97, 0] None None [(zero_inout 0)\<lparr>io_fd := 20\<rparr>] 1 2 st))"
proof -
  obtain p where p: "proxy_parcel 0 (R_send [97] None None (Some [zero_inout 5]) 1 2) = Some p"
    by (simp add: proxy_parcel_def)
  have "request_fits demo_receiver (R_send [97] None None (Some [zero_inout 5]) 1 2)" by (simp add: demo_receiver_def)
  from binder_call_correct [OF p this, of "\<lambda>_ p. (0, p)" demo_channel] p show ?thesis
    by (simp add: buffers_seen_def buffer_seen_def demo_channel_def demo_receiver_def zero_inout_def)
qed

end
