(* ===== verification/Vdsp_Client.thy ===== *)
theory Vdsp_Client
  imports Command_Queue Service_Protocol
begin

text \<open>
  The client library, \<open>vdsp-interface/vdsp_interface.cpp\<close>: handles with a descriptor and a generation, the
  descriptors in a 32-bit table, the counts of opens and of commands in progress, and the restart of the
  service. Functions that give up \<open>gLock\<close> around the call of the service are defined by their sections under
  the lock.

  The service is a parameter: what a section asks of it is the list of requests in its result, and what the
  service answers is an argument. A shift by the descriptor is undefined from 32 on.
\<close>

section \<open>State\<close>

record vdsp_handle =
  hnd_fd :: int
  hnd_generation :: u32

record client_state =
  gInitFlag :: int
  gGeneration :: u32
  gVdspService :: "nat option"
  gOpenedCount :: int
  gWorkType :: sprd_vdsp_worktype
  gWorking :: int
  g_FdInfo :: "int list"
  g_fdtable :: u32

definition initial_client :: client_state where
  "initial_client = \<lparr>gInitFlag = 0, gGeneration = 0, gVdspService = None, gOpenedCount = 0,
     gWorkType = SPRD_VDSP_WORK_MAXTYPE, gWorking = 0, g_FdInfo = replicate 32 0, g_fdtable = 0\<rparr>"

section \<open>Descriptors\<close>

text \<open>The loop of \<open>Alloc_Fd\<close> from \<open>i\<close> on.\<close>

function alloc_fd_from :: "nat \<Rightarrow> client_state \<Rightarrow> int \<times> client_state" where
  "alloc_fd_from i s =
     (if 32 \<le> i then (- 1, s)
      else if and (drop_bit i (xor (g_fdtable s) 0xffffffff)) 1 \<noteq> 0
           then (int i, s\<lparr>g_fdtable := or (g_fdtable s) (push_bit i 1)\<rparr>)
           else alloc_fd_from (Suc i) s)"
  by pat_completeness auto
termination by (relation "measure (\<lambda>(i, _). 32 - i)") auto

declare alloc_fd_from.simps [simp del]

definition Alloc_Fd :: "client_state \<Rightarrow> int \<times> client_state" where
  "Alloc_Fd s = alloc_fd_from 0 s"

definition Check_FdValid :: "int \<Rightarrow> client_state \<Rightarrow> int option" where
  "Check_FdValid fd s =
     (if fd < 0 then Some (- 1)
      else if 32 \<le> fd then None
      else if and (g_fdtable s) (push_bit (nat fd) 1) = 0 then Some (- 1) else Some 0)"

definition Free_Fd :: "int \<Rightarrow> client_state \<Rightarrow> (int \<times> client_state) option" where
  "Free_Fd fd s =
     (if fd < 0 then Some (- 1, s)
      else if 32 \<le> fd then None
      else if and (g_fdtable s) (push_bit (nat fd) 1) = 0 then Some (- 1, s)
      else Some (0, s\<lparr>g_fdtable := and (g_fdtable s) (not (push_bit (nat fd) 1))\<rparr>))"

definition Check_GenrationValid :: "u32 \<Rightarrow> client_state \<Rightarrow> int" where
  "Check_GenrationValid generation s = (if generation = gGeneration s then 0 else - 1)"

section \<open>The service\<close>

definition client_binderDied :: "client_state \<Rightarrow> client_state" where
  "client_binderDied s = s\<lparr>gInitFlag := 0, gGeneration := gGeneration s + 1\<rparr>"

text \<open>\<open>found\<close> is what the service manager knows; the result is the service that the caller goes on with.\<close>

definition getVdspService :: "bool \<Rightarrow> nat option \<Rightarrow> client_state \<Rightarrow> nat option \<times> client_state" where
  "getVdspService realget found s =
     (if gInitFlag s = 0 \<and> realget
      then case found of
             None \<Rightarrow> (gVdspService s, s)
           | Some b \<Rightarrow> (Some b, s\<lparr>g_fdtable := 0, gWorkType := SPRD_VDSP_WORK_MAXTYPE, g_FdInfo := replicate 32 0,
                          gVdspService := Some b, gInitFlag := 1, gOpenedCount := 0\<rparr>)
      else (gVdspService s, s))"

section \<open>Opening and closing\<close>

definition open_section :: "sprd_vdsp_worktype \<Rightarrow> int \<Rightarrow> client_state \<Rightarrow>
    ((sprd_vdsp_result \<times> vdsp_handle \<times> request list) \<times> client_state) option" where
  "open_section type ret s =
     (let (fd, s1) = Alloc_Fd s; h = \<lparr>hnd_fd = fd, hnd_generation = gGeneration s1\<rparr>
      in if fd < 0 then Some ((SPRD_VDSP_RESULT_FAIL, \<lparr>hnd_fd = - 1, hnd_generation = 0xffffffff\<rparr>, []), s1)
         else if gOpenedCount s1 = 0 then
           (if ret = 0
            then Some ((SPRD_VDSP_RESULT_SUCCESS, h, [R_open type]),
                   s1\<lparr>gOpenedCount := gOpenedCount s1 + 1, gWorkType := type\<rparr>)
            else do {
              (_, s2) \<leftarrow> (if 0 < fd then Free_Fd fd s1 else Some (0, s1));
              Some ((SPRD_VDSP_RESULT_FAIL, h, [R_open type]), s2)
            })
         else if type = gWorkType s1
           then Some ((SPRD_VDSP_RESULT_SUCCESS, h, []), s1\<lparr>gOpenedCount := gOpenedCount s1 + 1\<rparr>)
         else do {
           (_, s2) \<leftarrow> Free_Fd fd s1;
           (_, s3) \<leftarrow> (if 0 < fd then Free_Fd fd s2 else Some (0, s2));
           Some ((SPRD_VDSP_RESULT_FAIL, h, []), s3)
         })"

text \<open>The handle is \<open>None\<close> in the result when it is not written; \<open>null\<close> tells that the caller passes none.\<close>

definition sprd_cavdsp_open_device :: "sprd_vdsp_worktype \<Rightarrow> bool \<Rightarrow> nat option \<Rightarrow> int \<Rightarrow> client_state \<Rightarrow>
    ((sprd_vdsp_result \<times> vdsp_handle option \<times> request list) \<times> client_state) option" where
  "sprd_cavdsp_open_device type null found ret s =
     (let (cs, s1) = getVdspService True found s
      in if null \<or> cs = None then Some ((SPRD_VDSP_RESULT_FAIL, None, []), s1)
         else map_option (\<lambda>((r, h, rs), s2). ((r, Some h, rs), s2)) (open_section type ret s1))"

definition close_section :: "vdsp_handle \<Rightarrow> int \<Rightarrow> client_state \<Rightarrow>
    ((sprd_vdsp_result \<times> request list) \<times> client_state) option" where
  "close_section h ret s =
     (if Check_GenrationValid (hnd_generation h) s \<noteq> 0 then Some ((SPRD_VDSP_RESULT_OLD_GENERATION, []), s)
      else do {
        valid \<leftarrow> Check_FdValid (hnd_fd h) s;
        (if valid \<noteq> 0 then Some ((SPRD_VDSP_RESULT_FAIL, []), s)
         else
           let s1 = s\<lparr>gOpenedCount := gOpenedCount s - 1\<rparr>
           in if gOpenedCount s1 = 0 then
                (if gWorking s1 \<noteq> 0 then Some ((SPRD_VDSP_RESULT_FAIL, []), s1)
                 else if ret = 0 then do {
                   (_, s2) \<leftarrow> Free_Fd (hnd_fd h) s1;
                   Some ((SPRD_VDSP_RESULT_SUCCESS, [R_close]), s2\<lparr>gWorkType := SPRD_VDSP_WORK_MAXTYPE\<rparr>)
                 }
                 else Some ((SPRD_VDSP_RESULT_FAIL, [R_close]), s1))
              else if g_FdInfo s1 ! nat (hnd_fd h) = 0 then do {
                (_, s2) \<leftarrow> Free_Fd (hnd_fd h) s1;
                Some ((SPRD_VDSP_RESULT_SUCCESS, []), s2)
              }
              else Some ((SPRD_VDSP_RESULT_FAIL, []), s1))
      })"

definition sprd_cavdsp_close_device :: "vdsp_handle option \<Rightarrow> int \<Rightarrow> client_state \<Rightarrow>
    ((sprd_vdsp_result \<times> request list) \<times> client_state) option" where
  "sprd_cavdsp_close_device handle ret s =
     (case handle of
        None \<Rightarrow> Some ((SPRD_VDSP_RESULT_FAIL, []), s)
      | Some h \<Rightarrow>
          (case getVdspService False None s of
             (None, s1) \<Rightarrow> Some ((SPRD_VDSP_RESULT_FAIL, []), s1)
           | (Some _, s1) \<Rightarrow> close_section h ret s1))"

section \<open>Commands\<close>

text \<open>
  The two sections of a command: the guards with the increments (\<open>Inl\<close> is a return value, \<open>Inr\<close> the
  descriptor it works on), and the decrements after the call.
\<close>

definition add_working :: "nat \<Rightarrow> int \<Rightarrow> client_state \<Rightarrow> client_state" where
  "add_working fd d s = s\<lparr>g_FdInfo := (g_FdInfo s)[fd := g_FdInfo s ! fd + d], gWorking := gWorking s + d\<rparr>"

definition command_begin :: "vdsp_handle \<Rightarrow> client_state \<Rightarrow> ((sprd_vdsp_result + nat) \<times> client_state) option" where
  "command_begin h s =
     (if Check_GenrationValid (hnd_generation h) s \<noteq> 0 then Some (Inl SPRD_VDSP_RESULT_OLD_GENERATION, s)
      else do {
        valid \<leftarrow> Check_FdValid (hnd_fd h) s;
        (if valid \<noteq> 0 then Some (Inl SPRD_VDSP_RESULT_FAIL, s)
         else if gOpenedCount s = 0 then Some (Inl SPRD_VDSP_RESULT_FAIL, s)
         else Some (Inr (nat (hnd_fd h)), add_working (nat (hnd_fd h)) 1 s))
      })"

definition command_end :: "nat \<Rightarrow> client_state \<Rightarrow> client_state" where
  "command_end fd s = add_working fd (- 1) s"

text \<open>What the four commands share; \<open>rq\<close> is the request, undefined where its preparation is.\<close>

definition client_command :: "vdsp_handle option \<Rightarrow> request option \<Rightarrow> int \<Rightarrow> client_state \<Rightarrow>
    ((sprd_vdsp_result \<times> request list) \<times> client_state) option" where
  "client_command handle rq ret s =
     (case getVdspService False None s of
        (cs, s1) \<Rightarrow>
          (case handle of
             None \<Rightarrow> Some ((SPRD_VDSP_RESULT_FAIL, []), s1)
           | Some h \<Rightarrow>
               if cs = None then Some ((SPRD_VDSP_RESULT_FAIL, []), s1)
               else do {
                 (b, s2) \<leftarrow> command_begin h s1;
                 (case b of
                    Inl r \<Rightarrow> Some ((r, []), s2)
                  | Inr fd \<Rightarrow> do {
                      q \<leftarrow> rq;
                      Some ((if ret = 0 then SPRD_VDSP_RESULT_SUCCESS else SPRD_VDSP_RESULT_FAIL, [q]), command_end fd s2)
                    })
               }))"

definition sprd_cavdsp_loadlibrary :: "vdsp_handle option \<Rightarrow> bytes \<Rightarrow> u64 sprd_vdsp_inout option \<Rightarrow> int \<Rightarrow> client_state \<Rightarrow>
    ((sprd_vdsp_result \<times> request list) \<times> client_state) option" where
  "sprd_cavdsp_loadlibrary handle name buffer ret s = client_command handle (Some (R_load name buffer)) ret s"

definition sprd_cavdsp_unloadlibrary :: "vdsp_handle option \<Rightarrow> bytes \<Rightarrow> int \<Rightarrow> client_state \<Rightarrow>
    ((sprd_vdsp_result \<times> request list) \<times> client_state) option" where
  "sprd_cavdsp_unloadlibrary handle name ret s = client_command handle (Some (R_unload name)) ret s"

definition sprd_cavdsp_power_hint :: "vdsp_handle option \<Rightarrow> int \<Rightarrow> u32 \<Rightarrow> int \<Rightarrow> client_state \<Rightarrow>
    ((sprd_vdsp_result \<times> request list) \<times> client_state) option" where
  "sprd_cavdsp_power_hint handle level acquire_release ret s =
     client_command handle (Some (R_hint level acquire_release)) ret s"

section \<open>Checksums\<close>

text \<open>
  The sums that a debug property makes \<open>sprd_cavdsp_send_cmd\<close> compute over the caller's memory before it
  sends. The loop over a block adds the bytes \<open>j + 1\<close> for \<open>j\<close> below the size; the running sum is not reset
  for an empty block. \<open>bytes_at\<close> gives the memory from an address on.
\<close>

primrec checksum_from :: "bytes \<Rightarrow> nat \<Rightarrow> nat \<Rightarrow> u64 \<Rightarrow> u64 option" where
  "checksum_from mem j 0 acc = Some acc"
| "checksum_from mem j (Suc n) acc =
     (if j + 1 < length mem
      then checksum_from mem (Suc j) n
             (if j = 0 then ucast (mem ! j) + ucast (mem ! (j + 1)) else acc + ucast (mem ! (j + 1)))
      else None)"

primrec checksum_blocks :: "(bytes \<times> u32) list \<Rightarrow> u64 \<Rightarrow> u64 list option" where
  "checksum_blocks [] acc = Some []"
| "checksum_blocks (b # bs) acc = do {
     sum \<leftarrow> checksum_from (fst b) 0 (unat (snd b)) acc;
     sums \<leftarrow> checksum_blocks bs sum;
     Some (sum # sums)
   }"

definition print_checksum_result :: "(bytes \<times> u32) list option \<Rightarrow> u32 \<Rightarrow> u64 list option" where
  "print_checksum_result buffer num =
     (case buffer of
        None \<Rightarrow> Some []
      | Some bs \<Rightarrow> if length bs < unat num then None else checksum_blocks (take (unat num) bs) 0)"

definition host_bytes :: "(u64 \<Rightarrow> bytes) \<Rightarrow> hptr \<Rightarrow> bytes" where
  "host_bytes bytes_at p = (case p of H_Null \<Rightarrow> [] | H_Addr a \<Rightarrow> bytes_at a | H_Data bs \<Rightarrow> bs)"

definition checksums :: "(u64 \<Rightarrow> bytes) \<Rightarrow> hptr sprd_vdsp_inout option \<Rightarrow> hptr sprd_vdsp_inout option \<Rightarrow>
    u64 sprd_vdsp_inout list option \<Rightarrow> u32 \<Rightarrow> unit option" where
  "checksums bytes_at input outp buffer bufnum = do {
     let block = (\<lambda>x. [(host_bytes bytes_at (vir_addr x), io_size x)]);
     _ \<leftarrow> print_checksum_result (map_option (map (\<lambda>x. (bytes_at (vir_addr x), io_size x))) buffer) bufnum;
     _ \<leftarrow> print_checksum_result (map_option block input) 1;
     _ \<leftarrow> print_checksum_result (map_option block outp) 1;
     Some ()
   }"

definition sprd_cavdsp_send_cmd :: "bool \<Rightarrow> (u64 \<Rightarrow> bytes) \<Rightarrow> vdsp_handle option \<Rightarrow> bytes \<Rightarrow>
    hptr sprd_vdsp_inout option \<Rightarrow> hptr sprd_vdsp_inout option \<Rightarrow> u64 sprd_vdsp_inout list option \<Rightarrow> u32 \<Rightarrow> u32 \<Rightarrow>
    int \<Rightarrow> client_state \<Rightarrow> ((sprd_vdsp_result \<times> request list) \<times> client_state) option" where
  "sprd_cavdsp_send_cmd check_sum_flag bytes_at handle ns input outp buffer bufnum priority ret s =
     client_command handle
       (do {
          _ \<leftarrow> (if check_sum_flag then checksums bytes_at input outp buffer bufnum else Some ());
          Some (R_send ns input outp buffer bufnum priority)
        }) ret s"

section \<open>The table of descriptors\<close>

unbundle bit_operations_syntax

lemma fd_bit:
  assumes "i < 32"
  shows "(t AND push_bit i 1 = 0) \<longleftrightarrow> \<not> bit (t :: u32) i"
    and "(drop_bit i (t XOR 0xffffffff) AND 1 \<noteq> 0) \<longleftrightarrow> \<not> bit t i"
    and "bit (t OR push_bit i 1) j \<longleftrightarrow> bit t j \<or> j = i"
    and "bit (t AND NOT (push_bit i 1)) j \<longleftrightarrow> bit t j \<and> j \<noteq> i"
proof -
  have bits: "bit (push_bit i (1 :: u32)) k \<longleftrightarrow> k = i" for k
    using assms by (auto simp: bit_push_bit_iff bit_1_iff simp del: push_bit_of_1)
  show "(t AND push_bit i 1 = 0) \<longleftrightarrow> \<not> bit t i"
  proof
    assume "t AND push_bit i 1 = 0"
    then have "\<not> bit (t AND push_bit i 1) i" by simp
    then show "\<not> bit t i" by (simp add: bit_and_iff bits del: push_bit_of_1)
  next
    assume "\<not> bit t i"
    then show "t AND push_bit i 1 = 0" by (intro bit_eqI) (auto simp: bit_and_iff bits simp del: push_bit_of_1)
  qed
  have all: "(0xffffffff :: u32) = - 1" by simp
  show "(drop_bit i (t XOR 0xffffffff) AND 1 \<noteq> 0) \<longleftrightarrow> \<not> bit t i"
    using assms by (simp add: and_one_eq odd_iff_mod_2_eq_one [symmetric] bit_iff_odd_drop_bit [symmetric] bit_not_iff all)
  show "bit (t OR push_bit i 1) j \<longleftrightarrow> bit t j \<or> j = i" by (auto simp: bit_or_iff bits simp del: push_bit_of_1)
  show "bit (t AND NOT (push_bit i 1)) j \<longleftrightarrow> bit t j \<and> j \<noteq> i"
    by (auto simp: bit_and_iff bit_not_iff bits dest: bit_imp_le_length simp del: push_bit_of_1)
qed

definition fd_used :: "client_state \<Rightarrow> nat \<Rightarrow> bool" where
  "fd_used s i \<longleftrightarrow> bit (g_fdtable s) i"

definition take_fd :: "nat \<Rightarrow> client_state \<Rightarrow> client_state" where
  "take_fd i s = s\<lparr>g_fdtable := g_fdtable s OR push_bit i 1\<rparr>"

definition drop_fd :: "nat \<Rightarrow> client_state \<Rightarrow> client_state" where
  "drop_fd i s = s\<lparr>g_fdtable := g_fdtable s AND NOT (push_bit i 1)\<rparr>"

lemma fd_used_simps [simp]:
  "i < 32 \<Longrightarrow> fd_used (take_fd i s) j \<longleftrightarrow> fd_used s j \<or> j = i"
  "i < 32 \<Longrightarrow> fd_used (drop_fd i s) j \<longleftrightarrow> fd_used s j \<and> j \<noteq> i"
  "fd_used (s\<lparr>gOpenedCount := n\<rparr>) j = fd_used s j"
  "fd_used (s\<lparr>gWorkType := t\<rparr>) j = fd_used s j"
  "fd_used (add_working k d s) j = fd_used s j"
  "fd_used (client_binderDied s) j = fd_used s j"
  by (simp_all add: fd_used_def take_fd_def drop_fd_def fd_bit add_working_def client_binderDied_def
      del: push_bit_of_1)

lemma take_drop_fd [simp]:
  "\<not> fd_used s i \<Longrightarrow> i < 32 \<Longrightarrow> drop_fd i (take_fd i s) = s"
proof -
  assume "\<not> fd_used s i" "i < 32"
  then have "(g_fdtable s OR push_bit i 1) AND NOT (push_bit i 1) = g_fdtable s"
    by (intro bit_eqI) (simp only: fd_bit, auto simp: fd_used_def)
  then show ?thesis by (simp add: take_fd_def drop_fd_def)
qed

lemma fd_fields [simp]:
  "gInitFlag (take_fd i s) = gInitFlag s" "gInitFlag (drop_fd i s) = gInitFlag s"
  "gGeneration (take_fd i s) = gGeneration s" "gGeneration (drop_fd i s) = gGeneration s"
  "gVdspService (take_fd i s) = gVdspService s" "gVdspService (drop_fd i s) = gVdspService s"
  "gOpenedCount (take_fd i s) = gOpenedCount s" "gOpenedCount (drop_fd i s) = gOpenedCount s"
  "gWorkType (take_fd i s) = gWorkType s" "gWorkType (drop_fd i s) = gWorkType s"
  "gWorking (take_fd i s) = gWorking s" "gWorking (drop_fd i s) = gWorking s"
  "g_FdInfo (take_fd i s) = g_FdInfo s" "g_FdInfo (drop_fd i s) = g_FdInfo s"
  by (simp_all add: take_fd_def drop_fd_def)

lemma alloc_fd_from_cases:
  assumes "i \<le> 32" and "\<forall>j<i. fd_used s j"
  shows "(\<forall>j<32. fd_used s j) \<and> alloc_fd_from i s = (- 1, s) \<or>
    (\<exists>k<32. \<not> fd_used s k \<and> (\<forall>j<k. fd_used s j) \<and> alloc_fd_from i s = (int k, take_fd k s))"
  using assms
proof (induction i s rule: alloc_fd_from.induct)
  case (1 i s)
  show ?case
  proof (cases "i = 32")
    case True
    then show ?thesis using "1.prems" by (simp add: alloc_fd_from.simps)
  next
    case False
    with "1.prems" have i: "i < 32" by simp
    show ?thesis
    proof (cases "fd_used s i")
      case True
      have "alloc_fd_from i s = alloc_fd_from (Suc i) s"
        by (subst alloc_fd_from.simps) (use i True in \<open>simp add: fd_bit(2) fd_used_def del: push_bit_of_1 drop_bit_xor\<close>)
      moreover have "\<forall>j<Suc i. fd_used s j" using "1.prems" True less_Suc_eq by auto
      ultimately show ?thesis using "1.IH" i True fd_bit(2) [OF i] by (simp add: fd_used_def)
    next
      case False
      then have "alloc_fd_from i s = (int i, take_fd i s)"
        by (subst alloc_fd_from.simps) (use i in \<open>simp add: fd_bit(2) fd_used_def take_fd_def del: push_bit_of_1 drop_bit_xor\<close>)
      then show ?thesis using i False "1.prems" by blast
    qed
  qed
qed

lemma Alloc_Fd_cases:
  obtains (full) "\<forall>j<32. fd_used s j" "Alloc_Fd s = (- 1, s)"
  | (free) k where "k < 32" "\<not> fd_used s k" "\<forall>j<k. fd_used s j" "Alloc_Fd s = (int k, take_fd k s)"
  using alloc_fd_from_cases [of 0 s] unfolding Alloc_Fd_def by auto

lemma Check_FdValid_used:
  "0 \<le> fd \<Longrightarrow> fd < 32 \<Longrightarrow> Check_FdValid fd s = Some (if fd_used s (nat fd) then 0 else - 1)"
  using fd_bit(1) [of "nat fd" "g_fdtable s"] by (auto simp: Check_FdValid_def fd_used_def)

lemma Free_Fd_used:
  "0 \<le> fd \<Longrightarrow> fd < 32 \<Longrightarrow> Free_Fd fd s = Some (if fd_used s (nat fd) then (0, drop_fd (nat fd) s) else (- 1, s))"
  using fd_bit(1) [of "nat fd" "g_fdtable s"] by (auto simp: Free_Fd_def fd_used_def drop_fd_def)

text \<open>What opening does, by the state it starts in; the third case is the one that keeps descriptor 0.\<close>

lemma open_section_cases:
  obtains (full) "\<forall>j<32. fd_used s j"
      "open_section type ret s = Some ((SPRD_VDSP_RESULT_FAIL, \<lparr>hnd_fd = - 1, hnd_generation = 0xffffffff\<rparr>, []), s)"
  | (first) k where "k < 32" "\<not> fd_used s k" "\<forall>j<k. fd_used s j" "gOpenedCount s = 0" "ret = 0"
      "open_section type ret s = Some ((SPRD_VDSP_RESULT_SUCCESS, \<lparr>hnd_fd = int k, hnd_generation = gGeneration s\<rparr>, [R_open type]),
         (take_fd k s)\<lparr>gOpenedCount := 1, gWorkType := type\<rparr>)"
  | (refused) k where "k < 32" "\<not> fd_used s k" "\<forall>j<k. fd_used s j" "gOpenedCount s = 0" "ret \<noteq> 0"
      "open_section type ret s = Some ((SPRD_VDSP_RESULT_FAIL, \<lparr>hnd_fd = int k, hnd_generation = gGeneration s\<rparr>, [R_open type]),
         if k = 0 then take_fd 0 s else s)"
  | (again) k where "k < 32" "\<not> fd_used s k" "\<forall>j<k. fd_used s j" "gOpenedCount s \<noteq> 0" "type = gWorkType s"
      "open_section type ret s = Some ((SPRD_VDSP_RESULT_SUCCESS, \<lparr>hnd_fd = int k, hnd_generation = gGeneration s\<rparr>, []),
         (take_fd k s)\<lparr>gOpenedCount := gOpenedCount s + 1\<rparr>)"
  | (mismatch) k where "k < 32" "\<not> fd_used s k" "\<forall>j<k. fd_used s j" "gOpenedCount s \<noteq> 0" "type \<noteq> gWorkType s"
      "open_section type ret s = Some ((SPRD_VDSP_RESULT_FAIL, \<lparr>hnd_fd = int k, hnd_generation = gGeneration s\<rparr>, []), s)"
proof (rule Alloc_Fd_cases [of s])
  assume "\<forall>j<32. fd_used s j" "Alloc_Fd s = (- 1, s)"
  then show thesis using full by (simp add: open_section_def)
next
  fix k assume k: "k < 32" "\<not> fd_used s k" "\<forall>j<k. fd_used s j" "Alloc_Fd s = (int k, take_fd k s)"
  show thesis
  proof (cases "gOpenedCount s = 0")
    case True
    show thesis
    proof (cases "ret = 0")
      case True
      then show thesis using first [OF k(1-3)] k \<open>gOpenedCount s = 0\<close> by (simp add: open_section_def)
    next
      case False
      then show thesis using refused [OF k(1-3)] k \<open>gOpenedCount s = 0\<close>
        by (simp add: open_section_def Free_Fd_used split: if_splits)
    qed
  next
    case False
    then show thesis
    proof (cases "type = gWorkType s")
      case True
      then show thesis using again [OF k(1-3)] k False by (simp add: open_section_def)
    next
      case ne: False
      then show thesis using mismatch [OF k(1-3)] k False
        by (simp add: open_section_def Free_Fd_used)
    qed
  qed
qed

end
