(* ===== verification/Client_Run.thy ===== *)
theory Client_Run
  imports Vdsp_Client
begin

text \<open>
  The client library with several threads and a service that dies: its runs as a step relation over the
  sections of its functions, their invariant, and the properties of opening, closing and commands.
\<close>

section \<open>Runs of the client library\<close>

text \<open>
  The sections of all threads of a process in any order. Beside the library's state a run keeps the handles
  opened since the service was last looked up and not yet closed, the descriptors of the commands in progress
  that began since then (\<open>flights\<close>) or before (\<open>older\<close>), and of the older ones that have ended since
  (\<open>late\<close>). A command may use any handle; a close, only a handle that was opened and not closed.
\<close>

record client_run =
  lib :: client_state
  handles :: "vdsp_handle multiset"
  flights :: "nat multiset"
  older :: "nat multiset"
  late :: "nat multiset"



definition handle_ok :: "client_state \<Rightarrow> vdsp_handle \<Rightarrow> bool" where
  "handle_ok s h \<longleftrightarrow> 0 \<le> hnd_fd h \<and> hnd_fd h < 32 \<and> fd_used s (nat (hnd_fd h))"

definition handles_ok :: "client_state \<Rightarrow> vdsp_handle multiset \<Rightarrow> bool" where
  "handles_ok s hs \<longleftrightarrow> (\<forall>h \<in># hs. handle_ok s h) \<and> (\<forall>fd. count (image_mset hnd_fd hs) fd \<le> 1) \<and>
     gOpenedCount s = int (size hs)"

definition working_ok :: "client_run \<Rightarrow> bool" where
  "working_ok r \<longleftrightarrow> length (g_FdInfo (lib r)) = 32 \<and> (\<forall>fd \<in># flights r + older r. fd < 32) \<and>
     gWorking (lib r) = int (size (flights r) + size (older r)) \<and>
     (\<forall>fd<32. g_FdInfo (lib r) ! fd = int (count (flights r) fd) - int (count (late r) fd))"



lemma handle_ok_fields [simp]:
  "handle_ok (s\<lparr>gOpenedCount := n\<rparr>) h = handle_ok s h" "handle_ok (s\<lparr>gWorkType := t\<rparr>) h = handle_ok s h"
  "handle_ok (add_working k d s) h = handle_ok s h" "handle_ok (client_binderDied s) h = handle_ok s h"
  by (simp_all add: handle_ok_def)

lemma handles_ok_empty [simp]: "handles_ok s {#} \<longleftrightarrow> gOpenedCount s = 0"
  by (simp add: handles_ok_def)

lemma handles_ok_fields [simp]:
  "handles_ok (add_working k d s) hs = handles_ok s hs" "handles_ok (client_binderDied s) hs = handles_ok s hs"
  by (simp_all add: handles_ok_def) (simp_all add: add_working_def client_binderDied_def)


lemma handles_ok_type [simp]: "handles_ok (s\<lparr>gWorkType := t\<rparr>) hs = handles_ok s hs"
  by (simp add: handles_ok_def)




text \<open>Commands in progress.\<close>

lemma working_ok_cong:
  "working_ok r \<Longrightarrow> g_FdInfo s = g_FdInfo (lib r) \<Longrightarrow> gWorking s = gWorking (lib r) \<Longrightarrow>
   working_ok \<lparr>lib = s, handles = hs, flights = flights r, older = older r, late = late r\<rparr>"
  by (simp add: working_ok_def)





section \<open>The invariant\<close>







text \<open>Opening when the lowest free descriptor is known.\<close>

lemma open_section_at:
  assumes "k < 32" and "\<not> fd_used s k" and "\<forall>j<k. fd_used s j"
  shows "open_section type ret s =
    (let h = \<lparr>hnd_fd = int k, hnd_generation = gGeneration s\<rparr>
     in if gOpenedCount s = 0 then
          (if ret = 0 then Some ((SPRD_VDSP_RESULT_SUCCESS, h, [R_open type]), (take_fd k s)\<lparr>gOpenedCount := 1, gWorkType := type\<rparr>)
           else Some ((SPRD_VDSP_RESULT_FAIL, h, [R_open type]), if k = 0 then take_fd 0 s else s))
        else if type = gWorkType s
          then Some ((SPRD_VDSP_RESULT_SUCCESS, h, []), (take_fd k s)\<lparr>gOpenedCount := gOpenedCount s + 1\<rparr>)
        else Some ((SPRD_VDSP_RESULT_FAIL, h, []), s))"
proof (rule Alloc_Fd_cases [of s])
  fix k' assume *: "k' < 32" "\<not> fd_used s k'" "\<forall>j<k'. fd_used s j" "Alloc_Fd s = (int k', take_fd k' s)"
  then have "k' = k" using assms by (meson nat_neq_iff)
  then show ?thesis using * by (simp add: open_section_def Free_Fd_used Let_def)
qed (use assms in auto)

section \<open>A run\<close>

text \<open>The service is found and one thread opens the device.\<close>

definition client_ready :: client_state where
  "client_ready = snd (getVdspService True (Some 5) initial_client)"

definition demo_client :: client_run where
  "demo_client = \<lparr>lib = (take_fd 0 client_ready)\<lparr>gOpenedCount := 1, gWorkType := SPRD_VDSP_WORK_NORMAL\<rparr>,
     handles = {#\<lparr>hnd_fd = 0, hnd_generation = 0\<rparr>#}, flights = {#}, older = {#}, late = {#}\<rparr>"

lemma client_ready_simps [simp]:
  "gVdspService client_ready = Some 5" "gOpenedCount client_ready = 0" "gGeneration client_ready = 0"
  "gWorking client_ready = 0" "g_FdInfo client_ready = replicate 32 0" "g_fdtable client_ready = 0"
  by (simp_all add: client_ready_def getVdspService_def initial_client_def)

lemma fd_used_ready [simp]: "\<not> fd_used client_ready i"
  by (simp add: fd_used_def)




section \<open>Properties\<close>







lemma command_undone: "fd < length (g_FdInfo s) \<Longrightarrow> command_end fd (add_working fd 1 s) = s"
  by (simp add: command_end_def add_working_def)

lemma client_command_eq:
  assumes "gVdspService s \<noteq> None" and "length (g_FdInfo s) = 32" and "0 \<le> hnd_fd h" and "hnd_fd h < 32"
  shows "client_command (Some h) rq ret s =
    (if hnd_generation h \<noteq> gGeneration s then Some ((SPRD_VDSP_RESULT_OLD_GENERATION, []), s)
     else if \<not> (bit (g_fdtable s) (nat (hnd_fd h)) \<and> gOpenedCount s \<noteq> 0) then Some ((SPRD_VDSP_RESULT_FAIL, []), s)
     else map_option (\<lambda>q. ((if ret = 0 then SPRD_VDSP_RESULT_SUCCESS else SPRD_VDSP_RESULT_FAIL, [q]), s)) rq)"
  using assms Check_FdValid_used [of "hnd_fd h" s] command_undone [of "nat (hnd_fd h)" s]
  by (cases rq) (auto simp: client_command_def getVdspService_def command_begin_def Check_GenrationValid_def fd_used_def)

lemma checksum_overrun: "0 < n \<Longrightarrow> length mem \<le> j + n \<Longrightarrow> checksum_from mem j n acc = None"
  by (induction n arbitrary: j acc) auto

text \<open>A block with one more byte behind it: the sum of all of them.\<close>

lemma checksum_sum:
  "0 < j \<Longrightarrow> j + n < length mem \<Longrightarrow> checksum_from mem j n acc = Some (acc + (\<Sum>b \<leftarrow> take n (drop (Suc j) mem). ucast b))"
proof (induction n arbitrary: j acc)
  case (Suc n)
  have "take (Suc n) (drop (Suc j) mem) = mem ! Suc j # take n (drop (Suc (Suc j)) mem)"
    using Suc.prems by (metis Cons_nth_drop_Suc add_Suc_right add_lessD1 add_Suc less_trans_Suc plus_1_eq_Suc take_Suc_Cons
        linorder_not_le Suc_leI le_add1 add.commute le_less_trans)
  then show ?case using Suc.IH [of "Suc j"] Suc.prems by (simp add: add.assoc)
qed simp

text \<open>
  C32. The four commands of the client, once the service has been found. A handle of an earlier generation is
  refused as such; one with a descriptor not in use, or with nothing open, fails; neither reaches the
  service. Otherwise exactly one request is made with the arguments given, while both working counts are one
  higher, and the result is SUCCESS exactly if the service answers 0. In every case the library's state is
  as before. With the checksum property set, a command with a buffer that ends where its memory ends is
  undefined: the sum reads one byte more.
\<close>

theorem client_commands_correct:
  assumes "gVdspService s \<noteq> None" and "length (g_FdInfo s) = 32" and "0 \<le> hnd_fd h" and "hnd_fd h < 32"
  shows "(let goes = hnd_generation h = gGeneration s \<and> bit (g_fdtable s) (nat (hnd_fd h)) \<and> gOpenedCount s \<noteq> 0;
       outcome = (\<lambda>rq. Some (
         (if hnd_generation h \<noteq> gGeneration s then (SPRD_VDSP_RESULT_OLD_GENERATION, [])
          else if \<not> goes then (SPRD_VDSP_RESULT_FAIL, [])
          else (if ret = 0 then SPRD_VDSP_RESULT_SUCCESS else SPRD_VDSP_RESULT_FAIL, [rq]), s)))
     in sprd_cavdsp_send_cmd False bytes_at (Some h) ns input outp buffer bufnum prio ret s =
          outcome (R_send ns input outp buffer bufnum prio) \<and>
        sprd_cavdsp_loadlibrary (Some h) name x ret s = outcome (R_load name x) \<and>
        sprd_cavdsp_unloadlibrary (Some h) name ret s = outcome (R_unload name) \<and>
        sprd_cavdsp_power_hint (Some h) level acquire_release ret s = outcome (R_hint level acquire_release) \<and>
        (goes \<longrightarrow> (\<exists>s'. command_begin h s = Some (Inr (nat (hnd_fd h)), s') \<and> gWorking s' = gWorking s + 1 \<and>
           g_FdInfo s' ! nat (hnd_fd h) = g_FdInfo s ! nat (hnd_fd h) + 1) \<and>
         (io_size b \<noteq> 0 \<and> length (bytes_at (vir_addr b)) = unat (io_size b) \<longrightarrow>
           sprd_cavdsp_send_cmd True bytes_at (Some h) ns input outp (Some [b]) 1 prio ret s = None)))"
proof -
  have "sprd_cavdsp_send_cmd True bytes_at (Some h) ns input outp (Some [b]) 1 prio ret s = None"
    if "io_size b \<noteq> 0" "length (bytes_at (vir_addr b)) = unat (io_size b)" "hnd_generation h = gGeneration s"
      "bit (g_fdtable s) (nat (hnd_fd h))" "gOpenedCount s \<noteq> 0"
  proof -
    have "checksum_from (bytes_at (vir_addr b)) 0 (unat (io_size b)) 0 = None"
      using that by (intro checksum_overrun) (simp_all add: unat_gt_0)
    then show ?thesis using that client_command_eq [OF assms]
      by (simp add: sprd_cavdsp_send_cmd_def checksums_def print_checksum_result_def)
  qed
  moreover have "\<exists>s'. command_begin h s = Some (Inr (nat (hnd_fd h)), s') \<and> gWorking s' = gWorking s + 1 \<and>
      g_FdInfo s' ! nat (hnd_fd h) = g_FdInfo s ! nat (hnd_fd h) + 1"
    if "hnd_generation h = gGeneration s" "bit (g_fdtable s) (nat (hnd_fd h))" "gOpenedCount s \<noteq> 0"
    using that assms Check_FdValid_used [of "hnd_fd h" s]
    by (auto simp: command_begin_def Check_GenrationValid_def fd_used_def add_working_def)
  ultimately show ?thesis
    using client_command_eq [OF assms]
    by (auto simp: Let_def sprd_cavdsp_send_cmd_def sprd_cavdsp_loadlibrary_def sprd_cavdsp_unloadlibrary_def
        sprd_cavdsp_power_hint_def)
qed

theorem client_commands_correct_witness:
  "sprd_cavdsp_unloadlibrary (Some \<lparr>hnd_fd = 0, hnd_generation = 0\<rparr>) [97] 0 (lib demo_client) =
     Some ((SPRD_VDSP_RESULT_SUCCESS, [R_unload [97]]), lib demo_client)"
  using client_commands_correct [of "lib demo_client" "\<lparr>hnd_fd = 0, hnd_generation = 0\<rparr>" 0 _ _ _ _ _ _ _ "[97]"]
  by (simp add: demo_client_def take_fd_def)

text \<open>
  A failed open can close the device under another thread. When the service refuses the first open,
  descriptor 0 stays allocated and the handle stays valid; if another thread then opens the device, closing
  the failed handle succeeds, closes the device at the service, and leaves the other thread's handle with
  nothing open.
\<close>

theorem failed_open_closes_others:
  assumes "gOpenedCount s = 0" and "gWorking s = 0" and "\<not> bit (g_fdtable s) 0" and "\<not> bit (g_fdtable s) 1" and "ret \<noteq> 0"
  shows "\<exists>h0 h1 s1 s2 s3. open_section type ret s = Some ((SPRD_VDSP_RESULT_FAIL, h0, [R_open type]), s1) \<and>
    open_section type' 0 s1 = Some ((SPRD_VDSP_RESULT_SUCCESS, h1, [R_open type']), s2) \<and> hnd_fd h0 \<noteq> hnd_fd h1 \<and>
    close_section h0 0 s2 = Some ((SPRD_VDSP_RESULT_SUCCESS, [R_close]), s3) \<and>
    command_begin h1 s3 = Some (Inl SPRD_VDSP_RESULT_FAIL, s3)"
proof -
  let ?s1 = "take_fd 0 s"
  have used: "\<not> fd_used s 0" "\<not> fd_used s 1" using assms(3,4) by (simp_all add: fd_used_def)
  have first: "open_section type ret s =
      Some ((SPRD_VDSP_RESULT_FAIL, \<lparr>hnd_fd = 0, hnd_generation = gGeneration s\<rparr>, [R_open type]), ?s1)"
    using open_section_at [of 0 s type ret] used assms by simp
  let ?s2 = "(take_fd 1 ?s1)\<lparr>gOpenedCount := 1, gWorkType := type'\<rparr>"
  have second: "open_section type' 0 ?s1 =
      Some ((SPRD_VDSP_RESULT_SUCCESS, \<lparr>hnd_fd = 1, hnd_generation = gGeneration s\<rparr>, [R_open type']), ?s2)"
    using open_section_at [of 1 ?s1 type' 0] used assms by simp
  have "\<exists>s3. close_section \<lparr>hnd_fd = 0, hnd_generation = gGeneration s\<rparr> 0 ?s2 = Some ((SPRD_VDSP_RESULT_SUCCESS, [R_close]), s3) \<and>
      gOpenedCount s3 = 0 \<and> gGeneration s3 = gGeneration s \<and> fd_used s3 1"
    using assms(2) by (simp add: close_section_def Check_GenrationValid_def Check_FdValid_used Free_Fd_used)
  then show ?thesis using first second
    by (fastforce simp: command_begin_def Check_GenrationValid_def Check_FdValid_used)
qed

theorem failed_open_closes_others_witness:
  "\<exists>h0 s1. open_section SPRD_VDSP_WORK_FACEID (- 1) client_ready = Some ((SPRD_VDSP_RESULT_FAIL, h0, [R_open SPRD_VDSP_WORK_FACEID]), s1)"
  using failed_open_closes_others [of client_ready "- 1"] by simp blast

end
