(* ===== verification/End_To_End.thy ===== *)
theory End_To_End
  imports Service_Correct Client_Run
begin

text \<open>
  A process with the client library, the binder and the service together: the requests that the library
  makes are written by the proxies, read by \<open>onTransact\<close> and handled by the service, which other clients
  use at the same time.
\<close>

section \<open>A call through the binder\<close>




section \<open>Runs\<close>



definition set_served :: "service_state \<Rightarrow> run_state \<Rightarrow> run_state" where
  "set_served st r = r\<lparr>svc := fst st, wld := snd st\<rparr>"





section \<open>What the service's steps leave alone\<close>

lemma open_num_without:
  "table_ok D (mClientInfo s) \<Longrightarrow> x \<noteq> client \<Longrightarrow> open_num (mClientInfo (without client m s)) x = open_num (mClientInfo s) x"
  by (simp add: open_num_def entry_erase table_ok_def)

lemma died_open_num:
  assumes inv: "run_inv (n + (case entry (mClientInfo (svc r)) client of Some c \<Rightarrow> length (mloadinfo c) | None \<Rightarrow> 0)) r"
    and l: "load_lock r = Some (Cleaning client)" "hint_lock r = None" and mem: "length mem = 44"
    and o: "binderDied mem client (svc r, wld r) = Some (x, s, w)" and ne: "y \<noteq> client"
  shows "open_num (mClientInfo s) y = open_num (mClientInfo (svc r)) y"
proof (cases "entry (mClientInfo (svc r)) client")
  case None
  then show ?thesis using o binder_died_gone [OF None] by simp
next
  case (Some c)
  have ok: "svc_ok {} 0 (svc r)" and rd: "ready (svc r) (wld r) (n + length (mloadinfo c))"
    using inv l Some by (simp_all add: run_inv_def)
  have "table_ok {} (mClientInfo (svc r))" using ok by (simp add: svc_ok_def)
  then show ?thesis using binder_died_ok [OF ok Some rd mem] o ne open_num_without
    by (auto simp: open_num_def entry_cleared entry_erase table_ok_def split: if_splits)
qed

text \<open>Opening and closing count for the client that does it.\<close>

lemma open_num_opened:
  assumes "run_inv (n + 1) r" and "unsaturated r" and "openXrpDevice client type (svc r, wld r) = Some (ret, s, w)"
  shows "open_num (mClientInfo s) x = open_num (mClientInfo (svc r)) x + (if ret = 0 \<and> x = client then 1 else 0)"
proof -
  have "uint (mopen_count (svc r)) < 2 ^ 32 - 1" using assms(2) by (simp add: unsaturated_def)
  then have "mClientInfo s = (if ret = 0 then add_open client (mClientInfo (svc r)) else mClientInfo (svc r))"
    using assms(1,3) open_ok [of "waits r" "gap r" "svc r" "wld r" n client type] by (auto simp: run_inv_def split: if_splits)
  then show ?thesis by (auto simp: open_num_add)
qed

lemma open_num_closed:
  assumes inv: "run_inv n r" and o: "closeXrpDevice client (svc r, wld r) = Some (ret, s, w)"
  shows "open_num (mClientInfo s) x = open_num (mClientInfo (svc r)) x - (if ret = 0 \<and> x = client then 1 else 0)"
proof -
  let ?cs = "mClientInfo (svc r)"
  have c: "if open_num ?cs client = 0 then ret = - 3 \<and> s = svc r
     else if mopen_count (svc r) = 1 \<and> mworking (svc r) \<noteq> 0 then ret = - 2 \<and> s = svc r
     else ret = 0 \<and> mClientInfo s = dec_open client ?cs"
    using close_ok [of "waits r" "gap r" "svc r" "wld r" n client] open_num_open [OF inv, of client] inv o
    by (auto simp: run_inv_def split: if_splits)
  show ?thesis
  proof (cases "ret = 0")
    case True
    then have "mClientInfo s = dec_open client ?cs" "entry ?cs client \<noteq> None"
      using c by (auto simp: open_num_def split: if_splits option.splits)
    then show ?thesis using True open_num_dec [OF run_inv_table [OF inv]] by simp
  next
    case False
    then show ?thesis using c by (auto split: if_splits)
  qed
qed

text \<open>Only its own opens and closes, or its death, change what a client has open.\<close>

lemma step_open_num:
  assumes "svc_step k r r'" and "run_inv (n + k) r" and "alive x r" and "alive x r'"
  shows "GetClientOpenNum x (svc r') = GetClientOpenNum x (svc r) \<or>
    (\<exists>type ret w. openXrpDevice x type (svc r, wld r) = Some (ret, svc r', w)) \<or>
    (\<exists>ret w. closeXrpDevice x (svc r, wld r) = Some (ret, svc r', w))"
  using assms
proof (induction rule: svc_step.induct)
  case (open_device client r type ret s w)
  then show ?case using open_num_opened [of n r client type ret s w x] by (cases "x = client") (auto simp: GetClientOpenNum_eq)
next
  case (close_device client r ret s w)
  then show ?case using open_num_closed [of n r client ret s w x] by (cases "x = client") (auto simp: GetClientOpenNum_eq)
next
  case (send_begin client r s)
  then show ?case by (auto simp: sendXrpCommand_begin_def split: if_splits)
next
  case (send_end r m ns input outp buffer k prio f b w)
  then show ?case by (simp add: sendXrpCommand_end_def)
next
  case (load_begin client r name s)
  then show ?case using load_begin_ok(1) by fastforce
next
  case (load_more client r name s s')
  then have "svc_ok (waits r) (gap r) s" "client \<notin> waits r" "s = (svc r)\<lparr>mworking := mworking (svc r) + 1\<rparr>"
    using load_begin_ok [of client name "svc r" False s] waits_alive [of client r] by (auto simp: run_inv_def)
  then show ?case using load_end_ok [of "waits r" "gap r" s name client 0] load_more by (auto simp: GetClientOpenNum_eq)
next
  case (load_end r client name mem input ret w s)
  then show ?case using load_end_ok [of "waits r" "gap r" "svc r" name client ret] by (auto simp: GetClientOpenNum_eq run_inv_def)
next
  case (unload_begin client r name s)
  then show ?case using unload_begin_ok [of "waits r" "gap r" "svc r" client name] waits_alive [of client r]
    by (auto simp: GetClientOpenNum_eq run_inv_def)
next
  case (unload_fewer client r name s)
  then show ?case using unload_begin_ok [of "waits r" "gap r" "svc r" client name] waits_alive [of client r]
    by (auto simp: GetClientOpenNum_eq run_inv_def unloadXrpLibrary_end_def)
next
  case (unload_end r name mem ret w)
  then show ?case by (simp add: unloadXrpLibrary_end_def)
next
  case (hint_begin client r level s a)
  then show ?case by (auto simp: powerHint_begin_def split: if_splits)
next
  case (hint_end r client level a d ret w ret' s)
  then show ?case using hint_end_ok [of "waits r" "gap r" "svc r" level client a ret] by (auto simp: GetClientOpenNum_eq run_inv_def)
next
  case (died_lock client r)
  then show ?case by simp
next
  case (died r client mem b s w)
  then have "x \<noteq> client" by (auto simp: alive_def)
  then show ?case using died died_open_num [of n r client mem b s w x] by (simp add: GetClientOpenNum_eq)
next
  case (died_again r client i k b s w)
  then have "x \<noteq> client" by (auto simp: alive_def)
  then show ?case
    using again_result [of n r client i k] died_again open_num_without [OF run_inv_table [of n r], of x client]
    by (auto simp: GetClientOpenNum_eq split: if_splits)
qed

section \<open>The invariant\<close>





lemma served_simps [simp]:
  "alive x (set_served st r) = alive x r" "svc (set_served st r) = fst st" "wld (set_served st r) = snd st"
  by (simp_all add: alive_def set_served_def)

lemma set_served_same [simp]: "set_served (svc r, wld r) r = r"
  by (cases r) (simp add: set_served_def)








section \<open>Properties\<close>





end
