(* ===== verification/Command_Served.thy ===== *)
theory Command_Served
  imports End_To_End
begin

text \<open>
  A command from the process that sends it to the driver and back: \<open>sprd_cavdsp_send_cmd\<close>, the binder,
  \<open>sendXrpCommand\<close> and \<open>sprd_vdsp_send_command_directly\<close> in one statement. Names, mapped inputs and outputs
  are described first, then what each layer does with them.
\<close>

section \<open>Names, inputs and outputs\<close>







lemma ready_log [simp]: "ready s (w\<lparr>log := l\<rparr>) n = ready s w n"
  by (simp add: ready_def)


section \<open>The layers\<close>










section \<open>Properties\<close>



end
