(* ===== verification/Raster.thy ===== *)
theory Raster
  imports Xrp_Prelude
begin

text \<open>
  Loops over the rows and columns of an image. A buffer is an array of slots; a loop that leaves a buffer's
  bounds or reads a byte nobody wrote is undefined.
\<close>

section \<open>Counting loops\<close>

text \<open>\<open>for (i = 0; i < n; i++)\<close> with the body \<open>f\<close>.\<close>

primrec for_upto :: "nat \<Rightarrow> (nat \<Rightarrow> 's \<Rightarrow> 's option) \<Rightarrow> 's \<Rightarrow> 's option" where
  "for_upto 0 f s = Some s"
| "for_upto (Suc n) f s = do { s1 \<leftarrow> for_upto n f s; f n s1 }"

lemma for_upto_inv:
  assumes "P 0 s" and "\<And>i s. i < n \<Longrightarrow> P i s \<Longrightarrow> \<exists>s'. f i s = Some s' \<and> P (Suc i) s'"
  shows "\<exists>s'. for_upto n f s = Some s' \<and> P n s'"
  using assms(2)
proof (induction n)
  case 0
  then show ?case using assms(1) by simp
next
  case (Suc n)
  from Suc.prems have "\<And>i s. i < n \<Longrightarrow> P i s \<Longrightarrow> \<exists>s'. f i s = Some s' \<and> P (Suc i) s'" by (meson less_SucI)
  then obtain s1 where "for_upto n f s = Some s1" "P n s1" using Suc.IH by blast
  then show ?case using Suc.prems [of n s1] by auto
qed

text \<open>
  A loop whose round \<open>i\<close> stores at the positions \<open>own i\<close>, at each the value \<open>v\<close> says, whatever was there before.
  \<open>paints A v\<close> is what such a loop does to a buffer.
\<close>

definition paints :: "nat set \<Rightarrow> (nat \<Rightarrow> 'a) \<Rightarrow> 'a list \<Rightarrow> 'a list" where
  "paints A v s = map (\<lambda>k. if k \<in> A then v k else s ! k) [0..<length s]"

lemma length_paints [simp]: "length (paints A v s) = length s"
  by (simp add: paints_def)

lemma nth_paints [simp]: "k < length s \<Longrightarrow> paints A v s ! k = (if k \<in> A then v k else s ! k)"
  by (simp add: paints_def)

lemma paints_paints: "paints B v (paints A v s) = paints (A \<union> B) v s"
  by (rule nth_equalityI) auto

lemma paints_none [simp]: "paints {} v s = s"
  by (rule nth_equalityI) auto

lemma paints_all: "{..<length s} \<subseteq> A \<Longrightarrow> paints A v s = map v [0..<length s]"
  by (rule nth_equalityI) auto

lemma paints_update: "i < length s \<Longrightarrow> v i = x \<Longrightarrow> s[i := x] = paints {i} v s"
  by (rule nth_equalityI) (auto simp: nth_list_update)

lemma for_upto_paints:
  assumes "\<And>i s. i < n \<Longrightarrow> length s = L \<Longrightarrow> f i s = Some (paints (own i) v s)" and "length s = L"
  shows "for_upto n f s = Some (paints (\<Union>i<n. own i) v s)"
proof -
  have "\<exists>s'. for_upto n f s = Some s' \<and> s' = paints (\<Union>i<n. own i) v s"
  proof (rule for_upto_inv)
    fix i s' assume i: "i < n" "s' = paints (\<Union>j<i. own j) v s"
    have "(\<Union>j<i. own j) \<union> own i = (\<Union>j<Suc i. own j)" by (auto simp: less_Suc_eq)
    then show "\<exists>t. f i s' = Some t \<and> t = paints (\<Union>j<Suc i. own j) v s"
      using assms i by (simp add: paints_paints)
  qed simp
  then show ?thesis by simp
qed

text \<open>Rows and columns.\<close>

lemma raster_paints:
  assumes "\<And>i j s. i < h \<Longrightarrow> j < w \<Longrightarrow> length s = L \<Longrightarrow> f i j s = Some (paints (own i j) v s)" and "length s = L"
  shows "for_upto h (\<lambda>i. for_upto w (f i)) s = Some (paints (\<Union>i<h. \<Union>j<w. own i j) v s)"
  using assms(2)
proof (rule for_upto_paints [rotated])
  fix i s assume "i < h" "length (s :: 'a list) = L"
  then show "for_upto w (f i) s = Some (paints (\<Union>j<w. own i j) v s)" using assms(1) by (intro for_upto_paints) auto
qed

section \<open>Positions\<close>

text \<open>Byte \<open>c\<close> of pixel \<open>j\<close> in row \<open>i\<close>, three bytes a pixel.\<close>

definition pos3 :: "nat \<Rightarrow> nat \<Rightarrow> nat \<Rightarrow> nat \<Rightarrow> nat" where
  "pos3 w i j c = (i * w + j) * 3 + c"

lemma pos3_less: "i < h \<Longrightarrow> j < w \<Longrightarrow> c < 3 \<Longrightarrow> pos3 w i j c < h * w * 3"
proof -
  assume a: "i < h" "j < w" "c < 3"
  then have "Suc (i * w + j) \<le> Suc i * w" by simp
  also have "\<dots> \<le> h * w" using a(1) by (intro mult_le_mono) simp_all
  finally show ?thesis using a(3) by (simp add: pos3_def)
qed

lemma pos3_parts [simp]:
  assumes "j < w" and "c < 3"
  shows "pos3 w i j c mod 3 = c" "pos3 w i j c div 3 mod w = j" "pos3 w i j c div 3 div w = i"
proof -
  have p: "pos3 w i j c div 3 = i * w + j" "pos3 w i j c mod 3 = c" using assms(2) unfolding pos3_def by presburger+
  show "pos3 w i j c mod 3 = c" "pos3 w i j c div 3 mod w = j" "pos3 w i j c div 3 div w = i"
    using assms(1) by (simp_all add: p)
qed

lemma pos3_of: "w \<noteq> 0 \<Longrightarrow> k = pos3 w (k div 3 div w) (k div 3 mod w) (k mod 3)"
  by (simp add: pos3_def)

lemma pos3_cover: "0 < w \<Longrightarrow> k < h * w * 3 \<Longrightarrow> \<exists>i<h. \<exists>j<w. \<exists>c<3. k = pos3 w i j c"
proof -
  assume a: "0 < w" "k < h * w * 3"
  have "k div 3 < h * w" using a(2) by (simp add: less_mult_imp_div_less)
  then have "k div 3 div w < h" by (simp add: less_mult_imp_div_less)
  moreover have "k div 3 mod w < w" "k mod 3 < 3" using a(1) by simp_all
  ultimately show ?thesis using pos3_of [of w k] a(1) by blast
qed

text \<open>Byte \<open>j\<close> of row \<open>i\<close>, \<open>n\<close> bytes a row.\<close>

lemma row_less: "i < h \<Longrightarrow> j < n \<Longrightarrow> i * n + j < h * (n :: nat)"
proof -
  assume "i < h" "j < n"
  then have "i * n + j < Suc i * n" by simp
  also have "\<dots> \<le> h * n" using \<open>i < h\<close> by (intro mult_le_mono) simp_all
  finally show ?thesis .
qed

lemma row_cover: "k < h * n \<Longrightarrow> \<exists>i<h. \<exists>j<n. k = i * n + (j :: nat)"
proof -
  assume k: "k < h * n"
  then have "0 < n" by (cases n) simp_all
  then have "k div n < h" "k mod n < n" using k by (simp_all add: less_mult_imp_div_less)
  then show ?thesis by (metis div_mult_mod_eq)
qed

end
