(* ===== verification/Bmp_File.thy ===== *)
theory Bmp_File
  imports Raster "HOL-Library.Signed_Division"
begin

text \<open>
  The bitmap files of the HDR test case, \<open>systest-cases/hdr/bmp.cpp\<close>: writing an image of 24-bit pixels to a
  file and reading one back. Rows are stored bottom up and padded to a multiple of four bytes.
\<close>

type_synonym buffer = "u8 slots"

section \<open>Machine integers\<close>

text \<open>The value of an expression of type \<open>int\<close>; a signed overflow is undefined.\<close>

definition i32 :: "int \<Rightarrow> int option" where
  "i32 x = (if - (2 ^ 31) \<le> x \<and> x < 2 ^ 31 then Some x else None)"

lemma i32_fits [simp]: "0 \<le> x \<Longrightarrow> x < 2 ^ 31 \<Longrightarrow> i32 x = Some x"
  by (simp add: i32_def)

lemma i32_nat: "n < 2 ^ 31 \<Longrightarrow> i32 (int n) = Some (int n)"
proof -
  assume "n < 2 ^ 31"
  then have "int n < int (2 ^ 31)" by (simp only: of_nat_less_iff)
  then show ?thesis by simp
qed

text \<open>\<open>WIDTH_BYTES\<close>: the bytes of a row, rounded up to a multiple of four.\<close>

definition WIDTH_BYTES :: "int \<Rightarrow> int option" where
  "WIDTH_BYTES bits = do { x \<leftarrow> i32 (bits + 31); Some ((x sdiv 32) * 4) }"

section \<open>Headers\<close>

record BITMAPFILEHEADER1 =
  bfType :: u16
  bfSize :: u32
  bfReserved1 :: u16
  bfReserved2 :: u16
  bfOffBits :: u32

record BITMAPINFOHEADER1 =
  biSize :: u32
  biWidth :: u32
  biHeight :: u32
  biPlanes :: u16
  biBitCount :: u16
  biCompression :: u32
  biSizeImage :: u32
  biXPelsPerMeter :: u32
  biYPelsPerMeter :: u32
  biClrUsed :: u32
  biClrImportant :: u32

text \<open>The packed structures, as they are written to a file and read from one.\<close>

definition file_header_bytes :: "BITMAPFILEHEADER1 \<Rightarrow> bytes" where
  "file_header_bytes h = put16 (bfType h) @ put32 (bfSize h) @ put16 (bfReserved1 h) @ put16 (bfReserved2 h) @ put32 (bfOffBits h)"

definition info_header_bytes :: "BITMAPINFOHEADER1 \<Rightarrow> bytes" where
  "info_header_bytes h = put32 (biSize h) @ put32 (biWidth h) @ put32 (biHeight h) @ put16 (biPlanes h) @ put16 (biBitCount h) @
     put32 (biCompression h) @ put32 (biSizeImage h) @ put32 (biXPelsPerMeter h) @ put32 (biYPelsPerMeter h) @
     put32 (biClrUsed h) @ put32 (biClrImportant h)"

text \<open>A header of which the file does not have all bytes keeps what was in memory: no meaning here.\<close>

definition read_file_header :: "bytes \<Rightarrow> BITMAPFILEHEADER1 option" where
  "read_file_header bs =
     (if length bs < 14 then None
      else Some \<lparr>bfType = get16 bs 0, bfSize = get32 bs 2, bfReserved1 = get16 bs 6, bfReserved2 = get16 bs 8, bfOffBits = get32 bs 10\<rparr>)"

definition read_info_header :: "bytes \<Rightarrow> BITMAPINFOHEADER1 option" where
  "read_info_header bs =
     (if length bs < 40 then None
      else Some \<lparr>biSize = get32 bs 0, biWidth = get32 bs 4, biHeight = get32 bs 8, biPlanes = get16 bs 12, biBitCount = get16 bs 14,
        biCompression = get32 bs 16, biSizeImage = get32 bs 20, biXPelsPerMeter = get32 bs 24, biYPelsPerMeter = get32 bs 28,
        biClrUsed = get32 bs 32, biClrImportant = get32 bs 36\<rparr>)"

lemma read_file_header_written [simp]: "read_file_header (file_header_bytes h @ bs) = Some h"
  by (simp add: read_file_header_def file_header_bytes_def get_skip)

lemma read_info_header_written [simp]: "read_info_header (info_header_bytes h @ bs) = Some h"
  by (simp add: read_info_header_def info_header_bytes_def get_skip)

lemma length_headers [simp]: "length (file_header_bytes h) = 14" "length (info_header_bytes i) = 40"
  by (simp_all add: file_header_bytes_def info_header_bytes_def)

section \<open>Rows\<close>

text \<open>\<open>ChangeRows\<close>: upside down, with red and blue exchanged.\<close>

definition ChangeRows :: "buffer \<Rightarrow> buffer \<Rightarrow> u32 \<Rightarrow> u32 \<Rightarrow> buffer option" where
  "ChangeRows rgb_in rgb_out width height =
     for_upto (unat height) (\<lambda>i. for_upto (unat width) (\<lambda>j out.
       let offsetin = unat ((of_nat i * width + of_nat j) * 3);
           offsetout = unat (((height - of_nat i - 1) * width + of_nat j) * 3)
       in do {
         x \<leftarrow> slot_get rgb_in offsetin;
         out1 \<leftarrow> slot_set out (offsetout + 2) x;
         y \<leftarrow> slot_get rgb_in (offsetin + 1);
         out2 \<leftarrow> slot_set out1 (offsetout + 1) y;
         z \<leftarrow> slot_get rgb_in (offsetin + 2);
         slot_set out2 offsetout z
       })) rgb_out"

lemma unat_index:
  assumes "i < unat (h :: u32)" and "j < unat (w :: u32)" and "unat h * unat w * 3 < 2 ^ 32"
  shows "unat ((of_nat i * w + of_nat j) * 3) = pos3 (unat w) i j 0"
    and "unat (((h - of_nat i - 1) * w + of_nat j) * 3) = pos3 (unat w) (unat h - 1 - i) j 0"
proof -
  have idx: "unat ((of_nat k * w + of_nat j) * 3) = pos3 (unat w) k j 0" if "k < unat h" for k
  proof -
    have "(of_nat k * w + of_nat j) * 3 = (of_nat (pos3 (unat w) k j 0) :: u32)" by (simp add: pos3_def)
    moreover have "pos3 (unat w) k j 0 < 2 ^ 32" using pos3_less [of k "unat h" j "unat w" 0] that assms(2,3) by simp
    ultimately show ?thesis by (simp add: unat_of_nat take_bit_nat_eq_self)
  qed
  then show "unat ((of_nat i * w + of_nat j) * 3) = pos3 (unat w) i j 0" using assms(1) by blast
  have "h - of_nat i - 1 = of_nat (unat h - 1 - i)" using assms(1) by (simp add: of_nat_diff)
  then show "unat (((h - of_nat i - 1) * w + of_nat j) * 3) = pos3 (unat w) (unat h - 1 - i) j 0"
    using idx [of "unat h - 1 - i"] assms(1) by (simp only:)
qed

lemma slot_set_paints: "i < length s \<Longrightarrow> v i = Some x \<Longrightarrow> slot_set s i x = Some (paints {i} v s)"
  using paints_update [of i s v "Some x"] by (simp add: slot_set_def)

definition flipped :: "nat \<Rightarrow> nat \<Rightarrow> 'a list \<Rightarrow> 'a list" where
  "flipped w h xs = map (\<lambda>k. xs ! pos3 w (h - 1 - k div 3 div w) (k div 3 mod w) (2 - k mod 3)) [0..<h * w * 3]"

lemma flipped_flipped:
  assumes "0 < w" and "length xs = h * w * 3"
  shows "flipped w h (flipped w h xs) = xs"
proof (rule nth_equalityI)
  fix k assume "k < length (flipped w h (flipped w h xs))"
  then have k: "k < h * w * 3" by (simp add: flipped_def)
  then obtain i j c where p: "i < h" "j < w" "c < 3" "k = pos3 w i j c" using pos3_cover [OF assms(1)] by blast
  have "pos3 w (h - 1 - i) j (2 - c) < h * w * 3" using p by (intro pos3_less) simp_all
  then show "flipped w h (flipped w h xs) ! k = xs ! k" using p k by (simp add: flipped_def)
qed (simp add: flipped_def assms(2))

lemma ChangeRows_eq:
  assumes small: "unat h * unat w * 3 < 2 ^ 32" and inp: "length xs = unat h * unat w * 3" and out: "length out = unat h * unat w * 3"
  shows "ChangeRows (map Some xs) out w h = Some (map Some (flipped (unat w) (unat h) xs))"
proof -
  let ?w = "unat w" and ?h = "unat h"
  let ?v = "\<lambda>k. Some (xs ! pos3 ?w (?h - 1 - k div 3 div ?w) (k div 3 mod ?w) (2 - k mod 3))"
  let ?own = "\<lambda>i j. {pos3 ?w (?h - 1 - i) j 2, pos3 ?w (?h - 1 - i) j 1, pos3 ?w (?h - 1 - i) j 0}"
  have "ChangeRows (map Some xs) out w h = Some (paints (\<Union>i<?h. \<Union>j<?w. ?own i j) ?v out)"
    unfolding ChangeRows_def
  proof (rule raster_paints [OF _ out])
    fix i j and s :: buffer assume ij: "i < ?h" "j < ?w" and l: "length s = ?h * ?w * 3"
    have b: "pos3 ?w (?h - 1 - i) j c < ?h * ?w * 3" "pos3 ?w i j c < ?h * ?w * 3" if "c < 3" for c
      using ij that by (auto intro!: pos3_less)
    have c: "pos3 ?w i j 0 + c = pos3 ?w i j c" "pos3 ?w (?h - 1 - i) j 0 + c = pos3 ?w (?h - 1 - i) j c" for c
      by (simp_all add: pos3_def)
    show "(let offsetin = unat ((of_nat i * w + of_nat j) * 3); offsetout = unat (((h - of_nat i - 1) * w + of_nat j) * 3)
       in do {
         x \<leftarrow> slot_get (map Some xs) offsetin;
         out1 \<leftarrow> slot_set s (offsetout + 2) x;
         y \<leftarrow> slot_get (map Some xs) (offsetin + 1);
         out2 \<leftarrow> slot_set out1 (offsetout + 1) y;
         z \<leftarrow> slot_get (map Some xs) (offsetin + 2);
         slot_set out2 offsetout z
       }) = Some (paints (?own i j) ?v s)"
      unfolding unat_index [OF ij small] Let_def c
      using b ij l inp
      by (simp add: slot_get_def slot_set_paints [where v = ?v] paints_paints insert_commute)
  qed
  moreover have "{..<length out} \<subseteq> (\<Union>i<?h. \<Union>j<?w. ?own i j)"
  proof
    fix k assume "k \<in> {..<length out}"
    then have "k < ?h * ?w * 3" using out by simp
    moreover from this have "0 < ?w" by (cases "?w") simp_all
    ultimately obtain i j c where p: "i < ?h" "j < ?w" "c < 3" "k = pos3 ?w i j c" using pos3_cover by blast
    have "c = 0 \<or> c = 1 \<or> c = 2" using p(3) by linarith
    then have "k \<in> ?own (?h - 1 - i) j" using p by auto
    then show "k \<in> (\<Union>i<?h. \<Union>j<?w. ?own i j)" using p(1,2) by (intro UN_I [of "?h - 1 - i"] UN_I [of j]) simp_all
  qed
  ultimately show ?thesis by (simp add: paints_all out flipped_def)
qed

text \<open>
  \<open>convertRGB2BGR\<close>: both buffers in one memory, at the positions \<open>rgb_in\<close> and \<open>bgr_out\<close>, which may be the same.
\<close>

definition convertRGB2BGR :: "nat \<Rightarrow> nat \<Rightarrow> u32 \<Rightarrow> u32 \<Rightarrow> buffer \<Rightarrow> buffer option" where
  "convertRGB2BGR rgb_in bgr_out width height =
     for_upto (unat height) (\<lambda>i. for_upto (unat width) (\<lambda>j mem.
       let offset = unat ((of_nat i * width + of_nat j) * 3)
       in do {
         temp \<leftarrow> slot_get mem (bgr_out + offset + 2);
         x \<leftarrow> slot_get mem (rgb_in + offset);
         mem1 \<leftarrow> slot_set mem (bgr_out + offset + 2) x;
         y \<leftarrow> slot_get mem1 (rgb_in + offset + 1);
         mem2 \<leftarrow> slot_set mem1 (bgr_out + offset + 1) y;
         slot_set mem2 (bgr_out + offset) temp
       }))"

definition convertBGR2RGB :: "nat \<Rightarrow> nat \<Rightarrow> u32 \<Rightarrow> u32 \<Rightarrow> buffer \<Rightarrow> buffer option" where
  "convertBGR2RGB = convertRGB2BGR"

text \<open>In place it exchanges red and blue; between two buffers one colour comes from the old output.\<close>

lemma convert_one_pixel:
  "convertRGB2BGR 0 0 1 1 [Some r, Some g, Some b] = Some [Some b, Some g, Some r]"
  "convertRGB2BGR 0 3 1 1 [Some r, Some g, Some b, x, y, Some z] = Some [Some r, Some g, Some b, Some z, Some g, Some r]"
  "convertRGB2BGR 0 3 1 1 [Some r, Some g, Some b, None, None, None] = None"
  by (simp_all add: convertRGB2BGR_def slot_get_def slot_set_def Let_def numeral_2_eq_2 numeral_3_eq_3)

section \<open>Files\<close>

text \<open>
  \<open>save_bmp\<close>, when memory is available, which the code does not check. \<open>can_open\<close> tells whether the file can be
  created; the result is the value returned and what was written.
\<close>

definition save_bmp :: "bool \<Rightarrow> buffer \<Rightarrow> u32 \<Rightarrow> u32 \<Rightarrow> (u32 \<times> bytes option) option" where
  "save_bmp can_open rgb width height = do {
     pixels \<leftarrow> i32 (sint width * sint height);
     _ \<leftarrow> i32 (pixels * 3);
     bits \<leftarrow> i32 (sint width * 24);
     stride \<leftarrow> WIDTH_BYTES bits;
     img \<leftarrow> i32 (stride * sint height);
     let dwImageSize = (word_of_int img :: u32);
     let widthByteNum = (word_of_int stride :: u32);
     let bfh = \<lparr>bfType = 0x4D42, bfSize = 54 + dwImageSize, bfReserved1 = 0, bfReserved2 = 0, bfOffBits = 54\<rparr>;
     let info = \<lparr>biSize = 40, biWidth = width, biHeight = height, biPlanes = 1, biBitCount = 24, biCompression = 0,
                 biSizeImage = dwImageSize, biXPelsPerMeter = 72, biYPelsPerMeter = 72, biClrUsed = 0, biClrImportant = 0\<rparr>;
     (if dwImageSize = 0 \<or> \<not> can_open then Some (0, None)
      else do {
        temp2 \<leftarrow> ChangeRows rgb (replicate (unat (width * height * 3)) (Some 0)) width height;
        temp1 \<leftarrow> for_upto (unat height) (\<lambda>i. for_upto (unat (width * 3)) (\<lambda>j temp1. do {
                    x \<leftarrow> slot_get temp2 (unat (width * 3 * of_nat i + of_nat j));
                    slot_set temp1 (unat (of_nat i * widthByteNum + of_nat j)) x
                  })) (replicate (unat dwImageSize) (Some 0));
        data \<leftarrow> those temp1;
        Some (bfSize bfh, Some (file_header_bytes bfh @ info_header_bytes info @ data))
      })
   }"

text \<open>
  \<open>OpenBMPFile\<close> on the contents of a file, \<open>None\<close> if it cannot be opened. The bytes between the headers and the
  pixels are skipped, the length of a row is kept in 16 bits, and a negative size asks for more memory than
  there is.
\<close>

definition OpenBMPFile :: "bytes option \<Rightarrow> (int \<times> (BITMAPINFOHEADER1 \<times> buffer) option) option" where
  "OpenBMPFile file = (case file of
     None \<Rightarrow> Some (0, None)
   | Some bs \<Rightarrow> do {
       bfh \<leftarrow> read_file_header bs;
       (if bfType bfh \<noteq> 0x4D42 then Some (0, None)
        else do {
          info \<leftarrow> read_info_header (drop 14 bs);
          let width = sint (biWidth info);
          let height = sint (biHeight info);
          let rest = drop (unat (bfOffBits bfh - 54)) (drop 54 bs);
          bits \<leftarrow> i32 (width * uint (biBitCount info));
          stride \<leftarrow> WIDTH_BYTES bits;
          sz \<leftarrow> i32 (stride * height);
          let dwDataSize = unat (word_of_int sz :: u32);
          let widthByteNum = unat (word_of_int stride :: u16);
          pixels \<leftarrow> i32 (width * height);
          n \<leftarrow> i32 (pixels * 3);
          (if n < 0 then None
           else do {
             let upside_down = map Some (take dwDataSize rest) @ replicate (dwDataSize - length rest) None;
             temp \<leftarrow> for_upto (nat height) (\<lambda>i. for_upto (nat (width * 3)) (\<lambda>j temp. do {
                       x \<leftarrow> slot_get upside_down (i * widthByteNum + j);
                       slot_set temp (nat (width * 3) * i + j) x
                     })) (replicate (nat n) None);
             image \<leftarrow> ChangeRows temp (replicate (nat n) None) (biWidth info) (biHeight info);
             Some (1, Some (info, image))
           })
        })
     })"

text \<open>The bytes of a row of \<open>n\<close> pixels in a file.\<close>

definition row_bytes :: "nat \<Rightarrow> nat" where
  "row_bytes n = (24 * n + 31) div 32 * 4"

lemma row_bytes_ge: "n * 3 \<le> row_bytes n"
  unfolding row_bytes_def by presburger

lemma sint_small: "unat (x :: u32) < 2 ^ 31 \<Longrightarrow> sint x = int (unat x)"
proof -
  assume "unat x < 2 ^ 31"
  then have "int (unat x) < int (2 ^ 31)" by (simp only: of_nat_less_iff)
  moreover have "- (2 ^ 31) \<le> uint x" by (rule order_trans [OF _ uint_ge_0]) simp
  ultimately show ?thesis using sint_word_of_int_eq [of "uint x"] by simp
qed

lemma WIDTH_BYTES_row: "24 * n + 31 < 2 ^ 31 \<Longrightarrow> WIDTH_BYTES (int n * 24) = Some (int (row_bytes n))"
  by (simp add: WIDTH_BYTES_def row_bytes_def signed_divide_int_def zdiv_int)

definition padded :: "nat \<Rightarrow> nat \<Rightarrow> bytes \<Rightarrow> bytes" where
  "padded w h xs = map (\<lambda>k. if k mod row_bytes w < w * 3 then xs ! (w * 3 * (k div row_bytes w) + k mod row_bytes w) else 0) [0..<h * row_bytes w]"


lemma row_copy_eq:
  assumes w: "w * 3 \<le> n" and len: "length (xs :: bytes) = h * w * 3"
    and idx: "\<And>i j. i < h \<Longrightarrow> j < w * 3 \<Longrightarrow> src i j = w * 3 * i + j \<and> dst i j = i * n + j"
  shows "for_upto h (\<lambda>i. for_upto (w * 3) (\<lambda>j s. do { x \<leftarrow> slot_get (map Some xs) (src i j); slot_set s (dst i j) x }))
      (replicate (h * n) (Some 0)) =
    Some (map (\<lambda>k. Some (if k mod n < w * 3 then xs ! (w * 3 * (k div n) + k mod n) else 0)) [0..<h * n])"
proof -
  let ?v = "\<lambda>k. Some (xs ! (w * 3 * (k div n) + k mod n))"
  let ?own = "\<lambda>i j. {i * n + j}"
  have "for_upto h (\<lambda>i. for_upto (w * 3) (\<lambda>j s. do { x \<leftarrow> slot_get (map Some xs) (src i j); slot_set s (dst i j) x }))
      (replicate (h * n) (Some 0)) = Some (paints (\<Union>i<h. \<Union>j<w * 3. ?own i j) ?v (replicate (h * n) (Some 0)))"
  proof (rule raster_paints)
    fix i j and s :: buffer assume ij: "i < h" "j < w * 3" and l: "length s = h * n"
    have "i * (w * 3) + j < h * (w * 3)" using ij by (rule row_less)
    then have "w * 3 * i + j < length xs" using len by (simp add: mult.commute mult.left_commute)
    moreover have "i * n + j < length s" using row_less [of i h j n] ij w l by simp
    moreover have "(i * n + j) div n = i" "(i * n + j) mod n = j" using ij w by simp_all
    ultimately show "do { x \<leftarrow> slot_get (map Some xs) (src i j); slot_set s (dst i j) x } = Some (paints (?own i j) ?v s)"
      using idx [OF ij] by (simp add: slot_get_def slot_set_paints [where v = ?v])
  qed simp
  also have "\<dots> = Some (map (\<lambda>k. Some (if k mod n < w * 3 then xs ! (w * 3 * (k div n) + k mod n) else 0)) [0..<h * n])"
  proof -
    have "k \<in> (\<Union>i<h. \<Union>j<w * 3. ?own i j) \<longleftrightarrow> k mod n < w * 3" if k: "k < h * n" for k
    proof
      assume "k \<in> (\<Union>i<h. \<Union>j<w * 3. ?own i j)"
      then obtain i j where "i < h" "j < w * 3" "k = i * n + j" by auto
      then show "k mod n < w * 3" using w by simp
    next
      assume m: "k mod n < w * 3"
      have "k div n < h" using k by (simp add: less_mult_imp_div_less)
      then show "k \<in> (\<Union>i<h. \<Union>j<w * 3. ?own i j)"
        using m by (intro UN_I [of "k div n"] UN_I [of "k mod n"]) simp_all
    qed
    then show ?thesis by (auto simp: paints_def)
  qed
  finally show ?thesis .
qed

text \<open>What \<open>save_bmp\<close> writes and \<open>OpenBMPFile\<close> gets back.\<close>

definition image_fits :: "u32 \<Rightarrow> u32 \<Rightarrow> bool" where
  "image_fits w h \<longleftrightarrow> 0 < unat w \<and> 0 < unat h \<and> unat h * row_bytes (unat w) < 2 ^ 31 \<and> 24 * unat w + 31 < 2 ^ 31"

lemma image_fitsD:
  assumes "image_fits w h"
  shows "0 < unat w" "0 < unat h" "unat h * row_bytes (unat w) < 2 ^ 31" "24 * unat w + 31 < 2 ^ 31"
  using assms by (simp_all add: image_fits_def)

lemma small:
  assumes "image_fits w h"
  shows "unat h * unat w * 3 < 2 ^ 31" "unat w < 2 ^ 31" "unat h < 2 ^ 31"
proof -
  note size = image_fitsD(1,2) [OF assms] and fits = image_fitsD(3,4) [OF assms]
  have "unat h * (unat w * 3) \<le> unat h * row_bytes (unat w)" using row_bytes_ge by (rule mult_le_mono2)
  then show a: "unat h * unat w * 3 < 2 ^ 31" using le_less_trans [OF _ fits(1)] by (simp only: mult.assoc)
  show "unat w < 2 ^ 31" using fits(2) by simp
  have "unat h * 1 \<le> unat h * (unat w * 3)" using size by (intro mult_le_mono2) simp
  from le_less_trans [OF this a [unfolded mult.assoc]] show "unat h < 2 ^ 31" by simp
qed

lemma sints: "image_fits w h \<Longrightarrow> sint w = int (unat w)" "image_fits w h \<Longrightarrow> sint h = int (unat h)"
  using small sint_small by blast+

lemma ints:
  assumes "image_fits w h"
  shows "i32 (sint w * sint h) = Some (int (unat w * unat h))" "i32 (int (unat w * unat h) * 3) = Some (int (unat h * unat w * 3))"
  "i32 (sint w * 24) = Some (int (unat w) * 24)" "WIDTH_BYTES (int (unat w) * 24) = Some (int (row_bytes (unat w)))"
  "i32 (int (row_bytes (unat w)) * sint h) = Some (int (unat h * row_bytes (unat w)))"
proof -
  note fits = image_fitsD(3,4) [OF assms] and small = small [OF assms] and sints = sints [OF assms]
  have eqs: "sint w * sint h = int (unat w * unat h)" "int (unat w * unat h) * 3 = int (unat h * unat w * 3)"
    "sint w * 24 = int (unat w * 24)" "int (row_bytes (unat w)) * sint h = int (unat h * row_bytes (unat w))"
    by (simp_all only: sints of_nat_mult of_nat_numeral mult.commute)
  show "i32 (sint w * sint h) = Some (int (unat w * unat h))" unfolding eqs(1) using small(1) by (intro i32_nat) (simp add: mult.commute)
  show "i32 (int (unat w * unat h) * 3) = Some (int (unat h * unat w * 3))" unfolding eqs(2) using small(1) by (rule i32_nat)
  have "i32 (int (unat w * 24)) = Some (int (unat w * 24))" using fits(2) by (intro i32_nat) simp
  then show "i32 (sint w * 24) = Some (int (unat w) * 24)" unfolding eqs(3) by simp
  show "WIDTH_BYTES (int (unat w) * 24) = Some (int (row_bytes (unat w)))" using fits(2) by (rule WIDTH_BYTES_row)
  show "i32 (int (row_bytes (unat w)) * sint h) = Some (int (unat h * row_bytes (unat w)))"
    unfolding eqs(4) using fits(1) by (rule i32_nat)
qed

lemma words:
  assumes "image_fits w h"
  shows "unat (w * h * 3) = unat h * unat w * 3" "unat (w * 3) = unat w * 3"
  "unat (word_of_int (int (unat h * row_bytes (unat w))) :: u32) = unat h * row_bytes (unat w)"
proof -
  note fits = image_fitsD(3,4) [OF assms(1)] and small = small [OF assms(1)]
  have u: "unat (of_nat n :: u32) = n" if "n < 2 ^ 31" for n
    using that by (simp add: unat_of_nat take_bit_nat_eq_self)
  have "w * h * 3 = of_nat (unat h * unat w * 3)" by (simp add: mult.commute)
  then show "unat (w * h * 3) = unat h * unat w * 3" using u small(1) by metis
  have "w * 3 = of_nat (unat w * 3)" by simp
  moreover have "unat w * 3 < 2 ^ 31" using fits(2) by simp
  ultimately show "unat (w * 3) = unat w * 3" using u by metis
  show "unat (word_of_int (int (unat h * row_bytes (unat w))) :: u32) = unat h * row_bytes (unat w)"
    using u [OF fits(1)] by simp
qed

lemma indices:
  assumes "image_fits w h" and "i < unat h" and "j < unat w * 3"
  shows "unat (w * 3 * of_nat i + of_nat j) = unat w * 3 * i + j"
    and "unat (of_nat i * word_of_int (int (row_bytes (unat w))) + of_nat j :: u32) = i * row_bytes (unat w) + j"
proof -
  note fits = image_fitsD(3,4) [OF assms(1)] and small = small [OF assms(1)]
  have u: "unat (of_nat n :: u32) = n" if "n < 2 ^ 31" for n
    using that by (simp add: unat_of_nat take_bit_nat_eq_self)
  have "unat w * 3 * i + j < 2 ^ 31"
    using row_less [OF assms(2,3)] small(1) by (simp add: mult.commute mult.left_commute)
  moreover have "w * 3 * of_nat i + of_nat j = of_nat (unat w * 3 * i + j)" by simp
  ultimately show "unat (w * 3 * of_nat i + of_nat j) = unat w * 3 * i + j" using u by metis
  have "j < row_bytes (unat w)" using assms(3) row_bytes_ge [of "unat w"] by simp
  then have "i * row_bytes (unat w) + j < 2 ^ 31" using row_less [OF assms(2)] fits(1) by (metis order.strict_trans)
  moreover have "of_nat i * word_of_int (int (row_bytes (unat w))) + of_nat j = (of_nat (i * row_bytes (unat w) + j) :: u32)" by simp
  ultimately show "unat (of_nat i * word_of_int (int (row_bytes (unat w))) + of_nat j :: u32) = i * row_bytes (unat w) + j"
    using u by metis
qed

definition bmp_pixels :: "u32 \<Rightarrow> u32 \<Rightarrow> bytes \<Rightarrow> bytes" where
  "bmp_pixels w h xs = padded (unat w) (unat h) (flipped (unat w) (unat h) xs)"

definition bmp_size :: "u32 \<Rightarrow> u32 \<Rightarrow> u32" where
  "bmp_size w h = of_nat (unat h * row_bytes (unat w))"

definition bmp_info :: "u32 \<Rightarrow> u32 \<Rightarrow> BITMAPINFOHEADER1" where
  "bmp_info w h = \<lparr>biSize = 40, biWidth = w, biHeight = h, biPlanes = 1, biBitCount = 24, biCompression = 0,
     biSizeImage = bmp_size w h, biXPelsPerMeter = 72, biYPelsPerMeter = 72, biClrUsed = 0, biClrImportant = 0\<rparr>"

definition bmp_header :: "u32 \<Rightarrow> u32 \<Rightarrow> BITMAPFILEHEADER1" where
  "bmp_header w h = \<lparr>bfType = 0x4D42, bfSize = 54 + bmp_size w h, bfReserved1 = 0, bfReserved2 = 0, bfOffBits = 54\<rparr>"

definition bmp_file :: "u32 \<Rightarrow> u32 \<Rightarrow> bytes \<Rightarrow> bytes" where
  "bmp_file w h xs = file_header_bytes (bmp_header w h) @ info_header_bytes (bmp_info w h) @ bmp_pixels w h xs"

lemma those_Some: "those (map Some ys) = Some ys"
  by (induction ys) simp_all

lemma save_bmp_eq:
  assumes fits: "image_fits w h" and len: "length xs = unat h * unat w * 3"
  shows "save_bmp True (map Some xs) w h = Some (54 + bmp_size w h, Some (bmp_file w h xs))"
proof -
  let ?n = "row_bytes (unat w)" and ?fl = "flipped (unat w) (unat h) xs"
  have flip: "ChangeRows (map Some xs) (replicate (unat (w * h * 3)) (Some 0)) w h = Some (map Some ?fl)"
    using small(1) [OF fits] len by (intro ChangeRows_eq) (simp_all add: words(1) [OF fits])
  have sz: "word_of_int (int (unat h * ?n)) = bmp_size w h" "unat (bmp_size w h) = unat h * ?n"
    using words(3) [OF fits] by (simp_all add: bmp_size_def)
  have "0 < ?n" using image_fitsD(1) [OF fits] row_bytes_ge [of "unat w"] by simp
  then have nz: "bmp_size w h \<noteq> 0" using sz(2) image_fitsD(2) [OF fits] by auto
  have copy: "for_upto (unat h) (\<lambda>i. for_upto (unat w * 3) (\<lambda>j temp1. do {
        x \<leftarrow> slot_get (map Some ?fl) (unat (w * 3 * of_nat i + of_nat j));
        slot_set temp1 (unat (of_nat i * word_of_int (int ?n) + of_nat j :: u32)) x })) (replicate (unat h * ?n) (Some 0)) =
      Some (map Some (bmp_pixels w h xs))"
    by (subst row_copy_eq) (use row_bytes_ge [of "unat w"] indices [OF fits] in \<open>auto simp: bmp_pixels_def padded_def flipped_def\<close>)
  show ?thesis unfolding save_bmp_def ints [OF fits] bind.bind_lunit Let_def sz flip words(2) [OF fits] copy those_Some
    using nz by (simp add: bmp_file_def bmp_header_def bmp_info_def)
qed

text \<open>Reading: with the length of a row in 16 bits, which may be less than a row.\<close>

lemma unpad_eq:
  assumes w: "0 < w" and len: "length (ys :: bytes) = m" and inside: "\<And>i j. i < h \<Longrightarrow> j < w * 3 \<Longrightarrow> i * n + j < m"
  shows "for_upto h (\<lambda>i. for_upto (w * 3) (\<lambda>j s. do { x \<leftarrow> slot_get (map Some ys) (i * n + j); slot_set s (w * 3 * i + j) x }))
      (replicate (h * w * 3) None) =
    Some (map Some (map (\<lambda>k. ys ! (k div (w * 3) * n + k mod (w * 3))) [0..<h * w * 3]))"
proof -
  let ?v = "\<lambda>k. Some (ys ! (k div (w * 3) * n + k mod (w * 3)))"
  let ?own = "\<lambda>i j. {w * 3 * i + j}"
  have "for_upto h (\<lambda>i. for_upto (w * 3) (\<lambda>j s. do { x \<leftarrow> slot_get (map Some ys) (i * n + j); slot_set s (w * 3 * i + j) x }))
      (replicate (h * w * 3) None) = Some (paints (\<Union>i<h. \<Union>j<w * 3. ?own i j) ?v (replicate (h * w * 3) None))"
  proof (rule raster_paints)
    fix i j and s :: buffer assume ij: "i < h" "j < w * 3" and l: "length s = h * w * 3"
    have "w * 3 * i + j < length s" using row_less [OF ij] l by (simp add: mult.commute mult.left_commute)
    moreover have "(w * 3 * i + j) div (w * 3) = i" "(w * 3 * i + j) mod (w * 3) = j"
      using ij(2) by (simp_all add: mult.commute [of "w * 3" i])
    ultimately show "do { x \<leftarrow> slot_get (map Some ys) (i * n + j); slot_set s (w * 3 * i + j) x } = Some (paints (?own i j) ?v s)"
      using inside [OF ij] len by (simp add: slot_get_def slot_set_paints [where v = ?v])
  qed simp
  moreover have "{..<h * w * 3} \<subseteq> (\<Union>i<h. \<Union>j<w * 3. ?own i j)"
  proof
    fix k assume "k \<in> {..<h * w * 3}"
    then have "k < h * (w * 3)" by (simp add: mult.assoc)
    then obtain i j where "i < h" "j < w * 3" "k = i * (w * 3) + j" using row_cover by blast
    then show "k \<in> (\<Union>i<h. \<Union>j<w * 3. ?own i j)"
      by (intro UN_I [of i] UN_I [of j]) (simp_all add: mult.commute)
  qed
  ultimately show ?thesis by (simp add: paints_all)
qed

text \<open>The image that \<open>OpenBMPFile\<close> makes of the bytes of a file.\<close>

definition opened :: "u32 \<Rightarrow> u32 \<Rightarrow> nat \<Rightarrow> bytes \<Rightarrow> bytes" where
  "opened w h n ys = flipped (unat w) (unat h)
     (map (\<lambda>k. ys ! (k div (unat w * 3) * n + k mod (unat w * 3))) [0..<unat h * unat w * 3])"

lemma length_bmp_pixels [simp]: "length (bmp_pixels w h xs) = unat h * row_bytes (unat w)"
  by (simp add: bmp_pixels_def padded_def)

lemma OpenBMPFile_eq:
  assumes fits: "image_fits w h"
  shows "OpenBMPFile (Some (bmp_file w h xs)) =
    Some (1, Some (bmp_info w h, map Some (opened w h (row_bytes (unat w) mod 2 ^ 16) (bmp_pixels w h xs))))"
proof -
  let ?n = "row_bytes (unat w)" and ?ys = "bmp_pixels w h xs"
  let ?m = "?n mod 2 ^ 16"
  have hdr: "read_file_header (bmp_file w h xs) = Some (bmp_header w h)" "drop 54 (bmp_file w h xs) = ?ys"
    "read_info_header (drop 14 (bmp_file w h xs)) = Some (bmp_info w h)"
    by (simp_all add: bmp_file_def)
  have fields: "bfType (bmp_header w h) = 0x4D42" "bfOffBits (bmp_header w h) = 54" "biWidth (bmp_info w h) = w"
    "biHeight (bmp_info w h) = h" "biBitCount (bmp_info w h) = 24"
    by (simp_all add: bmp_header_def bmp_info_def)
  have m: "unat (word_of_int (int ?n) :: u16) = ?m" by (simp add: unat_of_nat take_bit_eq_mod)
  have inside: "i * ?m + j < length ?ys" if "i < unat h" "j < unat w * 3" for i j
  proof -
    have "i * ?m + j \<le> i * ?n + j" by simp
    also have "\<dots> < unat h * ?n" using row_less [OF that(1), of j ?n] that(2) row_bytes_ge [of "unat w"] by simp
    finally show ?thesis by simp
  qed
  note copy = unpad_eq [OF image_fitsD(1) [OF fits] refl inside]
  let ?t = "map (\<lambda>k. ?ys ! (k div (unat w * 3) * ?m + k mod (unat w * 3))) [0..<unat h * unat w * 3]"
  have flip: "ChangeRows (map Some ?t) (replicate (unat h * unat w * 3) None) w h = Some (map Some (flipped (unat w) (unat h) ?t))"
    using small(1) [OF fits] by (intro ChangeRows_eq) simp_all
  have bounds: "nat (sint h) = unat h" "nat (sint w * 3) = unat w * 3" "uint (24 :: u16) = 24" "54 - 54 = (0 :: u32)"
    by (simp_all add: sints [OF fits] nat_mult_distrib)
  have sizes: "(int k < 0) = False" "nat (int k) = k" for k by simp_all
  have up: "map Some (take (unat h * ?n) (drop (unat (0 :: u32)) ?ys)) @ replicate (unat h * ?n - length (drop (unat (0 :: u32)) ?ys)) None =
      map Some ?ys" by simp
  show ?thesis
    unfolding OpenBMPFile_def option.case hdr bind.bind_lunit fields Let_def bounds ints [OF fits] sizes if_False words(3) [OF fits] m up
    using copy flip by (simp add: opened_def)
qed


lemma unpadded:
  assumes "image_fits w h" and "k < unat h * unat w * 3" and "length ys = unat h * unat w * 3"
  shows "padded (unat w) (unat h) ys ! (k div (unat w * 3) * row_bytes (unat w) + k mod (unat w * 3)) = ys ! k"
proof -
  let ?n = "row_bytes (unat w)" and ?i = "k div (unat w * 3)" and ?j = "k mod (unat w * 3)"
  have w: "0 < unat w" using image_fitsD(1) [OF assms(1)] .
  then have j: "?j < unat w * 3" "?j < ?n" using row_bytes_ge [of "unat w"] by (simp_all add: less_le_trans [OF mod_less_divisor])
  have "?i < unat h" using assms(2) w by (simp add: less_mult_imp_div_less mult.assoc)
  then have "?i * ?n + ?j < unat h * ?n" using j(2) by (rule row_less)
  moreover have "(?i * ?n + ?j) div ?n = ?i" "(?i * ?n + ?j) mod ?n = ?j" using j(2) by simp_all
  ultimately show ?thesis using j(1) by (simp add: padded_def)
qed

lemma opened_same:
  assumes "image_fits w h" and "length xs = unat h * unat w * 3"
  shows "opened w h (row_bytes (unat w)) (bmp_pixels w h xs) = xs"
proof -
  have "map (\<lambda>k. bmp_pixels w h xs ! (k div (unat w * 3) * row_bytes (unat w) + k mod (unat w * 3))) [0..<unat h * unat w * 3] =
      flipped (unat w) (unat h) xs"
    using unpadded [OF assms(1)] by (intro nth_equalityI) (simp_all add: bmp_pixels_def flipped_def)
  then show ?thesis
    using flipped_flipped [OF image_fitsD(1) [OF assms(1)] assms(2)] by (simp add: opened_def)
qed

section \<open>Properties\<close>

text \<open>
  C34. An image saved and opened again. \<open>save_bmp\<close> writes a file of the size it returns, and \<open>OpenBMPFile\<close> gets
  from it the dimensions and exactly the pixels that were saved, at every width and height whose rows take
  less than 64 KiB.
\<close>

theorem bmp_roundtrip:
  assumes "image_fits w h" and "length xs = unat h * unat w * 3" and "row_bytes (unat w) < 2 ^ 16"
  shows "\<exists>n file info. save_bmp True (map Some xs) w h = Some (n, Some file) \<and> n = of_nat (length file) \<and>
    OpenBMPFile (Some file) = Some (1, Some (info, map Some xs)) \<and> biWidth info = w \<and> biHeight info = h"
proof -
  have "row_bytes (unat w) mod 2 ^ 16 = row_bytes (unat w)" using assms(3) by simp
  then have "OpenBMPFile (Some (bmp_file w h xs)) = Some (1, Some (bmp_info w h, map Some xs))"
    using OpenBMPFile_eq [OF assms(1), of xs] opened_same [OF assms(1,2)] by simp
  moreover have "54 + bmp_size w h = of_nat (length (bmp_file w h xs))" by (simp add: bmp_size_def bmp_file_def)
  ultimately show ?thesis using save_bmp_eq [OF assms(1,2)] by (auto simp: bmp_info_def)
qed

theorem bmp_roundtrip_witness:
  "\<exists>n file info. save_bmp True (map Some [1, 2, 3, 4, 5, 6]) 1 2 = Some (n, Some file) \<and> n = of_nat (length file) \<and>
    OpenBMPFile (Some file) = Some (1, Some (info, map Some [1, 2, 3, 4, 5, 6])) \<and> biWidth info = 1 \<and> biHeight info = 2"
  by (rule bmp_roundtrip) (simp_all add: image_fits_def row_bytes_def)

lemma pos3_column: "j < w \<Longrightarrow> c < 3 \<Longrightarrow> pos3 w i j c mod (w * 3) = pos3 w 0 j c"
proof -
  assume a: "j < w" "c < 3"
  then have "j * 3 + c < w * 3" by simp
  moreover have "pos3 w i j c = i * (w * 3) + (j * 3 + c)" "pos3 w 0 j c = j * 3 + c" by (simp_all add: pos3_def)
  ultimately show ?thesis by (simp only: mod_mult_self3 mod_less)
qed

lemma opened_zero:
  assumes "image_fits w h" and "length xs = unat h * unat w * 3" and "i < unat h" "j < unat w" "c < 3"
  shows "opened w h 0 (bmp_pixels w h xs) ! pos3 (unat w) i j c = xs ! pos3 (unat w) (unat h - 1) j c"
proof -
  let ?w = "unat w" and ?h = "unat h"
  have h: "0 < ?h" using image_fitsD(2) [OF assms(1)] .
  have k: "pos3 ?w i j c < ?h * ?w * 3" "pos3 ?w (?h - 1 - i) j (2 - c) < ?h * ?w * 3" "pos3 ?w 0 j (2 - c) < ?h * ?w * 3"
    using assms(3-5) by (intro pos3_less; simp)+
  have first: "pos3 ?w 0 j (2 - c) < ?w * 3" using assms(4,5) by (simp add: pos3_def)
  have "opened w h 0 (bmp_pixels w h xs) ! pos3 ?w i j c = bmp_pixels w h xs ! pos3 ?w 0 j (2 - c)"
    using k assms(3-5) by (simp add: opened_def flipped_def [of _ _ "map _ _"] pos3_column)
  also have "\<dots> = flipped ?w ?h xs ! pos3 ?w 0 j (2 - c)"
    using unpadded [OF assms(1) k(3), of "flipped ?w ?h xs"] first by (simp add: bmp_pixels_def flipped_def)
  also have "\<dots> = xs ! pos3 ?w (?h - 1) j c" using k(3) assms(4,5) by (simp add: flipped_def)
  finally show ?thesis .
qed

text \<open>
  An image of 21845 pixels a row cannot be opened again: the length of its rows, 65536 bytes, is 0 in 16 bits,
  and every row of the result is the last row of the image.
\<close>

theorem wide_bmp_repeats:
  assumes "unat w = 21845" and "0 < unat h" and "unat h < 2 ^ 15" and "length xs = unat h * unat w * 3"
    and "i < unat h" and "j < unat w" and "c < 3"
  shows "\<exists>n file info ys. save_bmp True (map Some xs) w h = Some (n, Some file) \<and>
    OpenBMPFile (Some file) = Some (1, Some (info, ys)) \<and> ys ! pos3 (unat w) i j c = Some (xs ! pos3 (unat w) (unat h - 1) j c)"
proof -
  have n: "row_bytes (unat w) = 2 ^ 16" using assms(1) by (simp add: row_bytes_def)
  have fits: "image_fits w h" using assms(1-3) n by (simp add: image_fits_def)
  have k: "pos3 (unat w) i j c < unat h * unat w * 3" using assms(5-7) by (rule pos3_less)
  have "length (opened w h 0 (bmp_pixels w h xs)) = unat h * unat w * 3" by (simp add: opened_def flipped_def)
  then have "map Some (opened w h 0 (bmp_pixels w h xs)) ! pos3 (unat w) i j c = Some (xs ! pos3 (unat w) (unat h - 1) j c)"
    using opened_zero [OF fits assms(4-7)] k by simp
  then show ?thesis using save_bmp_eq [OF fits assms(4)] OpenBMPFile_eq [OF fits, of xs] n by auto
qed


theorem wide_bmp_repeats_witness:
  "\<exists>n file info ys. save_bmp True (map Some (replicate 65535 1 @ replicate 65535 2)) 21845 2 = Some (n, Some file) \<and>
    OpenBMPFile (Some file) = Some (1, Some (info, ys)) \<and> ys ! 0 = Some 2"
proof -
  let ?xs = "replicate 65535 1 @ replicate 65535 2 :: bytes"
  have "unat (21845 :: u32) = 21845" "0 < unat (2 :: u32)" "unat (2 :: u32) < 2 ^ 15" "length ?xs = unat (2 :: u32) * unat (21845 :: u32) * 3"
    "0 < unat (2 :: u32)" "0 < unat (21845 :: u32)" "(0 :: nat) < 3" by simp_all
  from wide_bmp_repeats [OF this] have "\<exists>n file info ys. save_bmp True (map Some ?xs) 21845 2 = Some (n, Some file) \<and>
    OpenBMPFile (Some file) = Some (1, Some (info, ys)) \<and> ys ! pos3 21845 0 0 0 = Some (?xs ! pos3 21845 1 0 0)"
    by simp
  moreover have "pos3 21845 0 0 0 = 0" "?xs ! pos3 21845 1 0 0 = 2" by (simp_all add: pos3_def nth_append)
  ultimately show ?thesis by simp
qed

end
