(* ===== verification/Image_Formats.thy ===== *)
theory Image_Formats
  imports Bmp_File
begin

text \<open>
  The image formats of the HDR test case, \<open>systest-cases/hdr/util.cpp\<close>: NV21 (\<open>yvu420s\<close>), planar YUV 4:2:0 and
  4:4:4, and RGB. Sizes are numbers of pixels and not negative; products that do not fit an \<open>int\<close> are
  undefined, and memory is available, which the code does not check.
\<close>

section \<open>Names of input files\<close>

text \<open>
  \<open>parse_input_frames\<close>: the names between bars, two at most. The loop looks at position \<open>i\<close>; \<open>idx\<close> is where the
  current name begins and \<open>names\<close> are those found so far. A bar becomes the end of the name before it.
\<close>

definition MAX_FRAME_NUM :: nat where
  "MAX_FRAME_NUM = 2"

definition bar :: u8 where
  "bar = 0x7c"

primrec parse_frames_from :: "bytes \<Rightarrow> nat \<Rightarrow> nat \<Rightarrow> nat \<Rightarrow> bytes list \<Rightarrow> bytes list" where
  "parse_frames_from arg 0 i idx names = names"
| "parse_frames_from arg (Suc n) i idx names =
     (if MAX_FRAME_NUM \<le> length names then names
      else if arg ! i \<noteq> bar \<and> i \<noteq> length arg - 1 then parse_frames_from arg n (Suc i) idx names
      else parse_frames_from arg n (Suc i) (Suc i)
             (names @ [if arg ! i = bar then take (i - idx) (drop idx arg) else drop idx arg]))"

definition parse_input_frames :: "bytes \<Rightarrow> bytes list" where
  "parse_input_frames optarg = parse_frames_from optarg (length optarg) 0 0 []"

section \<open>NV21 and planar images\<close>

definition slots_memcpy :: "buffer \<Rightarrow> buffer \<Rightarrow> nat \<Rightarrow> buffer option" where
  "slots_memcpy dst src n = (if n \<le> length dst \<and> n \<le> length src then Some (take n src @ drop n dst) else None)"

text \<open>The counter \<open>s\<close> of the code is the number of the pair of chroma bytes, \<open>r * cols + k\<close>.\<close>

definition yvu420s_yuv420p :: "buffer \<Rightarrow> nat \<Rightarrow> nat \<Rightarrow> buffer \<Rightarrow> buffer option" where
  "yvu420s_yuv420p yvu420s width height yuv420p =
     (let uv_w = width; uv_h = height div 2; y_pix_num = width * height; cols = (uv_w + 1) div 2
      in if 2 ^ 31 \<le> y_pix_num * 5 then None
         else do {
           out \<leftarrow> slots_memcpy yuv420p yvu420s y_pix_num;
           for_upto uv_h (\<lambda>r. for_upto cols (\<lambda>k out. do {
             u \<leftarrow> slot_get yvu420s (y_pix_num + r * uv_w + 2 * k + 1);
             out1 \<leftarrow> slot_set out (y_pix_num + (r * cols + k)) u;
             v \<leftarrow> slot_get yvu420s (y_pix_num + r * uv_w + 2 * k);
             slot_set out1 (y_pix_num * 5 div 4 + (r * cols + k)) v
           })) out
         })"

definition yuv420p_yvu420s :: "buffer \<Rightarrow> nat \<Rightarrow> nat \<Rightarrow> buffer \<Rightarrow> buffer option" where
  "yuv420p_yvu420s yuv420p width height yvu420s =
     (let uv_width = width div 2; uv_height = height div 2; pix_num = width * height
      in if 2 ^ 31 \<le> pix_num then None
         else do {
           out \<leftarrow> slots_memcpy yvu420s yuv420p pix_num;
           for_upto uv_height (\<lambda>r. for_upto uv_width (\<lambda>c out. do {
             v \<leftarrow> slot_get yuv420p (pix_num + pix_num div 4 + (r * uv_width + c));
             out1 \<leftarrow> slot_set out (pix_num + 2 * (r * uv_width + c)) v;
             u \<leftarrow> slot_get yuv420p (pix_num + (r * uv_width + c));
             slot_set out1 (pix_num + 2 * (r * uv_width + c) + 1) u
           })) out
         })"

section \<open>Colours\<close>

definition ISP_CLIP :: "int \<Rightarrow> int" where
  "ISP_CLIP x = (if 255 < x then 255 else if x < 0 then 0 else x)"

text \<open>The conversion to \<open>int16_t\<close>.\<close>

definition i16 :: "int \<Rightarrow> int" where
  "i16 x = signed_take_bit 15 x"

definition red_val :: "u8 \<Rightarrow> u8 \<Rightarrow> u8" where
  "red_val y v = word_of_int (ISP_CLIP (i16 (uint y + (uint v * 359 + 128) div 2 ^ 8 - 180)))"

definition green_val :: "u8 \<Rightarrow> u8 \<Rightarrow> u8 \<Rightarrow> u8" where
  "green_val y u v =
     word_of_int (ISP_CLIP (i16 (uint y - (uint u * 88 + 128) div 2 ^ 8 - (uint v * 183 + 128) div 2 ^ 8 + 136)))"

definition blue_val :: "u8 \<Rightarrow> u8 \<Rightarrow> u8" where
  "blue_val y u = word_of_int (ISP_CLIP (i16 (uint y + (uint u * 454 + 128) div 2 ^ 8 - 227)))"

text \<open>\<open>yuv2rgb\<close>: the dimensions have 16 bits, and the three planes the same size.\<close>

definition yuv2rgb :: "buffer \<Rightarrow> buffer \<Rightarrow> u16 \<Rightarrow> u16 \<Rightarrow> buffer option" where
  "yuv2rgb inp out iwidth iheight =
     (let w = unat iwidth; h = unat iheight
      in if 2 ^ 31 \<le> w * h then None
         else for_upto h (\<lambda>iy. for_upto w (\<lambda>ix out. do {
           y \<leftarrow> slot_get inp (iy * w + ix);
           u \<leftarrow> slot_get inp (w * h + (iy * w + ix));
           v \<leftarrow> slot_get inp (w * h + w * h + (iy * w + ix));
           out1 \<leftarrow> slot_set out ((iy * w + ix) * 3) (red_val y v);
           out2 \<leftarrow> slot_set out1 ((iy * w + ix) * 3 + 1) (green_val y u v);
           slot_set out2 ((iy * w + ix) * 3 + 2) (blue_val y u)
         })) out)"

section \<open>Saving images\<close>

text \<open>The loop that \<open>yuv420tobmp\<close> and \<open>save_as_bmp\<close> share: a chroma value for every pixel.\<close>

definition upsample :: "buffer \<Rightarrow> nat \<Rightarrow> nat \<Rightarrow> buffer \<Rightarrow> buffer option" where
  "upsample tmp w h yuv =
     for_upto h (\<lambda>i. for_upto w (\<lambda>j yuv. do {
       y \<leftarrow> slot_get tmp (i * w + j);
       yuv1 \<leftarrow> slot_set yuv (i * w + j) y;
       u \<leftarrow> slot_get tmp ((i div 2) * w div 2 + (j div 2) + w * h);
       yuv2 \<leftarrow> slot_set yuv1 (i * w + j + w * h) u;
       v \<leftarrow> slot_get tmp ((i div 2) * w div 2 + (j div 2) + w * h * 5 div 4);
       slot_set yuv2 (i * w + j + w * h * 2) v
     })) yuv"

text \<open>What was written is the name and contents of a file, if it could be created.\<close>

definition yuv420tobmp :: "bool \<Rightarrow> bytes \<Rightarrow> buffer \<Rightarrow> nat \<Rightarrow> nat \<Rightarrow> (bytes \<times> bytes option) option" where
  "yuv420tobmp can_open fileName imgData w h =
     (if 2 ^ 31 \<le> w * h * 5 then None
      else do {
        yuv \<leftarrow> upsample imgData w h (replicate (w * h * 3) None);
        rgb \<leftarrow> yuv2rgb yuv (replicate (w * h * 3) None) (of_nat w) (of_nat h);
        (_, file) \<leftarrow> save_bmp can_open rgb (of_nat w) (of_nat h);
        Some (fileName, file)
      })"

definition MAX_FILENAME_LENGTH :: nat where
  "MAX_FILENAME_LENGTH = 0x200"

text \<open>\<open>".bmp"\<close> and \<open>".nv21"\<close>.\<close>

definition save_as_bmp :: "bool \<Rightarrow> bytes \<Rightarrow> buffer \<Rightarrow> nat \<Rightarrow> nat \<Rightarrow> (bytes \<times> bytes option) option" where
  "save_as_bmp can_open fileName imgData w h =
     (let outfile = fileName @ [0x2e, 0x62, 0x6d, 0x70]
      in if MAX_FILENAME_LENGTH \<le> length outfile \<or> 2 ^ 31 \<le> w * h * 5 then None
         else do {
           tmp \<leftarrow> yvu420s_yuv420p imgData w h (replicate (w * h * 3 div 2) None);
           yuv \<leftarrow> upsample tmp w h (replicate (w * h * 3) None);
           rgb \<leftarrow> yuv2rgb yuv (replicate (w * h * 3) None) (of_nat w) (of_nat h);
           (_, file) \<leftarrow> save_bmp can_open rgb (of_nat w) (of_nat h);
           Some (outfile, file)
         })"

definition save_as_nv21 :: "bool \<Rightarrow> bytes \<Rightarrow> buffer \<Rightarrow> nat \<Rightarrow> nat \<Rightarrow> (bytes \<times> bytes) option" where
  "save_as_nv21 can_open fileName imgData w h =
     (let outfile = fileName @ [0x2e, 0x6e, 0x76, 0x32, 0x31]
      in if MAX_FILENAME_LENGTH \<le> length outfile \<or> 2 ^ 31 \<le> w * h * 3 \<or> \<not> can_open \<or> length imgData < w * h * 3 div 2 then None
         else do { data \<leftarrow> those (take (w * h * 3 div 2) imgData); Some (outfile, data) })"

section \<open>Names between bars\<close>

primrec join_bar :: "bytes list \<Rightarrow> bytes" where
  "join_bar [] = []"
| "join_bar (x # xs) = (if xs = [] then x else x @ bar # join_bar xs)"

lemma parse_skip:
  assumes "arg = pre @ x @ rest" and "bar \<notin> set x" and "length names < MAX_FRAME_NUM" and "m \<le> length x" and "rest \<noteq> []"
  shows "parse_frames_from arg (length x - m + n) (length pre + m) idx names = parse_frames_from arg n (length pre + length x) idx names"
  using assms(4)
proof (induction "length x - m" arbitrary: m)
  case (Suc k)
  then have m: "m < length x" by simp
  have "arg ! (length pre + m) = x ! m" using assms(1) m by (simp add: nth_append)
  then have "arg ! (length pre + m) \<noteq> bar" using assms(2) m by (metis nth_mem)
  moreover have "length pre + m \<noteq> length arg - 1" using assms(1,5) m by (cases rest) simp_all
  moreover have "length x - m + n = Suc (length x - Suc m + n)" using m by simp
  ultimately show ?case using Suc.hyps(1) [of "Suc m"] Suc.hyps(2) m assms(3) by simp
qed simp

lemma parse_piece:
  assumes "arg = pre @ x @ bar # behind" and "bar \<notin> set x" and "length names < MAX_FRAME_NUM"
  shows "parse_frames_from arg (length x + Suc (length behind)) (length pre) (length pre) names =
    parse_frames_from arg (length behind) (length (pre @ x @ [bar])) (length (pre @ x @ [bar])) (names @ [x])"
proof -
  have "parse_frames_from arg (length x + Suc (length behind)) (length pre) (length pre) names =
      parse_frames_from arg (Suc (length behind)) (length pre + length x) (length pre) names"
    using parse_skip [OF assms, of 0 "Suc (length behind)" "length pre"] by simp
  also have "arg ! (length pre + length x) = bar" using assms(1) by (simp add: nth_append)
  then have "parse_frames_from arg (Suc (length behind)) (length pre + length x) (length pre) names =
      parse_frames_from arg (length behind) (length (pre @ x @ [bar])) (length (pre @ x @ [bar])) (names @ [x])"
    using assms(1,3) by simp
  finally show ?thesis .
qed

lemma parse_last:
  assumes "arg = pre @ x" and "bar \<notin> set x" and "x \<noteq> []" and "length names < MAX_FRAME_NUM"
  shows "parse_frames_from arg (length x) (length pre) (length pre) names = names @ [x]"
proof -
  obtain y z where x: "x = y @ [z]" using assms(3) by (cases x rule: rev_cases) auto
  have "parse_frames_from arg (length y + 1) (length pre) (length pre) names = parse_frames_from arg 1 (length pre + length y) (length pre) names"
    using parse_skip [of arg pre y "[z]" names 0 1 "length pre"] assms x by simp
  moreover have "arg ! (length pre + length y) = z" "z \<noteq> bar" using assms(1,2) x by (auto simp: nth_append)
  ultimately show ?thesis using assms(1,4) x by simp
qed

lemma parse_enough: "MAX_FRAME_NUM \<le> length names \<Longrightarrow> parse_frames_from arg n i idx names = names"
  by (cases n) simp_all

lemma parse_joined:
  assumes "arg = pre @ join_bar xs" and "\<forall>x \<in> set xs. bar \<notin> set x" and "xs \<noteq> []" and "last xs \<noteq> []" and "length names \<le> MAX_FRAME_NUM"
  shows "parse_frames_from arg (length (join_bar xs)) (length pre) (length pre) names = take MAX_FRAME_NUM (names @ xs)"
  using assms
proof (induction xs arbitrary: pre names)
  case (Cons x xs)
  show ?case
  proof (cases "length names < MAX_FRAME_NUM")
    case full: False
    then show ?thesis using parse_enough Cons.prems(5) by simp
  next
    case room: True
    show ?thesis
    proof (cases "xs = []")
      case True
      then show ?thesis using parse_last [of arg pre x names] Cons.prems room by simp
    next
      case False
      then have "parse_frames_from arg (length (join_bar (x # xs))) (length pre) (length pre) names =
          parse_frames_from arg (length (join_bar xs)) (length (pre @ x @ [bar])) (length (pre @ x @ [bar])) (names @ [x])"
        using parse_piece [of arg pre x "join_bar xs" names] Cons.prems room by simp
      also have "\<dots> = take MAX_FRAME_NUM ((names @ [x]) @ xs)"
        using Cons.prems room False by (intro Cons.IH) simp_all
      finally show ?thesis by simp
    qed
  qed
qed simp

section \<open>The conversions\<close>

lemma even_sizes:
  assumes "W = 2 * a" "H = 2 * (b :: nat)"
  shows "W * H = 4 * (b * a)" "W * H * 5 div 4 = 5 * (b * a)" "W * H * 3 div 2 = 6 * (b * a)" "W * H div 4 = b * a"
    "(W + 1) div 2 = a" "W div 2 = a" "H div 2 = b" "r * W = 2 * (r * a)"
  using assms by simp_all

lemma quarter: "4 * x * 5 div 4 = 5 * (x :: nat)" "4 * x * 3 div 2 = 6 * x" "4 * x div 4 = x"
  by simp_all

text \<open>A planar image from the chroma bytes of an NV21 image, and back, for even sizes.\<close>

definition planar :: "nat \<Rightarrow> 'a list \<Rightarrow> 'a list" where
  "planar q xs = map (\<lambda>k. if k < 4 * q then xs ! k else if k < 5 * q then xs ! (4 * q + 2 * (k - 4 * q) + 1)
     else xs ! (4 * q + 2 * (k - 5 * q))) [0..<6 * q]"

definition interleaved :: "nat \<Rightarrow> 'a list \<Rightarrow> 'a list" where
  "interleaved q xs = map (\<lambda>k. if k < 4 * q then xs ! k else if even k then xs ! (5 * q + (k - 4 * q) div 2)
     else xs ! (4 * q + (k - 4 * q) div 2)) [0..<6 * q]"

lemma pair_index:
  assumes "4 * q \<le> k" and "k < 6 * (q :: nat)"
  shows "\<exists>t<q. k = 4 * q + 2 * t \<or> k = 4 * q + 2 * t + 1"
proof -
  obtain d where d: "k = 4 * q + d" using assms(1) le_Suc_ex by blast
  have "d = 2 * (d div 2) \<or> d = 2 * (d div 2) + 1" by presburger
  moreover have "d div 2 < q" using assms(2) d by simp
  ultimately show ?thesis using d by (metis add.assoc)
qed

lemma interleaved_planar:
  assumes "length xs = 6 * q"
  shows "interleaved q (planar q xs) = xs"
proof (rule nth_equalityI)
  fix k assume "k < length (interleaved q (planar q xs))"
  then have k: "k < 6 * q" by (simp add: interleaved_def)
  show "interleaved q (planar q xs) ! k = xs ! k"
  proof (cases "k < 4 * q")
    case False
    then obtain t where "(k = 4 * q + 2 * t \<or> k = 4 * q + 2 * t + 1) \<and> t < q" using pair_index [of q k] k by auto
    then show ?thesis using k by (auto simp: interleaved_def planar_def)
  qed (use k in \<open>simp add: interleaved_def planar_def\<close>)
qed (simp add: interleaved_def assms)


lemma chroma_inside: "t < q \<Longrightarrow> L = 6 * q \<Longrightarrow> 4 * q + 2 * t + 1 < (L :: nat)"
  by simp

lemma length_planar [simp]: "length (planar q xs) = 6 * q"
  by (simp add: planar_def)

lemma planar_below: "k < 4 * q \<Longrightarrow> planar q xs ! k = xs ! k"
  by (simp add: planar_def)

lemma planar_nth:
  assumes "t < q"
  shows "planar q xs ! (4 * q + t) = xs ! (4 * q + 2 * t + 1)" "planar q xs ! (5 * q + t) = xs ! (4 * q + 2 * t)"
    "4 * q + t < 6 * q" "5 * q + t < 6 * q"
  using assms by (simp_all add: planar_def)

lemma chroma_update2:
  assumes "v i = Some x" and "v j = Some y" and "i < length s" and "j < length s"
  shows "do { s1 \<leftarrow> slot_set s i x; slot_set s1 j y } = Some (paints {i, j} v s)"
  using assms by (simp add: slot_set_paints [where v = v] paints_paints insert_commute)

lemma memcpy_painted:
  assumes "length xs = 6 * q" and "length out = 6 * q" and "\<And>k. k < 4 * q \<Longrightarrow> ys ! k = xs ! k" and "length ys = 6 * q"
    and "\<And>k. 4 * q \<le> k \<Longrightarrow> k < 6 * q \<Longrightarrow> k \<in> A"
  shows "paints A (\<lambda>k. Some (ys ! k)) (take (4 * q) (map Some xs) @ drop (4 * q) out) = map Some ys"
proof (rule nth_equalityI)
  fix k assume "k < length (paints A (\<lambda>k. Some (ys ! k)) (take (4 * q) (map Some xs) @ drop (4 * q) out))"
  then have k: "k < 6 * q" using assms(1,2) by simp
  show "paints A (\<lambda>k. Some (ys ! k)) (take (4 * q) (map Some xs) @ drop (4 * q) out) ! k = map Some ys ! k"
  proof (cases "k < 4 * q")
    case True
    then show ?thesis using k assms by (simp add: nth_append)
  next
    case False
    then show ?thesis using k assms by simp
  qed
qed (use assms in simp)

lemma chroma_cover:
  assumes "4 * (b * a) \<le> k" and "k < 6 * (b * a :: nat)"
  shows "k \<in> (\<Union>r<b. \<Union>c<a. {4 * (b * a) + (r * a + c), 5 * (b * a) + (r * a + c)})"
proof -
  define q where "q = b * a"
  define t where "t = (if k < 5 * q then k - 4 * q else k - 5 * q)"
  have t: "t < q" "k = 4 * q + t \<or> k = 5 * q + t" using assms unfolding q_def [symmetric] by (auto simp: t_def)
  obtain r c where "r < b" "c < a" "t = r * a + c" using row_cover [of t b a] t(1) unfolding q_def by blast
  then show ?thesis using t(2) unfolding q_def by blast
qed

lemma to_planar_eq:
  assumes W: "W = 2 * a" "H = 2 * b" and fits: "W * H * 5 < 2 ^ 31" and len: "length xs = W * H * 3 div 2" "length out = W * H * 3 div 2"
  shows "yvu420s_yuv420p (map Some xs) W H out = Some (map Some (planar (b * a) xs))"
proof -
  let ?q = "b * a"
  let ?v = "\<lambda>k. Some (planar ?q xs ! k)"
  let ?own = "\<lambda>r k. {4 * ?q + (r * a + k), 5 * ?q + (r * a + k)}"
  note e = even_sizes [OF W]
  have l: "length xs = 6 * ?q" "length out = 6 * ?q" using len e(3) by simp_all
  let ?s = "take (4 * ?q) (map Some xs) @ drop (4 * ?q) out"
  have "for_upto b (\<lambda>r. for_upto a (\<lambda>k out. do {
             u \<leftarrow> slot_get (map Some xs) (4 * ?q + 2 * (r * a) + 2 * k + 1);
             out1 \<leftarrow> slot_set out (4 * ?q + (r * a + k)) u;
             v \<leftarrow> slot_get (map Some xs) (4 * ?q + 2 * (r * a) + 2 * k);
             slot_set out1 (5 * ?q + (r * a + k)) v })) ?s = Some (paints (\<Union>r<b. \<Union>k<a. ?own r k) ?v ?s)"
  proof (rule raster_paints)
    fix r k and s :: buffer assume rk: "r < b" "k < a" and s: "length s = 6 * ?q"
    have t: "r * a + k < ?q" using rk by (rule row_less)
    have g: "slot_get (map Some xs) (4 * ?q + 2 * (r * a) + 2 * k + 1) = Some (xs ! (4 * ?q + 2 * (r * a + k) + 1))"
      "slot_get (map Some xs) (4 * ?q + 2 * (r * a) + 2 * k) = Some (xs ! (4 * ?q + 2 * (r * a + k)))"
    proof -
      have "4 * ?q + 2 * (r * a) + 2 * k = 4 * ?q + 2 * (r * a + k)" by (simp only: add_mult_distrib2 add.assoc)
      moreover have "4 * ?q + 2 * (r * a + k) + 1 < length xs" using t l(1) by (rule chroma_inside)
      ultimately show "slot_get (map Some xs) (4 * ?q + 2 * (r * a) + 2 * k + 1) = Some (xs ! (4 * ?q + 2 * (r * a + k) + 1))"
        "slot_get (map Some xs) (4 * ?q + 2 * (r * a) + 2 * k) = Some (xs ! (4 * ?q + 2 * (r * a + k)))"
        by (simp_all only: slot_get_def length_map nth_map if_True add_lessD1)
    qed
    show "do {
        u \<leftarrow> slot_get (map Some xs) (4 * ?q + 2 * (r * a) + 2 * k + 1);
        out1 \<leftarrow> slot_set s (4 * ?q + (r * a + k)) u;
        v \<leftarrow> slot_get (map Some xs) (4 * ?q + 2 * (r * a) + 2 * k);
        slot_set out1 (5 * ?q + (r * a + k)) v } = Some (paints (?own r k) ?v s)"
      unfolding g bind.bind_lunit by (rule chroma_update2) (simp_all only: planar_nth [OF t] s)
  qed (use l in simp)
  moreover have "paints (\<Union>r<b. \<Union>k<a. ?own r k) ?v ?s = map Some (planar ?q xs)"
    by (rule memcpy_painted [OF l]) (simp_all only: planar_below length_planar chroma_cover)
  moreover have "slots_memcpy out (map Some xs) (4 * ?q) = Some ?s" using l by (simp add: slots_memcpy_def)
  ultimately show ?thesis
    using fits unfolding yvu420s_yuv420p_def Let_def e quarter by simp
qed


lemma interleaved_nth:
  assumes "t < q"
  shows "interleaved q xs ! (4 * q + 2 * t) = xs ! (4 * q + q + t)" "interleaved q xs ! (4 * q + 2 * t + 1) = xs ! (4 * q + t)"
    "4 * q + 2 * t < 6 * q" "4 * q + 2 * t + 1 < 6 * q" "4 * q + q + t < 6 * q" "4 * q + t < 6 * q"
proof -
  show b: "4 * q + 2 * t < 6 * q" "4 * q + 2 * t + 1 < 6 * q" "4 * q + q + t < 6 * q" "4 * q + t < 6 * q"
    using assms by linarith+
  have n: "interleaved q xs ! k = (if k < 4 * q then xs ! k else if even k then xs ! (5 * q + (k - 4 * q) div 2)
     else xs ! (4 * q + (k - 4 * q) div 2))" if "k < 6 * q" for k
    using that by (simp add: interleaved_def)
  have "even (4 * q + 2 * t)" "\<not> even (4 * q + 2 * t + 1)" "5 * q + (4 * q + 2 * t - 4 * q) div 2 = 4 * q + q + t"
    "4 * q + (4 * q + 2 * t + 1 - 4 * q) div 2 = 4 * q + t" "\<not> 4 * q + 2 * t < 4 * q" "\<not> 4 * q + 2 * t + 1 < 4 * q"
    by presburger+
  then show "interleaved q xs ! (4 * q + 2 * t) = xs ! (4 * q + q + t)" "interleaved q xs ! (4 * q + 2 * t + 1) = xs ! (4 * q + t)"
    unfolding n [OF b(1)] n [OF b(2)] by (simp_all only: if_True if_False not_True_eq_False)
qed

lemma interleaved_below: "k < 4 * q \<Longrightarrow> interleaved q xs ! k = xs ! k"
  by (simp add: interleaved_def)

lemma length_interleaved [simp]: "length (interleaved q xs) = 6 * q"
  by (simp add: interleaved_def)

lemma pair_cover:
  assumes "4 * (b * a) \<le> k" and "k < 6 * (b * a :: nat)"
  shows "k \<in> (\<Union>r<b. \<Union>c<a. {4 * (b * a) + 2 * (r * a + c), 4 * (b * a) + 2 * (r * a + c) + 1})"
proof -
  define q where "q = b * a"
  obtain t where t: "t < q" "k = 4 * q + 2 * t \<or> k = 4 * q + 2 * t + 1"
    using pair_index assms unfolding q_def by blast
  obtain r c where "r < b" "c < a" "t = r * a + c" using row_cover [of t b a] t(1) unfolding q_def by blast
  then show ?thesis using t(2) unfolding q_def by blast
qed

lemma to_nv21_eq:
  assumes W: "W = 2 * a" "H = 2 * b" and fits: "W * H < 2 ^ 31" and len: "length xs = W * H * 3 div 2" "length out = W * H * 3 div 2"
  shows "yuv420p_yvu420s (map Some xs) W H out = Some (map Some (interleaved (b * a) xs))"
proof -
  let ?q = "b * a"
  let ?v = "\<lambda>k. Some (interleaved ?q xs ! k)"
  let ?own = "\<lambda>r k. {4 * ?q + 2 * (r * a + k), 4 * ?q + 2 * (r * a + k) + 1}"
  note e = even_sizes [OF W]
  have l: "length xs = 6 * ?q" "length out = 6 * ?q" using len e(3) by simp_all
  let ?s = "take (4 * ?q) (map Some xs) @ drop (4 * ?q) out"
  have "for_upto b (\<lambda>r. for_upto a (\<lambda>c out. do {
             v \<leftarrow> slot_get (map Some xs) (4 * ?q + ?q + (r * a + c));
             out1 \<leftarrow> slot_set out (4 * ?q + 2 * (r * a + c)) v;
             u \<leftarrow> slot_get (map Some xs) (4 * ?q + (r * a + c));
             slot_set out1 (4 * ?q + 2 * (r * a + c) + 1) u })) ?s = Some (paints (\<Union>r<b. \<Union>k<a. ?own r k) ?v ?s)"
  proof (rule raster_paints)
    fix r c and s :: buffer assume rc: "r < b" "c < a" and s: "length s = 6 * ?q"
    have t: "r * a + c < ?q" using rc by (rule row_less)
    have g: "slot_get (map Some xs) (4 * ?q + ?q + (r * a + c)) = Some (xs ! (4 * ?q + ?q + (r * a + c)))"
      "slot_get (map Some xs) (4 * ?q + (r * a + c)) = Some (xs ! (4 * ?q + (r * a + c)))"
      using interleaved_nth(5,6) [OF t] by (simp_all only: slot_get_def length_map nth_map if_True l)
    show "do {
        v \<leftarrow> slot_get (map Some xs) (4 * ?q + ?q + (r * a + c));
        out1 \<leftarrow> slot_set s (4 * ?q + 2 * (r * a + c)) v;
        u \<leftarrow> slot_get (map Some xs) (4 * ?q + (r * a + c));
        slot_set out1 (4 * ?q + 2 * (r * a + c) + 1) u } = Some (paints (?own r c) ?v s)"
      unfolding g bind.bind_lunit by (rule chroma_update2) (simp_all only: interleaved_nth [OF t] s)
  qed (use l in simp)
  moreover have "paints (\<Union>r<b. \<Union>k<a. ?own r k) ?v ?s = map Some (interleaved ?q xs)"
    by (rule memcpy_painted [OF l]) (simp_all only: interleaved_below length_interleaved pair_cover)
  moreover have "slots_memcpy out (map Some xs) (4 * ?q) = Some ?s" using l by (simp add: slots_memcpy_def)
  ultimately show ?thesis
    using fits unfolding yuv420p_yvu420s_def Let_def e quarter by simp
qed

section \<open>Planes and pixels\<close>

lemma paint3:
  assumes "v i = Some x" and "v j = Some y" and "v k = Some z" and "i < length s" and "j < length s" and "k < length s"
  shows "do { s1 \<leftarrow> slot_set s i x; s2 \<leftarrow> slot_set s1 j y; slot_set s2 k z } = Some (paints {i, j, k} v s)"
  using assms by (simp add: slot_set_paints [where v = v] paints_paints insert_commute)

text \<open>The three planes of an image of \<open>n\<close> pixels, and its colours.\<close>

definition planes :: "nat \<Rightarrow> (nat \<Rightarrow> 'a) \<Rightarrow> (nat \<Rightarrow> 'a) \<Rightarrow> (nat \<Rightarrow> 'a) \<Rightarrow> 'a list" where
  "planes n y u v = map (\<lambda>k. if k < n then y k else if k < n + n then u (k - n) else v (k - (n + n))) [0..<n + n + n]"

lemma planes_nth [simp]:
  assumes "p < n"
  shows "planes n y u v ! p = y p" "planes n y u v ! (n + p) = u p" "planes n y u v ! (n + n + p) = v p"
    "p < n + n + n" "n + p < n + n + n" "n + n + p < n + n + n"
  using assms by (simp_all add: planes_def)

lemma length_planes [simp]: "length (planes n y u v) = n + n + n"
  by (simp add: planes_def)

lemma planes_cover:
  assumes "k < h * w + h * w + (h * w :: nat)"
  shows "k \<in> (\<Union>i<h. \<Union>j<w. {i * w + j, h * w + (i * w + j), h * w + h * w + (i * w + j)})"
proof -
  define n where "n = h * w"
  define p where "p = (if k < n then k else if k < n + n then k - n else k - (n + n))"
  have p: "p < n" "k = p \<or> k = n + p \<or> k = n + n + p" using assms unfolding n_def [symmetric] p_def by auto
  obtain i j where "i < h" "j < w" "p = i * w + j" using row_cover [of p h w] p(1) unfolding n_def by blast
  then show ?thesis using p(2) unfolding n_def by blast
qed

definition chroma_at :: "nat \<Rightarrow> nat \<Rightarrow> nat" where
  "chroma_at a p = (p div (2 * a) div 2) * a + p mod (2 * a) div 2"

lemma chroma_at_pixel: "j < 2 * a \<Longrightarrow> chroma_at a (i * (2 * a) + j) = (i div 2) * a + j div 2"
  by (simp add: chroma_at_def)

lemma chroma_at_less: "i < 2 * b \<Longrightarrow> j < 2 * a \<Longrightarrow> (i div 2) * a + j div 2 < b * (a :: nat)"
  by (intro row_less) simp_all

lemma planar_get:
  assumes "length xs = 6 * q" and "t < q" and "p < 4 * q"
  shows "slot_get (map Some xs) p = Some (xs ! p)" "slot_get (map Some xs) (4 * q + t) = Some (xs ! (4 * q + t))"
    "slot_get (map Some xs) (5 * q + t) = Some (xs ! (5 * q + t))"
  using assms by (simp_all add: slot_get_def)

lemma upsample_eq:
  assumes len: "length xs = 6 * (b * a)"
  shows "upsample (map Some xs) (2 * a) (2 * b) (replicate (2 * a * (2 * b) * 3) None) =
    Some (map Some (planes (2 * b * (2 * a)) (\<lambda>p. xs ! p) (\<lambda>p. xs ! (4 * (b * a) + chroma_at a p)) (\<lambda>p. xs ! (5 * (b * a) + chroma_at a p))))"
proof -
  let ?q = "b * a" and ?n = "2 * b * (2 * a)" and ?W = "2 * a" and ?H = "2 * b"
  let ?ys = "planes ?n (\<lambda>p. xs ! p) (\<lambda>p. xs ! (4 * ?q + chroma_at a p)) (\<lambda>p. xs ! (5 * ?q + chroma_at a p))"
  let ?v = "\<lambda>k. Some (?ys ! k)"
  let ?own = "\<lambda>i j. {i * ?W + j, ?n + (i * ?W + j), ?n + ?n + (i * ?W + j)}"
  have e: "2 * a * (2 * b) = ?n" "?n = 4 * ?q" "2 * a * (2 * b) * 5 div 4 = 5 * ?q" by (simp_all add: mult.commute mult.left_commute)
  have "upsample (map Some xs) ?W ?H (replicate (?n + ?n + ?n) None) = Some (paints (\<Union>i<?H. \<Union>j<?W. ?own i j) ?v (replicate (?n + ?n + ?n) None))"
    unfolding upsample_def
  proof (rule raster_paints)
    fix i j and s :: buffer assume ij: "i < ?H" "j < ?W" and s: "length s = ?n + ?n + ?n"
    let ?p = "i * ?W + j" and ?t = "(i div 2) * a + j div 2"
    have p: "?p < ?n" using ij by (rule row_less)
    have t: "?t < ?q" using ij by (rule chroma_at_less)
    have idx: "(i div 2) * ?W div 2 + j div 2 + 2 * a * (2 * b) = 4 * ?q + ?t" "(i div 2) * ?W div 2 + j div 2 + 2 * a * (2 * b) * 5 div 4 = 5 * ?q + ?t"
      unfolding e(3) unfolding e(1,2) by simp_all
    note g = planar_get [OF len t p [unfolded e(2)]]
    have o: "?p + 2 * a * (2 * b) = ?n + ?p" "?p + 2 * a * (2 * b) * 2 = ?n + ?n + ?p" unfolding e(1) by simp_all
    show "do {
       y \<leftarrow> slot_get (map Some xs) ?p;
       yuv1 \<leftarrow> slot_set s ?p y;
       u \<leftarrow> slot_get (map Some xs) ((i div 2) * ?W div 2 + (j div 2) + 2 * a * (2 * b));
       yuv2 \<leftarrow> slot_set yuv1 (?p + 2 * a * (2 * b)) u;
       v \<leftarrow> slot_get (map Some xs) ((i div 2) * ?W div 2 + (j div 2) + 2 * a * (2 * b) * 5 div 4);
       slot_set yuv2 (?p + 2 * a * (2 * b) * 2) v } = Some (paints (?own i j) ?v s)"
      unfolding idx g bind.bind_lunit o
      by (rule paint3) (simp_all only: planes_nth [OF p] chroma_at_pixel [OF ij(2)] s)
  qed simp
  moreover have "paints (\<Union>i<?H. \<Union>j<?W. ?own i j) ?v (replicate (?n + ?n + ?n) None) = map Some ?ys"
  proof (rule nth_equalityI)
    fix k assume "k < length (paints (\<Union>i<?H. \<Union>j<?W. ?own i j) ?v (replicate (?n + ?n + ?n) None))"
    then have k: "k < ?n + ?n + ?n" by (simp only: length_paints length_replicate)
    then show "paints (\<Union>i<?H. \<Union>j<?W. ?own i j) ?v (replicate (?n + ?n + ?n) None) ! k = map Some ?ys ! k"
      using planes_cover [OF k] by (simp only: nth_paints length_replicate if_True nth_map length_planes)
  qed (simp only: length_paints length_replicate length_map length_planes)
  moreover have "2 * a * (2 * b) * 3 = ?n + ?n + ?n" by simp
  ultimately show ?thesis by (simp only:)
qed


definition colours :: "nat \<Rightarrow> (nat \<Rightarrow> u8) \<Rightarrow> (nat \<Rightarrow> u8) \<Rightarrow> (nat \<Rightarrow> u8) \<Rightarrow> bytes" where
  "colours n y u v = map (\<lambda>k. let p = k div 3 in
     if k mod 3 = 0 then red_val (y p) (v p) else if k mod 3 = 1 then green_val (y p) (u p) (v p) else blue_val (y p) (u p)) [0..<n * 3]"

lemma colours_nth:
  assumes "p < n"
  shows "colours n y u v ! (p * 3) = red_val (y p) (v p)" "colours n y u v ! (p * 3 + 1) = green_val (y p) (u p) (v p)"
    "colours n y u v ! (p * 3 + 2) = blue_val (y p) (u p)" "p * 3 < n * 3" "p * 3 + 1 < n * 3" "p * 3 + 2 < n * 3"
proof -
  show b: "p * 3 < n * 3" "p * 3 + 1 < n * 3" "p * 3 + 2 < n * 3" using assms by simp_all
  have d: "(p * 3) div 3 = p" "(p * 3 + 1) div 3 = p" "(p * 3 + 2) div 3 = p" "(p * 3) mod 3 = 0" "(p * 3 + 1) mod 3 = 1" "(p * 3 + 2) mod 3 = 2"
    by presburger+
  have c: "colours n y u v ! k = (let p = k div 3 in
     if k mod 3 = 0 then red_val (y p) (v p) else if k mod 3 = 1 then green_val (y p) (u p) (v p) else blue_val (y p) (u p))" if "k < n * 3" for k
    using that by (simp add: colours_def Let_def)
  show "colours n y u v ! (p * 3) = red_val (y p) (v p)" "colours n y u v ! (p * 3 + 1) = green_val (y p) (u p) (v p)"
    "colours n y u v ! (p * 3 + 2) = blue_val (y p) (u p)"
    unfolding c [OF b(1)] c [OF b(2)] c [OF b(3)] d by (simp_all add: Let_def)
qed

lemma length_colours [simp]: "length (colours n y u v) = n * 3"
  by (simp add: colours_def)

lemma colours_cover:
  assumes "k < h * w * (3 :: nat)"
  shows "k \<in> (\<Union>i<h. \<Union>j<w. {(i * w + j) * 3, (i * w + j) * 3 + 1, (i * w + j) * 3 + 2})"
proof -
  have "0 < w" using assms by (cases w) simp_all
  then obtain i j c where p: "i < h" "j < w" "c < 3" "k = pos3 w i j c" using pos3_cover assms by blast
  moreover have "c = 0 \<or> c = 1 \<or> c = 2" using p(3) by linarith
  ultimately have "k \<in> {(i * w + j) * 3, (i * w + j) * 3 + 1, (i * w + j) * 3 + 2}" by (auto simp: pos3_def)
  then show ?thesis using p(1,2) by blast
qed

lemma yuv2rgb_eq:
  assumes fits: "unat w * unat h < 2 ^ 31" and out: "length out = unat h * unat w * 3"
  shows "yuv2rgb (map Some (planes (unat h * unat w) y u v)) out w h = Some (map Some (colours (unat h * unat w) y u v))"
proof -
  let ?w = "unat w" and ?h = "unat h" and ?n = "unat h * unat w"
  let ?ys = "planes ?n y u v" and ?v = "\<lambda>k. Some (colours ?n y u v ! k)"
  let ?own = "\<lambda>i j. {(i * ?w + j) * 3, (i * ?w + j) * 3 + 1, (i * ?w + j) * 3 + 2}"
  have nf: "\<not> 2 ^ 31 \<le> ?h * ?w" using fits by (simp only: mult.commute not_le)
  have "yuv2rgb (map Some ?ys) out w h = Some (paints (\<Union>i<?h. \<Union>j<?w. ?own i j) ?v out)"
    unfolding yuv2rgb_def Let_def mult.commute [of ?w ?h] if_not_P [OF nf]
  proof (rule raster_paints [OF _ out])
    fix i j and s :: buffer assume ij: "i < ?h" "j < ?w" and s: "length s = ?n * 3"
    let ?p = "i * ?w + j"
    have p: "?p < ?n" using ij by (rule row_less)
    have g: "slot_get (map Some ?ys) ?p = Some (y ?p)" "slot_get (map Some ?ys) (?n + ?p) = Some (u ?p)"
      "slot_get (map Some ?ys) (?n + ?n + ?p) = Some (v ?p)"
      by (simp_all only: slot_get_def length_map length_planes planes_nth [OF p] if_True nth_map)
    show "do {
        y \<leftarrow> slot_get (map Some ?ys) ?p;
        u \<leftarrow> slot_get (map Some ?ys) (?n + ?p);
        v \<leftarrow> slot_get (map Some ?ys) (?n + ?n + ?p);
        out1 \<leftarrow> slot_set s (?p * 3) (red_val y v);
        out2 \<leftarrow> slot_set out1 (?p * 3 + 1) (green_val y u v);
        slot_set out2 (?p * 3 + 2) (blue_val y u) } = Some (paints (?own i j) ?v s)"
      unfolding g bind.bind_lunit by (rule paint3) (simp_all only: colours_nth [OF p] s)
  qed
  moreover have "paints (\<Union>i<?h. \<Union>j<?w. ?own i j) ?v out = map Some (colours ?n y u v)"
  proof (rule nth_equalityI)
    fix k assume "k < length (paints (\<Union>i<?h. \<Union>j<?w. ?own i j) ?v out)"
    then have k: "k < ?n * 3" by (simp only: length_paints out)
    then show "paints (\<Union>i<?h. \<Union>j<?w. ?own i j) ?v out ! k = map Some (colours ?n y u v) ! k"
      using colours_cover [OF k] by (simp only: nth_paints out if_True nth_map length_colours)
  qed (simp only: length_paints length_map length_colours out)
  ultimately show ?thesis by (simp only:)
qed

text \<open>Without chroma the colour is the grey of the luma.\<close>

lemma grey:
  "red_val y 128 = y" "green_val y 128 128 = y" "blue_val y 128 = y"
proof -
  have y: "0 \<le> uint y" "uint y < 256" using uint_lt2p [of y] by simp_all
  have "- (2 ^ 15) \<le> uint y" by (rule order_trans [OF _ y(1)]) simp
  then have "i16 (uint y) = uint y" using y(2) signed_take_bit_int_eq_self [of 15 "uint y"] by (simp add: i16_def)
  then show "red_val y 128 = y" "green_val y 128 128 = y" "blue_val y 128 = y"
    using y by (simp_all add: red_val_def green_val_def blue_val_def ISP_CLIP_def)
qed

section \<open>Properties\<close>

text \<open>
  The names of the input files: of names without bars, joined by bars, the last one not empty,
  \<open>parse_input_frames\<close> gets back the first two.
\<close>

theorem parse_input_frames_correct:
  assumes "\<forall>x \<in> set names. bar \<notin> set x" and "names \<noteq> []" and "last names \<noteq> []"
  shows "parse_input_frames (join_bar names) = take 2 names"
  using parse_joined [of "join_bar names" "[]" names "[]"] assms by (simp add: parse_input_frames_def MAX_FRAME_NUM_def)

theorem parse_input_frames_correct_witness:
  "parse_input_frames [0x61, 0x7c, 0x62, 0x63, 0x7c, 0x64] = [[0x61], [0x62, 0x63]]"
  using parse_input_frames_correct [of "[[0x61], [0x62, 0x63], [0x64]]"] by (simp add: bar_def)


text \<open>
  NV21 and planar images: for even sizes the two conversions are defined, and one after the other they give
  back the image.
\<close>

theorem nv21_roundtrip:
  assumes "even w" and "even h" and "w * h * 5 < 2 ^ 31" and "length xs = w * h * 3 div 2"
    and "length out1 = w * h * 3 div 2" and "length out2 = w * h * 3 div 2"
  shows "\<exists>ys. yvu420s_yuv420p (map Some xs) w h out1 = Some ys \<and> yuv420p_yvu420s ys w h out2 = Some (map Some xs)"
proof -
  obtain a b where ab: "w = 2 * a" "h = 2 * b" using assms(1,2) by (auto elim!: evenE)
  have len: "length xs = 6 * (b * a)" using assms(4) even_sizes(3) [OF ab] by simp
  have "yvu420s_yuv420p (map Some xs) w h out1 = Some (map Some (planar (b * a) xs))"
    using ab assms(3-5) by (rule to_planar_eq)
  moreover have "yuv420p_yvu420s (map Some (planar (b * a) xs)) w h out2 = Some (map Some (interleaved (b * a) (planar (b * a) xs)))"
    using assms(3,6) even_sizes(3) [OF ab] by (intro to_nv21_eq [OF ab]) simp_all
  ultimately show ?thesis using interleaved_planar [OF len] by simp
qed

theorem nv21_roundtrip_witness:
  "\<exists>ys. yvu420s_yuv420p (map Some [1, 2, 3, 4, 5, 6]) 2 2 (replicate 6 None) = Some ys \<and>
    yuv420p_yvu420s ys 2 2 (replicate 6 None) = Some (map Some [1, 2, 3, 4, 5, 6])"
  by (rule nv21_roundtrip) simp_all

lemma planes_cong:
  "(\<And>p. p < n \<Longrightarrow> y p = y' p \<and> u p = u' p \<and> v p = v' p) \<Longrightarrow> planes n y u v = planes n y' u' v'"
  by (rule nth_equalityI) (auto simp: planes_def)

lemma chroma_at_bound:
  assumes "p < 2 * b * (2 * a)"
  shows "chroma_at a p < b * a"
proof -
  have a: "0 < a" using assms by (cases a) simp_all
  then have "p div (2 * a) < 2 * b" "p mod (2 * a) < 2 * a" using assms by (simp_all add: less_mult_imp_div_less)
  then show ?thesis unfolding chroma_at_def by (rule chroma_at_less)
qed

lemma save_as_bmp_eq:
  assumes ab: "w = 2 * a" "h = 2 * b" and small: "w * h * 5 < 2 ^ 31" "w < 2 ^ 16" "h < 2 ^ 16" and fits: "image_fits (of_nat w) (of_nat h)"
    and len: "length xs = w * h * 3 div 2" and name: "length name + 4 < 512"
  shows "save_as_bmp True name (map Some xs) w h = Some (name @ [0x2e, 0x62, 0x6d, 0x70], Some (bmp_file (of_nat w) (of_nat h)
    (colours (h * w) (\<lambda>p. xs ! p) (\<lambda>p. xs ! (4 * (b * a) + 2 * chroma_at a p + 1)) (\<lambda>p. xs ! (4 * (b * a) + 2 * chroma_at a p)))))"
proof -
  let ?q = "b * a" and ?n = "2 * b * (2 * a)"
  let ?y = "\<lambda>p. xs ! p" and ?u = "\<lambda>p. xs ! (4 * ?q + 2 * chroma_at a p + 1)" and ?v = "\<lambda>p. xs ! (4 * ?q + 2 * chroma_at a p)"
  have planar: "yvu420s_yuv420p (map Some xs) w h (replicate (w * h * 3 div 2) None) = Some (map Some (planar ?q xs))"
    using ab small(1) len by (rule to_planar_eq) simp
  have same: "planes ?n (\<lambda>p. planar ?q xs ! p) (\<lambda>p. planar ?q xs ! (4 * ?q + chroma_at a p)) (\<lambda>p. planar ?q xs ! (5 * ?q + chroma_at a p)) =
      planes ?n ?y ?u ?v"
  proof (rule planes_cong)
    fix p assume p: "p < ?n"
    then have "p < 4 * ?q" by simp
    then show "planar ?q xs ! p = xs ! p \<and> planar ?q xs ! (4 * ?q + chroma_at a p) = ?u p \<and> planar ?q xs ! (5 * ?q + chroma_at a p) = ?v p"
      using planar_nth(1,2) [OF chroma_at_bound [OF p], of xs] by (simp only: planar_below)
  qed
  have up: "upsample (map Some (planar ?q xs)) w h (replicate (w * h * 3) None) = Some (map Some (planes (h * w) ?y ?u ?v))"
    using upsample_eq [of "planar ?q xs" b a] unfolding same by (simp only: ab length_planar)
  have u16: "unat (of_nat w :: u16) = w" "unat (of_nat h :: u16) = h" using small by (simp_all add: unat_of_nat take_bit_nat_eq_self)
  have u32: "unat (of_nat w :: u32) = w" "unat (of_nat h :: u32) = h" using small by (simp_all add: unat_of_nat take_bit_nat_eq_self)
  have "w * h < 2 ^ 31" using small(1) by simp
  then have rgb: "yuv2rgb (map Some (planes (h * w) ?y ?u ?v)) (replicate (w * h * 3) None) (of_nat w) (of_nat h) =
      Some (map Some (colours (h * w) ?y ?u ?v))"
    using yuv2rgb_eq [of "of_nat w" "of_nat h" "replicate (w * h * 3) None" ?y ?u ?v] by (simp add: u16 mult.commute)
  have bmp: "save_bmp True (map Some (colours (h * w) ?y ?u ?v)) (of_nat w) (of_nat h) =
      Some (54 + bmp_size (of_nat w) (of_nat h), Some (bmp_file (of_nat w) (of_nat h) (colours (h * w) ?y ?u ?v)))"
    by (rule save_bmp_eq [OF fits]) (simp only: length_colours u32)
  show ?thesis unfolding save_as_bmp_def Let_def planar up rgb bmp bind.bind_lunit
    using small(1) name by (simp add: MAX_FILENAME_LENGTH_def)
qed


text \<open>
  C33. \<open>save_as_bmp\<close> of an NV21 image writes a BMP file from which \<open>OpenBMPFile\<close> gets an image of the same size,
  in which every pixel has the colour of its own luma and of the chroma of its block of four, and is grey
  where the chroma is neutral.
\<close>

theorem saved_image_correct:
  assumes "even w" and "even h" and "w * h * 5 < 2 ^ 31" and "w < 2 ^ 16" and "h < 2 ^ 16" and "image_fits (of_nat w) (of_nat h)"
    and "row_bytes w < 2 ^ 16" and "length xs = w * h * 3 div 2" and "length name + 4 < 512" and "i < h" and "j < w"
  shows "\<exists>file info pix. save_as_bmp True name (map Some xs) w h = Some (name @ [0x2e, 0x62, 0x6d, 0x70], Some file) \<and>
    OpenBMPFile (Some file) = Some (1, Some (info, map Some pix)) \<and> biWidth info = of_nat w \<and> biHeight info = of_nat h \<and>
    length pix = h * w * 3 \<and>
    (let y = xs ! (i * w + j); t = w * h + 2 * (i div 2 * (w div 2) + j div 2); v = xs ! t; u = xs ! (t + 1) in
     pix ! pos3 w i j 0 = red_val y v \<and> pix ! pos3 w i j 1 = green_val y u v \<and> pix ! pos3 w i j 2 = blue_val y u \<and>
     (u = 128 \<and> v = 128 \<longrightarrow> (\<forall>c<3. pix ! pos3 w i j c = y)))"
proof -
  obtain a b where ab: "w = 2 * a" "h = 2 * b" using assms(1,2) by (auto elim!: evenE)
  let ?u = "\<lambda>p. xs ! (4 * (b * a) + 2 * chroma_at a p + 1)" and ?v = "\<lambda>p. xs ! (4 * (b * a) + 2 * chroma_at a p)"
  let ?pix = "colours (h * w) (\<lambda>p. xs ! p) ?u ?v"
  have u32: "unat (of_nat w :: u32) = w" "unat (of_nat h :: u32) = h" using assms(4,5) by (simp_all add: unat_of_nat take_bit_nat_eq_self)
  have len: "length ?pix = unat (of_nat h :: u32) * unat (of_nat w :: u32) * 3" by (simp only: length_colours u32)
  have "row_bytes (unat (of_nat w :: u32)) mod 2 ^ 16 = row_bytes (unat (of_nat w :: u32))" using assms(7) u32 by simp
  then have reopened: "OpenBMPFile (Some (bmp_file (of_nat w) (of_nat h) ?pix)) = Some (1, Some (bmp_info (of_nat w) (of_nat h), map Some ?pix))"
    using OpenBMPFile_eq [OF assms(6), of ?pix] opened_same [OF assms(6) len] by simp
  have p: "i * w + j < h * w" using assms(10,11) by (rule row_less)
  have t: "4 * (b * a) + 2 * chroma_at a (i * w + j) = w * h + 2 * (i div 2 * (w div 2) + j div 2)"
    using chroma_at_pixel [of j a i] assms(11) even_sizes(1,6) [OF ab] unfolding ab by simp
  let ?y = "xs ! (i * w + j)" and ?t = "w * h + 2 * (i div 2 * (w div 2) + j div 2)"
  have pix: "?pix ! pos3 w i j 0 = red_val ?y (xs ! ?t)" "?pix ! pos3 w i j 1 = green_val ?y (xs ! (?t + 1)) (xs ! ?t)"
    "?pix ! pos3 w i j 2 = blue_val ?y (xs ! (?t + 1))"
    by (simp_all only: pos3_def add_0_right colours_nth(1-3) [OF p] t)
  have "\<forall>c<3. ?pix ! pos3 w i j c = ?y" if "xs ! (?t + 1) = 128" "xs ! ?t = 128"
  proof (intro allI impI)
    fix c :: nat assume "c < 3"
    then have "c = 0 \<or> c = 1 \<or> c = 2" by linarith
    then show "?pix ! pos3 w i j c = ?y" by (elim disjE) (simp_all only: pix that grey)
  qed
  moreover have "save_as_bmp True name (map Some xs) w h =
      Some (name @ [0x2e, 0x62, 0x6d, 0x70], Some (bmp_file (of_nat w) (of_nat h) ?pix))"
    by (rule save_as_bmp_eq [OF ab assms(3-6,8,9)])
  ultimately show ?thesis using reopened pix
    by (intro exI [of _ "bmp_file (of_nat w) (of_nat h) ?pix"] exI [of _ "bmp_info (of_nat w) (of_nat h)"] exI [of _ ?pix])
      (simp add: Let_def bmp_info_def)
qed

theorem saved_image_correct_witness:
  "\<exists>file info pix. save_as_bmp True [0x61] (map Some [10, 20, 30, 40, 128, 128]) 2 2 = Some ([0x61, 0x2e, 0x62, 0x6d, 0x70], Some file) \<and>
    OpenBMPFile (Some file) = Some (1, Some (info, map Some pix)) \<and> biWidth info = 2 \<and> pix ! pos3 2 1 0 2 = 30"
proof -
  have pre: "even (2 :: nat)" "even (2 :: nat)" "2 * 2 * 5 < (2 ^ 31 :: nat)" "(2 :: nat) < 2 ^ 16" "(2 :: nat) < 2 ^ 16"
    "image_fits (of_nat 2) (of_nat 2)" "row_bytes 2 < 2 ^ 16" "length [10, 20, 30, 40, 128, 128 :: u8] = 2 * 2 * 3 div 2"
    "length [0x61 :: u8] + 4 < 512" "(1 :: nat) < 2" "(0 :: nat) < 2"
    by (simp_all add: image_fits_def row_bytes_def)
  from saved_image_correct [OF pre] show ?thesis by (auto simp: Let_def)
qed

end
