(* ===== verification/Image_Flip.thy ===== *)
theory Image_Flip
  imports Image_Formats
begin

text \<open>
  \<open>ImageYUV420_flip\<close> and the reading of interleaved images in the depth test case,
  \<open>systest-cases/depth_bokeh/ImageFormat_Conversion.cpp\<close>. Sizes are not negative, and the flags are given by
  whether they are 1.
\<close>

section \<open>Flipping\<close>

text \<open>
  One plane of an image, \<open>off\<close> bytes from the beginning, whose row \<open>i\<close> begins at \<open>row i\<close>. The chroma planes of
  \<open>ImageYUV420_flip\<close> take \<open>i * image_width / 2\<close> for it.
\<close>

definition flip_plane :: "bool \<Rightarrow> bool \<Rightarrow> nat \<Rightarrow> (nat \<Rightarrow> nat) \<Rightarrow> nat \<Rightarrow> nat \<Rightarrow> buffer \<Rightarrow> buffer \<Rightarrow> buffer option" where
  "flip_plane flip mirror off row w h src dst =
     for_upto h (\<lambda>i. for_upto w (\<lambda>j dst.
       let jj = (if flip then w - 1 - j else j); ii = (if mirror then h - 1 - i else i)
       in do { x \<leftarrow> slot_get src (off + (row ii + jj)); slot_set dst (off + (row i + j)) x })) dst"

definition ImageYUV420_flip :: "buffer \<Rightarrow> nat \<Rightarrow> nat \<Rightarrow> buffer \<Rightarrow> bool \<Rightarrow> bool \<Rightarrow> buffer option" where
  "ImageYUV420_flip yuv420_image image_width image_height out flip mirror =
     (let n = image_width * image_height
      in if 2 ^ 31 \<le> n then None
         else do {
           p1 \<leftarrow> flip_plane flip mirror 0 (\<lambda>i. i * image_width) image_width image_height yuv420_image out;
           p2 \<leftarrow> flip_plane flip mirror n (\<lambda>i. i * image_width div 2) (image_width div 2) (image_height div 2) yuv420_image p1;
           flip_plane flip mirror (n + n div 4) (\<lambda>i. i * image_width div 2) (image_width div 2) (image_height div 2) yuv420_image p2
         })"

text \<open>Where the byte at a position of a plane comes from.\<close>

definition turned :: "bool \<Rightarrow> bool \<Rightarrow> nat \<Rightarrow> nat \<Rightarrow> nat \<Rightarrow> nat" where
  "turned flip mirror w h p =
     (if mirror then h - 1 - p div w else p div w) * w + (if flip then w - 1 - p mod w else p mod w)"

lemma turned_at:
  "j < w \<Longrightarrow> turned f m w h (i * w + j) = (if m then h - 1 - i else i) * w + (if f then w - 1 - j else j)"
  by (simp add: turned_def)

lemma turned_less: "p < h * w \<Longrightarrow> turned f m w h p < h * w"
proof -
  assume "p < h * w"
  then obtain i j where p: "i < h" "j < w" "p = i * w + j" using row_cover by blast
  then show ?thesis unfolding p(3) turned_at [OF p(2)] by (intro row_less) auto
qed

lemma turned_turned: "p < h * w \<Longrightarrow> turned f m w h (turned f m w h p) = p"
proof -
  assume "p < h * w"
  then obtain i j where p: "i < h" "j < w" "p = i * w + j" using row_cover by blast
  have "(if f then w - 1 - j else j) < w" using p(2) by auto
  then show ?thesis using p(1,2) unfolding p(3) turned_at [OF p(2)] by (subst turned_at) auto
qed

definition turned_image :: "bool \<Rightarrow> bool \<Rightarrow> nat \<Rightarrow> nat \<Rightarrow> 'a list \<Rightarrow> 'a list" where
  "turned_image f m a b xs = map (\<lambda>k.
     if k < 4 * (b * a) then xs ! turned f m (2 * a) (2 * b) k
     else if k < 5 * (b * a) then xs ! (4 * (b * a) + turned f m a b (k - 4 * (b * a)))
     else xs ! (5 * (b * a) + turned f m a b (k - 5 * (b * a)))) [0..<6 * (b * a)]"

lemma plane_of:
  fixes q :: nat
  assumes "k < 6 * q"
  obtains (luma) "k < 4 * q" | (u) t where "t < q" "k = 4 * q + t" | (v) t where "t < q" "k = 5 * q + t"
proof -
  consider "k < 4 * q" | "4 * q \<le> k" "k < 5 * q" | "5 * q \<le> k" by linarith
  then show thesis
  proof cases
    case 1
    then show thesis by (rule luma)
  next
    case 2
    then have "k - 4 * q < q" "k = 4 * q + (k - 4 * q)" by simp_all
    then show thesis by (rule u)
  next
    case 3
    then have "k - 5 * q < q" "k = 5 * q + (k - 5 * q)" using assms by simp_all
    then show thesis by (rule v)
  qed
qed

lemma length_turned_image [simp]: "length (turned_image f m a b xs) = 6 * (b * a)"
  by (simp add: turned_image_def)

lemma turned_image_nth:
  "k < 4 * (b * a) \<Longrightarrow> turned_image f m a b xs ! k = xs ! turned f m (2 * a) (2 * b) k"
  "t < b * a \<Longrightarrow> turned_image f m a b xs ! (4 * (b * a) + t) = xs ! (4 * (b * a) + turned f m a b t)"
  "t < b * a \<Longrightarrow> turned_image f m a b xs ! (5 * (b * a) + t) = xs ! (5 * (b * a) + turned f m a b t)"
proof -
  have nth: "turned_image f m a b xs ! k = (if k < 4 * q then xs ! turned f m (2 * a) (2 * b) k
     else if k < 5 * q then xs ! (4 * q + turned f m a b (k - 4 * q)) else xs ! (5 * q + turned f m a b (k - 5 * q)))"
    if "q = b * a" "k < 6 * q" for k q
    using that(2) unfolding turned_image_def that(1) [symmetric] by simp
  show "turned_image f m a b xs ! k = xs ! turned f m (2 * a) (2 * b) k" if "k < 4 * (b * a)"
    using that nth [OF refl, of k] by simp
  define q where "q = b * a"
  show "turned_image f m a b xs ! (4 * (b * a) + t) = xs ! (4 * (b * a) + turned f m a b t)"
    "turned_image f m a b xs ! (5 * (b * a) + t) = xs ! (5 * (b * a) + turned f m a b t)" if "t < b * a"
    using that nth [of q "4 * q + t"] nth [of q "5 * q + t"] unfolding q_def [symmetric] by simp_all
qed

lemma turned_image_twice:
  assumes "length xs = 6 * (b * a)"
  shows "turned_image f m a b (turned_image f m a b xs) = xs"
proof (rule nth_equalityI)
  fix k assume "k < length (turned_image f m a b (turned_image f m a b xs))"
  then have "k < 6 * (b * a)" by (simp only: length_turned_image)
  then show "turned_image f m a b (turned_image f m a b xs) ! k = xs ! k"
  proof (cases rule: plane_of)
    case luma
    then have "k < 2 * b * (2 * a)" by simp
    then have "turned f m (2 * a) (2 * b) k < 2 * b * (2 * a)" "turned f m (2 * a) (2 * b) (turned f m (2 * a) (2 * b) k) = k"
      by (rule turned_less, rule turned_turned)
    moreover from this(1) have "turned f m (2 * a) (2 * b) k < 4 * (b * a)" by simp
    ultimately show ?thesis using luma by (simp only: turned_image_nth)
  next
    case (u t)
    then show ?thesis using turned_less [OF u(1)] turned_turned [OF u(1)] by (simp only: turned_image_nth)
  next
    case (v t)
    then show ?thesis using turned_less [OF v(1)] turned_turned [OF v(1)] by (simp only: turned_image_nth)
  qed
qed (simp only: length_turned_image assms)

lemma flip_plane_eq:
  assumes "\<And>i. row i = i * w" and "\<And>p. p < h * w \<Longrightarrow> ys ! (off + p) = xs ! (off + turned f m w h p)"
    and "off + h * w \<le> length xs" and "off + h * w \<le> length s"
  shows "flip_plane f m off row w h (map Some xs) s = Some (paints {off..<off + h * w} (\<lambda>k. Some (ys ! k)) s)"
proof -
  let ?v = "\<lambda>k. Some (ys ! k)" and ?own = "\<lambda>i j. {off + (i * w + j)}"
  have "flip_plane f m off row w h (map Some xs) s = Some (paints (\<Union>i<h. \<Union>j<w. ?own i j) ?v s)"
    unfolding flip_plane_def assms(1)
  proof (rule raster_paints [OF _ refl])
    fix i j and t :: buffer assume ij: "i < h" "j < w" and t: "length t = length s"
    have p: "i * w + j < h * w" using ij by (rule row_less)
    let ?src = "(if m then h - 1 - i else i) * w + (if f then w - 1 - j else j)"
    have src: "turned f m w h (i * w + j) = ?src" using ij(2) by (rule turned_at)
    have "off + ?src < length xs" using turned_less [OF p, of f m] assms(3) unfolding src by linarith
    then have g: "slot_get (map Some xs) (off + ?src) = Some (xs ! (off + ?src))" by (simp only: slot_get_def length_map nth_map if_True)
    have "slot_set t (off + (i * w + j)) (xs ! (off + ?src)) = Some (paints (?own i j) ?v t)"
    proof (rule slot_set_paints)
      show "off + (i * w + j) < length t" using p assms(4) t by linarith
      show "Some (ys ! (off + (i * w + j))) = Some (xs ! (off + ?src))" using assms(2) [OF p] unfolding src by simp
    qed
    then show "(let jj = if f then w - 1 - j else j; ii = if m then h - 1 - i else i
       in do { x \<leftarrow> slot_get (map Some xs) (off + (ii * w + jj)); slot_set t (off + (i * w + j)) x }) = Some (paints (?own i j) ?v t)"
      unfolding Let_def g bind.bind_lunit .
  qed
  moreover have "(\<Union>i<h. \<Union>j<w. ?own i j) = {off..<off + h * w}"
  proof
    show "(\<Union>i<h. \<Union>j<w. ?own i j) \<subseteq> {off..<off + h * w}" using row_less by fastforce
    show "{off..<off + h * w} \<subseteq> (\<Union>i<h. \<Union>j<w. ?own i j)"
    proof
      fix k assume k: "k \<in> {off..<off + h * w}"
      then have "k - off < h * w" by auto
      then obtain i j where "i < h" "j < w" "k - off = i * w + j" using row_cover by blast
      moreover from this have "k = off + (i * w + j)" using k by auto
      ultimately show "k \<in> (\<Union>i<h. \<Union>j<w. ?own i j)" by blast
    qed
  qed
  ultimately show ?thesis by (simp only:)
qed


lemma paints_planes:
  assumes "length s = 6 * q"
  shows "paints {5 * q..<5 * q + q} v (paints {4 * q..<4 * q + q} v (paints {0..<0 + 4 * q} v s)) = map v [0..<6 * q]"
proof -
  have "{..<length s} \<subseteq> {0..<0 + 4 * q} \<union> ({4 * q..<4 * q + q} \<union> {5 * q..<5 * q + q})" using assms by auto
  then show ?thesis unfolding paints_paints using paints_all [of s _ v] assms by (simp add: Un_assoc)
qed

lemma map_nth_Some: "length ys = n \<Longrightarrow> map (\<lambda>k. Some (ys ! k)) [0..<n] = map Some ys"
  by (rule nth_equalityI) simp_all

lemma ImageYUV420_flip_eq:
  assumes ab: "w = 2 * a" "h = 2 * b" and fits: "w * h < 2 ^ 31" and len: "length xs = w * h * 3 div 2" "length out = w * h * 3 div 2"
  shows "ImageYUV420_flip (map Some xs) w h out f m = Some (map Some (turned_image f m a b xs))"
proof -
  let ?q = "b * a" and ?v = "\<lambda>k. Some (turned_image f m a b xs ! k)"
  note e = even_sizes [OF ab]
  have l: "length xs = 6 * ?q" "length out = 6 * ?q" using len e(3) by simp_all
  have hw: "h * w = 4 * ?q" using e(1) by (simp only: mult.commute)
  let ?p1 = "paints {0..<0 + h * w} ?v out"
  let ?p2 = "paints {4 * ?q..<4 * ?q + b * a} ?v ?p1"
  have p1: "flip_plane f m 0 (\<lambda>i. i * w) w h (map Some xs) out = Some ?p1"
    by (rule flip_plane_eq) (simp_all add: turned_image_nth hw l ab)
  have p2: "flip_plane f m (4 * ?q) (\<lambda>i. i * w div 2) a b (map Some xs) ?p1 = Some ?p2"
    by (rule flip_plane_eq) (simp_all add: turned_image_nth l ab(1))
  have p3: "flip_plane f m (5 * ?q) (\<lambda>i. i * w div 2) a b (map Some xs) ?p2 = Some (paints {5 * ?q..<5 * ?q + b * a} ?v ?p2)"
    by (rule flip_plane_eq) (simp_all add: turned_image_nth l ab(1))
  have all: "paints {5 * ?q..<5 * ?q + b * a} ?v ?p2 = map Some (turned_image f m a b xs)"
    unfolding hw paints_planes [OF l(2)] by (rule map_nth_Some) (rule length_turned_image)
  have five: "4 * ?q + ?q = 5 * ?q" by simp
  have "\<not> 2 ^ 31 \<le> 4 * ?q" using fits unfolding e(1) by simp
  then show ?thesis
    unfolding ImageYUV420_flip_def Let_def e(1,6,7) quarter(3) five by (simp only: if_False p1 p2 p3 all bind.bind_lunit)
qed

section \<open>Reading files\<close>

text \<open>\<open>fread\<close> of \<open>n\<close> bytes of a file to position \<open>off\<close> of a buffer: as many as there are.\<close>

definition fread_to :: "nat \<Rightarrow> nat \<Rightarrow> bytes \<Rightarrow> buffer \<Rightarrow> buffer option" where
  "fread_to off n bs dst =
     (let k = min n (length bs)
      in if off + k \<le> length dst then Some (take off dst @ map Some (take k bs) @ drop (off + k) dst) else None)"

text \<open>A file is its contents, or \<open>None\<close> if it cannot be opened.\<close>

definition ReadYUV420File :: "bytes option \<Rightarrow> nat \<Rightarrow> nat \<Rightarrow> buffer \<Rightarrow> (bool \<times> buffer) option" where
  "ReadYUV420File file nWidth nHeight yuv_image = (case file of
     None \<Rightarrow> Some (False, yuv_image)
   | Some bs \<Rightarrow>
       let n = nWidth * nHeight
       in if 2 ^ 31 \<le> n then None
          else do {
            image \<leftarrow> fread_to 0 n bs yuv_image;
            uv_plane \<leftarrow> fread_to 0 (n div 2) (drop n bs) (replicate (n div 2) None);
            image1 \<leftarrow> for_upto (nHeight div 2) (\<lambda>i. for_upto (nWidth div 2) (\<lambda>j image. do {
              u \<leftarrow> slot_get uv_plane (2 * (i * (nWidth div 2) + j));
              image1 \<leftarrow> slot_set image (n + (i * (nWidth div 2) + j)) u;
              v \<leftarrow> slot_get uv_plane (2 * (i * (nWidth div 2) + j) + 1);
              slot_set image1 (n + n div 4 + (i * (nWidth div 2) + j)) v
            })) image;
            Some (True, image1)
          })"

definition ReadNV21File :: "bytes option \<Rightarrow> nat \<Rightarrow> nat \<Rightarrow> buffer \<Rightarrow> (bool \<times> buffer) option" where
  "ReadNV21File file nWidth nHeight yuv_image = (case file of
     None \<Rightarrow> Some (False, yuv_image)
   | Some bs \<Rightarrow>
       if 2 ^ 31 \<le> nWidth * nHeight * 3 then None
       else map_option (Pair True) (fread_to 0 (nWidth * nHeight * 3 div 2) bs yuv_image))"

definition ReadYUV422File :: "bytes option \<Rightarrow> nat \<Rightarrow> nat \<Rightarrow> buffer \<Rightarrow> (bool \<times> buffer) option" where
  "ReadYUV422File file nWidth nHeight yuv_image = (case file of
     None \<Rightarrow> Some (False, yuv_image)
   | Some bs \<Rightarrow>
       if 2 ^ 31 \<le> nWidth * nHeight * 2 then None
       else map_option (Pair True) (fread_to 0 (nWidth * nHeight * 2) bs yuv_image))"


definition deinterleaved :: "nat \<Rightarrow> bytes \<Rightarrow> bytes" where
  "deinterleaved q bs = map (\<lambda>k. if k < 4 * q then bs ! k else if k < 5 * q then bs ! (4 * q + 2 * (k - 4 * q))
     else bs ! (4 * q + 2 * (k - 5 * q) + 1)) [0..<6 * q]"

lemma deinterleaved_nth:
  assumes "t < q"
  shows "deinterleaved q bs ! (4 * q + t) = bs ! (4 * q + 2 * t)" "deinterleaved q bs ! (4 * q + q + t) = bs ! (4 * q + 2 * t + 1)"
    "4 * q + t < 6 * q" "4 * q + q + t < 6 * q"
  using assms by (simp_all add: deinterleaved_def)

lemma deinterleaved_below: "k < 4 * q \<Longrightarrow> deinterleaved q bs ! k = bs ! k"
  by (simp add: deinterleaved_def)

lemma length_deinterleaved [simp]: "length (deinterleaved q bs) = 6 * q"
  by (simp add: deinterleaved_def)

lemma uv_get:
  assumes "length bs = 6 * q" and "t < q"
  shows "slot_get (map Some (take (2 * q) (drop (4 * q) bs))) (2 * t) = Some (bs ! (4 * q + 2 * t))"
    "slot_get (map Some (take (2 * q) (drop (4 * q) bs))) (2 * t + 1) = Some (bs ! (4 * q + 2 * t + 1))"
  using assms by (simp_all add: slot_get_def add.assoc)

lemma ReadYUV420File_eq:
  assumes ab: "w = 2 * a" "h = 2 * b" and fits: "w * h < 2 ^ 31" and len: "length bs = w * h * 3 div 2" "length img = w * h * 3 div 2"
  shows "ReadYUV420File (Some bs) w h img = Some (True, map Some (deinterleaved (b * a) bs))"
proof -
  let ?q = "b * a"
  let ?v = "\<lambda>k. Some (deinterleaved ?q bs ! k)"
  let ?own = "\<lambda>i j. {4 * ?q + (i * a + j), 4 * ?q + ?q + (i * a + j)}"
  note e = even_sizes [OF ab]
  have l: "length bs = 6 * ?q" "length img = 6 * ?q" using len e(3) by simp_all
  let ?s = "take (4 * ?q) (map Some bs) @ drop (4 * ?q) img"
  let ?uv = "map Some (take (2 * ?q) (drop (4 * ?q) bs))"
  have "for_upto b (\<lambda>i. for_upto a (\<lambda>j image. do {
      u \<leftarrow> slot_get ?uv (2 * (i * a + j));
      image1 \<leftarrow> slot_set image (4 * ?q + (i * a + j)) u;
      v \<leftarrow> slot_get ?uv (2 * (i * a + j) + 1);
      slot_set image1 (4 * ?q + ?q + (i * a + j)) v })) ?s = Some (paints (\<Union>i<b. \<Union>j<a. ?own i j) ?v ?s)"
  proof (rule raster_paints)
    fix i j and s :: buffer assume ij: "i < b" "j < a" and s: "length s = 6 * ?q"
    have t: "i * a + j < ?q" using ij by (rule row_less)
    show "do {
      u \<leftarrow> slot_get ?uv (2 * (i * a + j));
      image1 \<leftarrow> slot_set s (4 * ?q + (i * a + j)) u;
      v \<leftarrow> slot_get ?uv (2 * (i * a + j) + 1);
      slot_set image1 (4 * ?q + ?q + (i * a + j)) v } = Some (paints (?own i j) ?v s)"
      unfolding uv_get [OF l(1) t] bind.bind_lunit by (rule chroma_update2) (simp_all only: deinterleaved_nth [OF t] s)
  qed (use l in simp)
  moreover have "paints (\<Union>i<b. \<Union>j<a. ?own i j) ?v ?s = map Some (deinterleaved ?q bs)"
  proof (rule memcpy_painted [OF l])
    have five: "5 * ?q = 4 * ?q + ?q" by simp
    show "k \<in> (\<Union>i<b. \<Union>j<a. ?own i j)" if "4 * ?q \<le> k" "k < 6 * ?q" for k
      using chroma_cover [OF that] unfolding five .
  qed (simp_all only: deinterleaved_below length_deinterleaved)
  moreover have "fread_to 0 (4 * ?q) bs img = Some ?s" using l by (simp add: fread_to_def take_map Let_def)
  moreover have "fread_to 0 (4 * ?q div 2) (drop (4 * ?q) bs) (replicate (4 * ?q div 2) None) = Some ?uv"
    using l by (simp add: fread_to_def Let_def)
  ultimately show ?thesis using fits unfolding ReadYUV420File_def Let_def option.case e quarter by simp
qed

section \<open>Properties\<close>

text \<open>
  Flipping twice with the same flags gives back the image, and an image read by \<open>ReadYUV420File\<close> from a file of
  its size has the luma, the even and the odd bytes of the chroma, for all even sizes.
\<close>

theorem image_flip_correct:
  assumes "even w" and "even h" and "w * h < 2 ^ 31" and "length xs = w * h * 3 div 2"
    and "length out1 = w * h * 3 div 2" and "length out2 = w * h * 3 div 2"
  shows "(\<exists>ys. ImageYUV420_flip (map Some xs) w h out1 flip mirror = Some ys \<and>
      ImageYUV420_flip ys w h out2 flip mirror = Some (map Some xs)) \<and>
    ReadYUV420File (Some xs) w h out1 = Some (True, map Some (take (w * h) xs @
      map (\<lambda>t. xs ! (w * h + 2 * t)) [0..<w * h div 4] @ map (\<lambda>t. xs ! (w * h + 2 * t + 1)) [0..<w * h div 4]))"
proof -
  obtain a b where ab: "w = 2 * a" "h = 2 * b" using assms(1,2) by (auto elim!: evenE)
  note e = even_sizes [OF ab]
  have len: "length xs = 6 * (b * a)" using assms(4) e(3) by simp
  let ?ys = "turned_image flip mirror a b xs"
  have "ImageYUV420_flip (map Some xs) w h out1 flip mirror = Some (map Some ?ys)"
    using ab assms(3-5) by (rule ImageYUV420_flip_eq)
  moreover have "length ?ys = w * h * 3 div 2" by (simp only: length_turned_image e(3))
  then have "ImageYUV420_flip (map Some ?ys) w h out2 flip mirror = Some (map Some (turned_image flip mirror a b ?ys))"
    using assms(6) by (rule ImageYUV420_flip_eq [OF ab assms(3)])
  moreover have "ReadYUV420File (Some xs) w h out1 = Some (True, map Some (deinterleaved (b * a) xs))"
    using ab assms(3-5) by (rule ReadYUV420File_eq)
  moreover have "deinterleaved q xs = take (4 * q) xs @ map (\<lambda>t. xs ! (4 * q + 2 * t)) [0..<q] @ map (\<lambda>t. xs ! (4 * q + 2 * t + 1)) [0..<q]"
    if "length xs = 6 * q" for q
    using that by (intro nth_equalityI) (auto simp: deinterleaved_def nth_append)
  ultimately show ?thesis using turned_image_twice [OF len] len unfolding e(1) quarter(3) by simp
qed

theorem image_flip_correct_witness:
  "\<exists>ys. ImageYUV420_flip (map Some [1, 2, 3, 4, 5, 6]) 2 2 (replicate 6 None) True False = Some ys \<and>
    ImageYUV420_flip ys 2 2 (replicate 6 None) True False = Some (map Some [1, 2, 3, 4, 5, 6])"
proof -
  have "even (2 :: nat)" "even (2 :: nat)" "2 * 2 < (2 ^ 31 :: nat)" "length [1, 2, 3, 4, 5, 6 :: u8] = 2 * 2 * 3 div 2"
    "length (replicate 6 None :: buffer) = 2 * 2 * 3 div 2" "length (replicate 6 None :: buffer) = 2 * 2 * 3 div 2" by simp_all
  from image_flip_correct [OF this, of True False] show ?thesis by blast
qed

end
