(* ===== verification/Dsp_Copy.thy ===== *)
theory Dsp_Copy
  imports Buffer_Group
begin

text \<open>
  The command handlers of the DSP examples, \<open>xrp-example/src/dsp_test.c\<close> and \<open>dsp_framework_main.c\<close>.
  They use the part of the XRP API that \<open>xrp_api.h\<close> offers on host and DSP alike. The library behind it
  on the DSP is not in the repository: its operations are the argument \<open>api\<close> of the handlers, and the
  locale \<open>buffer_group_api\<close> states what \<open>xrp_api.h\<close> documents of them. The host's library, which is in
  the repository, satisfies it.
\<close>

section \<open>The buffer group as a handler sees it\<close>

text \<open>
  The operations on the one \<open>buffer_group\<close> that a handler gets, over a state \<open>'s\<close> that includes the
  memory. \<open>None\<close> as a returned pointer is NULL; every status argument in the handlers is NULL.
  \<open>api_memcpy\<close> is \<open>memcpy(dst, src, n)\<close>.
\<close>

record ('b, 'p, 's) group_api =
  api_get_buffer :: "nat \<Rightarrow> 's \<Rightarrow> ('b option \<times> 's) option"
  api_map :: "'b \<Rightarrow> u32 \<Rightarrow> xrp_access_flags \<Rightarrow> 's \<Rightarrow> ('p option \<times> 's) option"
  api_memcpy :: "'p \<Rightarrow> 'p \<Rightarrow> u32 \<Rightarrow> 's \<Rightarrow> 's option"
  api_unmap :: "'b \<Rightarrow> 'p \<Rightarrow> 's \<Rightarrow> 's option"
  api_release :: "'b \<Rightarrow> 's \<Rightarrow> 's option"
  api_size :: "'s \<Rightarrow> u64 option"

section \<open>The version 1 handler\<close>

text \<open>The loop over pairs of buffers has no bound of its own: it ends when the group does.\<close>

partial_function (option) copy_loop :: "('b, 'p, 's) group_api \<Rightarrow> u32 \<Rightarrow> nat \<Rightarrow> 's \<Rightarrow> (nat \<times> 's) option" where
  "copy_loop api sz i s = do {
     (sbuf, s1) \<leftarrow> api_get_buffer api i s;
     (dbuf, s2) \<leftarrow> api_get_buffer api (i + 1) s1;
     (case (sbuf, dbuf) of
        (Some sb, Some db) \<Rightarrow> do {
          (src, s3) \<leftarrow> api_map api sb sz XRP_READ s2;
          (dst, s4) \<leftarrow> api_map api db sz XRP_WRITE s3;
          (case (src, dst) of
             (Some p, Some q) \<Rightarrow> do {
               s5 \<leftarrow> api_memcpy api q p sz s4;
               s6 \<leftarrow> api_unmap api sb p s5;
               s7 \<leftarrow> api_unmap api db q s6;
               s8 \<leftarrow> api_release api sb s7;
               s9 \<leftarrow> api_release api db s8;
               copy_loop api sz (i + 2) s9
             }
           | _ \<Rightarrow> do {
               s5 \<leftarrow> api_release api sb s4;
               s6 \<leftarrow> api_release api db s5;
               Some (i, s6)
             })
        }
      | _ \<Rightarrow> Some (i, s2))
   }"

definition copy_buffers :: "('b, 'p, 's) group_api \<Rightarrow> u32 \<Rightarrow> 's \<Rightarrow> (nat \<times> 's) option" where
  "copy_buffers api sz s = (if sz = 0 then Some (0, s) else copy_loop api sz 0 s)"

text \<open>The answer: each byte of the input plus its index, as far as the output reaches.\<close>

primrec answer_loop :: "nat \<Rightarrow> bytes \<Rightarrow> bytes \<Rightarrow> bytes" where
  "answer_loop 0 inp out = out"
| "answer_loop (Suc i) inp out =
     (let out' = answer_loop i inp out
      in if i < length out then out'[i := inp ! i + of_nat i] else out')"

text \<open>The first four bytes of the input, little-endian, or 0 when it is shorter.\<close>

definition command_size :: "bytes \<Rightarrow> u32" where
  "command_size inp = (if 4 \<le> length inp then get32 inp 0 else 0)"

definition example_v1_handler ::
    "('b, 'p, 's) group_api \<Rightarrow> bytes \<Rightarrow> bytes \<Rightarrow> 's \<Rightarrow> ((xrp_status \<times> bytes) \<times> 's) option" where
  "example_v1_handler api in_data out_data s = do {
     let out = answer_loop (length in_data) in_data out_data;
     (i, s1) \<leftarrow> copy_buffers api (command_size in_data) s;
     bg_sz \<leftarrow> api_size api s1;
     Some ((if bg_sz = of_nat i then XRP_STATUS_SUCCESS else XRP_STATUS_FAILURE, out), s1)
   }"

text \<open>The command of \<open>dsp_framework_main.c\<close> has the same two loops and always succeeds.\<close>

definition xrp_run_command ::
    "('b, 'p, 's) group_api \<Rightarrow> bytes \<Rightarrow> bytes \<Rightarrow> 's \<Rightarrow> ((xrp_status \<times> bytes) \<times> 's) option" where
  "xrp_run_command api in_data out_data s = do {
     let out = answer_loop (length in_data) in_data out_data;
     (i, s1) \<leftarrow> copy_buffers api (command_size in_data) s;
     Some ((XRP_STATUS_SUCCESS, out), s1)
   }"

section \<open>What the handlers do to the group\<close>

text \<open>
  \<open>R\<close> and \<open>W\<close> say which buffers can be mapped for reading and for writing. \<open>pairs_done\<close> counts the pairs
  that are copied, \<open>copied\<close> is the contents afterwards, and \<open>left_over\<close> the references that the handler
  does not give back when it stops early: that of an unpaired buffer, or those of the one mapping that
  succeeded.
\<close>

fun pairs_done :: "('b \<Rightarrow> bool) \<Rightarrow> ('b \<Rightarrow> bool) \<Rightarrow> 'b list \<Rightarrow> nat" where
  "pairs_done R W (x # y # bs) = (if R x \<and> W y then Suc (pairs_done R W bs) else 0)"
| "pairs_done R W _ = 0"

fun copied :: "('b \<Rightarrow> bool) \<Rightarrow> ('b \<Rightarrow> bool) \<Rightarrow> nat \<Rightarrow> 'b list \<Rightarrow> ('b \<Rightarrow> bytes) \<Rightarrow> 'b \<Rightarrow> bytes" where
  "copied R W n (x # y # bs) f =
     (if R x \<and> W y then copied R W n bs (f(y := take n (f x) @ drop n (f y))) else f)"
| "copied R W n _ f = f"

fun left_over :: "('b \<Rightarrow> bool) \<Rightarrow> ('b \<Rightarrow> bool) \<Rightarrow> 'b list \<Rightarrow> 'b multiset" where
  "left_over R W (x # y # bs) =
     (if R x \<and> W y then left_over R W bs else (if R x then {#x#} else {#}) + (if W y then {#y#} else {#}))"
| "left_over R W [x] = {#x#}"
| "left_over R W [] = {#}"

lemma pairs_done_le: "2 * pairs_done R W bs \<le> length bs"
  by (induction R W bs rule: pairs_done.induct) auto

lemma left_over_done: "2 * pairs_done R W bs = length bs \<Longrightarrow> left_over R W bs = {#}"
  by (induction R W bs rule: left_over.induct) (auto split: if_splits)

lemma pairs_done_all:
  "even (length bs) \<Longrightarrow> \<forall>b \<in> set bs. R b \<and> W b \<Longrightarrow> 2 * pairs_done R W bs = length bs"
  by (induction R W bs rule: left_over.induct) auto

lemma copied_notin: "b \<notin> set bs \<Longrightarrow> copied R W n bs f b = f b"
  by (induction R W n bs f rule: copied.induct) auto

lemma copied_cong:
  "\<forall>b \<in> set bs. f b = g b \<Longrightarrow> b \<in> set bs \<Longrightarrow> copied R W n bs f b = copied R W n bs g b"
proof (induction R W n bs f arbitrary: g rule: copied.induct)
  case (1 R W n x y bs f)
  let ?g = "g(y := take n (g x) @ drop n (g y))"
  have "copied R W n bs (f(y := take n (f x) @ drop n (f y))) b = copied R W n bs ?g b" if "R x \<and> W y"
  proof (cases "b \<in> set bs")
    case True
    with that show ?thesis by (intro "1.IH") (use "1.prems" in auto)
  next
    case False
    with "1.prems" show ?thesis by (auto simp: copied_notin)
  qed
  with "1.prems" show ?case by auto
qed auto

lemma length_answer [simp]: "length (answer_loop n inp out) = length out"
  by (induction n) (simp_all add: Let_def)

lemma answer_loop_eq:
  "answer_loop n inp out = map (\<lambda>i. if i < n then inp ! i + of_nat i else out ! i) [0..<length out]"
proof (induction n)
  case 0
  show ?case by (simp add: map_nth)
next
  case (Suc n)
  show ?case
  proof (cases "n < length out")
    case True
    then show ?thesis by (intro nth_equalityI) (auto simp: Suc nth_list_update less_Suc_eq)
  next
    case False
    then show ?thesis by (simp add: Suc)
  qed
qed

section \<open>The interface\<close>

text \<open>
  \<open>good k r s\<close>: the library is in order, the handler has the references \<open>r\<close> besides that to the group,
  and \<open>k\<close> more can be taken. \<open>points p b s\<close>: \<open>p\<close> is the address of the storage of \<open>b\<close>.
\<close>

locale buffer_group_api =
  fixes api :: "('b, 'p, 's) group_api"
    and good :: "nat \<Rightarrow> 'b multiset \<Rightarrow> 's \<Rightarrow> bool"
    and bufs :: "'s \<Rightarrow> 'b list"
    and data :: "'b \<Rightarrow> 's \<Rightarrow> bytes"
    and mappable :: "xrp_access_flags \<Rightarrow> u32 \<Rightarrow> 'b \<Rightarrow> 's \<Rightarrow> bool"
    and points :: "'p \<Rightarrow> 'b \<Rightarrow> 's \<Rightarrow> bool"
    and same :: "'s \<Rightarrow> 's \<Rightarrow> bool"
  assumes same_bufs: "same s s' \<Longrightarrow> bufs s' = bufs s"
    and same_mappable: "same s s' \<Longrightarrow> mappable f sz b s' = mappable f sz b s"
    and same_points: "same s s' \<Longrightarrow> points p b s \<Longrightarrow> points p b s'"
    and same_trans: "same s s' \<Longrightarrow> same s' s'' \<Longrightarrow> same s s''"
    and good_less: "good (Suc k) r s \<Longrightarrow> good k r s"
    and mappable_size: "good k r s \<Longrightarrow> mappable f sz b s \<Longrightarrow> b \<in> set (bufs s) \<Longrightarrow> unat sz \<le> length (data b s)"
    and get_in: "good (Suc k) r s \<Longrightarrow> i < length (bufs s) \<Longrightarrow>
      \<exists>s'. api_get_buffer api i s = Some (Some (bufs s ! i), s') \<and> good k (add_mset (bufs s ! i) r) s' \<and>
        same s s' \<and> (\<forall>x \<in> set (bufs s). data x s' = data x s)"
    and get_out: "good k r s \<Longrightarrow> length (bufs s) \<le> i \<Longrightarrow> api_get_buffer api i s = Some (None, s)"
    and map_in: "good (Suc k) r s \<Longrightarrow> b \<in># r \<Longrightarrow> b \<in> set (bufs s) \<Longrightarrow> mappable f sz b s \<Longrightarrow>
      \<exists>p s'. api_map api b sz f s = Some (Some p, s') \<and> good k (add_mset b r) s' \<and> points p b s' \<and>
        same s s' \<and> (\<forall>x \<in> set (bufs s). data x s' = data x s)"
    and map_out: "good k r s \<Longrightarrow> b \<in># r \<Longrightarrow> b \<in> set (bufs s) \<Longrightarrow> \<not> mappable f sz b s \<Longrightarrow>
      api_map api b sz f s = Some (None, s)"
    and memcpy: "good k r s \<Longrightarrow> x \<in> set (bufs s) \<Longrightarrow> y \<in> set (bufs s) \<Longrightarrow> x \<noteq> y \<Longrightarrow>
      points p x s \<Longrightarrow> points q y s \<Longrightarrow> unat sz \<le> length (data x s) \<Longrightarrow> unat sz \<le> length (data y s) \<Longrightarrow>
      \<exists>s'. api_memcpy api q p sz s = Some s' \<and> good k r s' \<and> same s s' \<and>
        (\<forall>z \<in> set (bufs s). data z s' =
           (if z = y then take (unat sz) (data x s) @ drop (unat sz) (data y s) else data z s))"
    and unmap: "good k (add_mset b r) s \<Longrightarrow> b \<in> set (bufs s) \<Longrightarrow> points p b s \<Longrightarrow>
      \<exists>s'. api_unmap api b p s = Some s' \<and> good k r s' \<and> same s s' \<and> (\<forall>x \<in> set (bufs s). data x s' = data x s)"
    and release: "good k (add_mset b r) s \<Longrightarrow> b \<in> set (bufs s) \<Longrightarrow>
      \<exists>s'. api_release api b s = Some s' \<and> good k r s' \<and> same s s' \<and> (\<forall>x \<in> set (bufs s). data x s' = data x s)"
    and group_size: "good k r s \<Longrightarrow> api_size api s = Some (of_nat (length (bufs s))) \<and> length (bufs s) < 2 ^ 64"
begin

lemma good_add: "good (k + n) r s \<Longrightarrow> good k r s"
  by (induction n) (auto dest: good_less)

lemma good_le: "good n r s \<Longrightarrow> k \<le> n \<Longrightarrow> good k r s"
  using good_add [of k "n - k"] by simp

text \<open>Both buffers of a pair are there.\<close>

lemma get_pair:
  assumes g: "good (Suc (Suc k)) r s" and i: "Suc i < length (bufs s)"
  obtains s1 s2 where "api_get_buffer api i s = Some (Some (bufs s ! i), s1)"
    and "api_get_buffer api (i + 1) s1 = Some (Some (bufs s ! Suc i), s2)"
    and "good k (add_mset (bufs s ! Suc i) (add_mset (bufs s ! i) r)) s2" and "same s s2"
    and "\<forall>x \<in> set (bufs s). data x s2 = data x s"
proof -
  from get_in [OF g, of i] i obtain s1 where
    s1: "api_get_buffer api i s = Some (Some (bufs s ! i), s1)" "good (Suc k) (add_mset (bufs s ! i) r) s1"
    "same s s1" "\<forall>x \<in> set (bufs s). data x s1 = data x s" by auto
  note b1 = same_bufs [OF s1(3)]
  from get_in [OF s1(2), of "i + 1"] i b1 obtain s2 where
    "api_get_buffer api (i + 1) s1 = Some (Some (bufs s ! Suc i), s2)"
    "good k (add_mset (bufs s ! Suc i) (add_mset (bufs s ! i) r)) s2" "same s1 s2"
    "\<forall>x \<in> set (bufs s). data x s2 = data x s1" by auto
  with s1 show thesis by (intro that [of s1 s2]) (auto intro: same_trans)
qed

text \<open>A pair that can be mapped is copied, and everything taken is given back.\<close>

lemma copy_pair:
  assumes g: "good (Suc (Suc k)) (add_mset y (add_mset x r)) s" and xy: "x \<in> set (bufs s)" "y \<in> set (bufs s)" "x \<noteq> y"
    and m: "mappable XRP_READ sz x s" "mappable XRP_WRITE sz y s"
  obtains p q s3 s4 s5 s6 s7 s8 s9 where "api_map api x sz XRP_READ s = Some (Some p, s3)"
    and "api_map api y sz XRP_WRITE s3 = Some (Some q, s4)" and "api_memcpy api q p sz s4 = Some s5"
    and "api_unmap api x p s5 = Some s6" and "api_unmap api y q s6 = Some s7"
    and "api_release api x s7 = Some s8" and "api_release api y s8 = Some s9"
    and "good k r s9" and "same s s9"
    and "\<forall>z \<in> set (bufs s). data z s9 =
           (if z = y then take (unat sz) (data x s) @ drop (unat sz) (data y s) else data z s)"
proof -
  let ?r = "add_mset y (add_mset x r)"
  from map_in [OF g _ xy(1) m(1)] obtain p s3 where s3: "api_map api x sz XRP_READ s = Some (Some p, s3)"
    "good (Suc k) (add_mset x ?r) s3" "points p x s3" "same s s3" "\<forall>z \<in> set (bufs s). data z s3 = data z s" by auto
  have y3: "y \<in> set (bufs s3)" "mappable XRP_WRITE sz y s3"
    using xy(2) m(2) same_bufs [OF s3(4)] same_mappable [OF s3(4)] by simp_all
  from map_in [OF s3(2) _ y3] obtain q s4 where s4: "api_map api y sz XRP_WRITE s3 = Some (Some q, s4)"
    "good k (add_mset y (add_mset x ?r)) s4" "points q y s4" "same s3 s4" "\<forall>z \<in> set (bufs s). data z s4 = data z s"
    using s3(5) same_bufs [OF s3(4)] by auto
  note b4 = same_bufs [OF same_trans [OF s3(4) s4(4)]]
  have "unat sz \<le> length (data x s)" "unat sz \<le> length (data y s)"
    using mappable_size [OF g] m xy by blast+
  with memcpy [OF s4(2), of x y p q sz] obtain s5 where s5: "api_memcpy api q p sz s4 = Some s5"
    "good k (add_mset y (add_mset x ?r)) s5" "same s4 s5"
    "\<forall>z \<in> set (bufs s). data z s5 = (if z = y then take (unat sz) (data x s) @ drop (unat sz) (data y s) else data z s)"
    using xy b4 s4(3,5) same_points [OF s4(4) s3(3)] by auto
  note p5 = same_points [OF s5(3) same_points [OF s4(4) s3(3)]] and q5 = same_points [OF s5(3) s4(3)]
  have c5: "add_mset y (add_mset x ?r) = add_mset x (add_mset y ?r)" by simp
  note b5 = b4 [folded same_bufs [OF s5(3)]]
  from unmap [OF s5(2) [unfolded c5] _ p5] xy b5 obtain s6 where s6: "api_unmap api x p s5 = Some s6"
    "good k (add_mset y ?r) s6" "same s5 s6" "\<forall>z \<in> set (bufs s). data z s6 = data z s5" by auto
  note b6 = b5 [folded same_bufs [OF s6(3)]]
  from unmap [OF s6(2) _ same_points [OF s6(3) q5]] xy b6 obtain s7 where s7: "api_unmap api y q s6 = Some s7"
    "good k ?r s7" "same s6 s7" "\<forall>z \<in> set (bufs s). data z s7 = data z s6" by auto
  note b7 = b6 [folded same_bufs [OF s7(3)]]
  have c7: "?r = add_mset x (add_mset y r)" by simp
  from release [OF s7(2) [unfolded c7]] xy b7 obtain s8 where s8: "api_release api x s7 = Some s8"
    "good k (add_mset y r) s8" "same s7 s8" "\<forall>z \<in> set (bufs s). data z s8 = data z s7" by auto
  note b8 = b7 [folded same_bufs [OF s8(3)]]
  from release [OF s8(2)] xy b8 obtain s9 where s9: "api_release api y s8 = Some s9"
    "good k r s9" "same s8 s9" "\<forall>z \<in> set (bufs s). data z s9 = data z s8" by auto
  have "same s s9" using s3(4) s4(4) s5(3) s6(3) s7(3) s8(3) s9(3) by (blast intro: same_trans)
  with s3(1) s4(1) s5(1,4) s6(1,4) s7(1,4) s8(1,4) s9(1,2,4) show thesis by (intro that [of p s3 q s4 s5 s6 s7 s8 s9]) simp_all
qed

text \<open>A pair that cannot be mapped ends the loop, and one mapping that succeeded stays.\<close>

lemma stuck_pair:
  assumes g: "good (Suc k) (add_mset y (add_mset x r)) s" and xy: "x \<in> set (bufs s)" "y \<in> set (bufs s)"
    and m: "\<not> (mappable XRP_READ sz x s \<and> mappable XRP_WRITE sz y s)"
  obtains src dst s3 s4 s5 s6 where "api_map api x sz XRP_READ s = Some (src, s3)"
    and "api_map api y sz XRP_WRITE s3 = Some (dst, s4)" and "src = None \<or> dst = None"
    and "api_release api x s4 = Some s5" and "api_release api y s5 = Some s6"
    and "good k (r + ((if mappable XRP_READ sz x s then {#x#} else {#}) +
                     (if mappable XRP_WRITE sz y s then {#y#} else {#}))) s6"
    and "same s s6" and "\<forall>z \<in> set (bufs s). data z s6 = data z s"
proof -
  let ?r = "add_mset y (add_mset x r)"
  let ?l = "(if mappable XRP_READ sz x s then {#x#} else {#}) + (if mappable XRP_WRITE sz y s then {#y#} else {#})"
  have held: "x \<in># ?r" "y \<in># ?r" by simp_all
  have "\<exists>src dst s3 s4. api_map api x sz XRP_READ s = Some (src, s3) \<and> api_map api y sz XRP_WRITE s3 = Some (dst, s4) \<and>
      (src = None \<or> dst = None) \<and> good k (?r + ?l) s4 \<and> (s4 = s \<or> same s s4) \<and> (\<forall>z \<in> set (bufs s). data z s4 = data z s)"
  proof (cases "mappable XRP_READ sz x s")
    case True
    with map_in [OF g held(1) xy(1)] obtain p s3 where s3: "api_map api x sz XRP_READ s = Some (Some p, s3)"
      "good k (add_mset x ?r) s3" "same s s3" "\<forall>z \<in> set (bufs s). data z s3 = data z s" by blast
    have "api_map api y sz XRP_WRITE s3 = Some (None, s3)"
      using map_out [OF s3(2)] True m xy(2) same_bufs [OF s3(3)] same_mappable [OF s3(3)] by simp
    with s3 True m show ?thesis by auto
  next
    case False
    then have 1: "api_map api x sz XRP_READ s = Some (None, s)" using map_out [OF g held(1) xy(1)] by blast
    show ?thesis
    proof (cases "mappable XRP_WRITE sz y s")
      case True
      with map_in [OF g held(2) xy(2)] 1 False show ?thesis by fastforce
    next
      case no: False
      with map_out [OF g held(2) xy(2)] 1 False good_less [OF g] show ?thesis by simp
    qed
  qed
  then obtain src dst s3 s4 where s4: "api_map api x sz XRP_READ s = Some (src, s3)"
    "api_map api y sz XRP_WRITE s3 = Some (dst, s4)" "src = None \<or> dst = None" "good k (?r + ?l) s4"
    "s4 = s \<or> same s s4" "\<forall>z \<in> set (bufs s). data z s4 = data z s" by blast
  have c4: "?r + ?l = add_mset x (add_mset y (r + ?l))" by simp
  have b4: "bufs s4 = bufs s" using s4(5) same_bufs by blast
  from release [OF s4(4) [unfolded c4]] xy b4 obtain s5 where s5: "api_release api x s4 = Some s5"
    "good k (add_mset y (r + ?l)) s5" "same s4 s5" "\<forall>z \<in> set (bufs s). data z s5 = data z s4" by auto
  from release [OF s5(2)] xy b4 same_bufs [OF s5(3)] obtain s6 where s6: "api_release api y s5 = Some s6"
    "good k (r + ?l) s6" "same s5 s6" "\<forall>z \<in> set (bufs s). data z s6 = data z s5" by auto
  have "same s s6" using s4(5) s5(3) s6(3) by (blast intro: same_trans)
  with s4(1-3,6) s5(1,4) s6(1,2,4) show thesis by (intro that [of src s3 dst s4 s5 s6]) simp_all
qed

lemma copy_loop_ok:
  assumes "good (2 * length bs + 2) r s" and "drop i (bufs s) = bs" and "i \<le> length (bufs s)" and "distinct bs"
  shows "\<exists>s'. copy_loop api sz i s = Some (i + 2 * pairs_done (\<lambda>b. mappable XRP_READ sz b s)
        (\<lambda>b. mappable XRP_WRITE sz b s) bs, s') \<and>
    good 0 (r + left_over (\<lambda>b. mappable XRP_READ sz b s) (\<lambda>b. mappable XRP_WRITE sz b s) bs) s' \<and> bufs s' = bufs s \<and>
    (\<forall>b \<in> set (bufs s). data b s' = copied (\<lambda>b. mappable XRP_READ sz b s)
        (\<lambda>b. mappable XRP_WRITE sz b s) (unat sz) bs (\<lambda>b. data b s) b)"
  using assms
proof (induction bs arbitrary: i r s rule: induct_list012)
  case 1
  then have "length (bufs s) \<le> i" by simp
  then have "api_get_buffer api i s = Some (None, s)" "api_get_buffer api (i + 1) s = Some (None, s)"
    using get_out [OF 1(1)] by simp_all
  moreover have "good 0 r s" using 1(1) by (rule good_le) simp
  ultimately show ?case by (simp add: copy_loop.simps [of api sz i s])
next
  case (2 x)
  have "length (bufs s) - i = 1" using arg_cong [OF 2(2), of length] by simp
  then have i: "i < length (bufs s)" "bufs s ! i = x" "length (bufs s) = Suc i"
    using nth_via_drop [OF 2(2)] 2(3) by simp_all
  have "good (Suc 0) r s" using 2(1) by (rule good_le) simp
  from get_in [OF this i(1)] obtain s1 where s1: "api_get_buffer api i s = Some (Some x, s1)"
    "good 0 (add_mset x r) s1" "same s s1" "\<forall>x \<in> set (bufs s). data x s1 = data x s" using i(2) by auto
  have "api_get_buffer api (i + 1) s1 = Some (None, s1)"
    using get_out [OF s1(2)] i(3) same_bufs [OF s1(3)] by simp
  with s1 show ?case using same_bufs [OF s1(3)] by (simp add: copy_loop.simps [of api sz i s])
next
  case (3 x y bs)
  let ?R = "\<lambda>b. mappable XRP_READ sz b s" and ?W = "\<lambda>b. mappable XRP_WRITE sz b s"
  have d: "drop (Suc i) (bufs s) = y # bs" using arg_cong [OF 3(4), of "drop 1"] by simp
  have "length (bufs s) - i = Suc (Suc (length bs))" using arg_cong [OF 3(4), of length] by simp
  then have i: "Suc i < length (bufs s)" "bufs s ! i = x" "bufs s ! Suc i = y" "drop (i + 2) (bufs s) = bs"
    using nth_via_drop [OF 3(4)] nth_via_drop [OF d] arg_cong [OF d, of "drop 1"] by simp_all
  have xy: "x \<in> set (bufs s)" "y \<in> set (bufs s)" "x \<noteq> y" using i 3(6) nth_mem [of i "bufs s"] nth_mem [of "Suc i" "bufs s"] by auto
  have g: "good (Suc (Suc (Suc (Suc (2 * length bs + 2))))) r s" using 3(3) by (rule good_le) simp
  from get_pair [OF g i(1)] obtain s1 s2 where s2: "api_get_buffer api i s = Some (Some x, s1)"
    "api_get_buffer api (i + 1) s1 = Some (Some y, s2)" "good (Suc (Suc (2 * length bs + 2))) (add_mset y (add_mset x r)) s2"
    "same s s2" "\<forall>z \<in> set (bufs s). data z s2 = data z s" unfolding i(2,3) by blast
  note b2 = same_bufs [OF s2(4)] and m2 = same_mappable [OF s2(4)]
  show ?case
  proof (cases "?R x \<and> ?W y")
    case True
    have xy2: "x \<in> set (bufs s2)" "y \<in> set (bufs s2)" "mappable XRP_READ sz x s2" "mappable XRP_WRITE sz y s2"
      using xy b2 m2 True by simp_all
    from copy_pair [OF s2(3) xy2(1,2) xy(3) xy2(3,4)] obtain p q s3 s4 s5 s6 s7 s8 s9 where
      run: "api_map api x sz XRP_READ s2 = Some (Some p, s3)" "api_map api y sz XRP_WRITE s3 = Some (Some q, s4)"
        "api_memcpy api q p sz s4 = Some s5" "api_unmap api x p s5 = Some s6" "api_unmap api y q s6 = Some s7"
        "api_release api x s7 = Some s8" "api_release api y s8 = Some s9"
      and s9: "good (2 * length bs + 2) r s9" "same s2 s9"
        "\<forall>z \<in> set (bufs s2). data z s9 =
           (if z = y then take (unat sz) (data x s2) @ drop (unat sz) (data y s2) else data z s2)" .
    have d9: "data z s9 = (if z = y then take (unat sz) (data x s) @ drop (unat sz) (data y s) else data z s)"
      if "z \<in> set (bufs s)" for z using that s9(3) s2(5) xy(1,2) b2 by simp
    have b9: "bufs s9 = bufs s" and m9: "mappable f n b s9 = mappable f n b s" for f n b
      using same_bufs [OF s9(2)] b2 same_mappable [OF s9(2)] m2 by simp_all
    from "3.IH"(1) [OF s9(1), of "i + 2"] obtain s' where s':
      "copy_loop api sz (i + 2) s9 = Some (i + 2 + 2 * pairs_done ?R ?W bs, s')" "good 0 (r + left_over ?R ?W bs) s'"
      "bufs s' = bufs s" "\<forall>b \<in> set (bufs s). data b s' = copied ?R ?W (unat sz) bs (\<lambda>b. data b s9) b"
      using i(1,4) b9 m9 3(6) by auto
    have "copied ?R ?W (unat sz) bs (\<lambda>b. data b s9) b =
        copied ?R ?W (unat sz) (x # y # bs) (\<lambda>b. data b s) b" if b: "b \<in> set (bufs s)" for b
    proof (cases "b \<in> set bs")
      case True
      have "set bs \<subseteq> set (bufs s)" using i(4) set_drop_subset by metis
      with True \<open>?R x \<and> ?W y\<close> d9 show ?thesis by (auto intro!: copied_cong)
    next
      case False
      with b d9 \<open>?R x \<and> ?W y\<close> show ?thesis by (simp add: copied_notin)
    qed
    with s' run s2(1,2) True show ?thesis by (simp add: copy_loop.simps [of api sz i s])
  next
    case False
    have xy2: "x \<in> set (bufs s2)" "y \<in> set (bufs s2)"
      "\<not> (mappable XRP_READ sz x s2 \<and> mappable XRP_WRITE sz y s2)" using xy b2 m2 False by simp_all
    from stuck_pair [OF s2(3) xy2] obtain src dst s3 s4 s5 s6 where
      run: "api_map api x sz XRP_READ s2 = Some (src, s3)" "api_map api y sz XRP_WRITE s3 = Some (dst, s4)"
        "src = None \<or> dst = None" "api_release api x s4 = Some s5" "api_release api y s5 = Some s6"
      and s6: "good (Suc (2 * length bs + 2)) (r + ((if mappable XRP_READ sz x s2 then {#x#} else {#}) +
                     (if mappable XRP_WRITE sz y s2 then {#y#} else {#}))) s6" "same s2 s6"
        "\<forall>z \<in> set (bufs s2). data z s6 = data z s2" .
    have "left_over ?R ?W (x # y # bs) = (if ?R x then {#x#} else {#}) + (if ?W y then {#y#} else {#})"
      unfolding left_over.simps by (rule if_not_P [OF False])
    then have l6: "good 0 (r + left_over ?R ?W (x # y # bs)) s6" using good_le [OF s6(1), of 0] unfolding m2 by simp
    have "copy_loop api sz i s = Some (i, s6)"
      using run s2(1,2) by (auto simp: copy_loop.simps [of api sz i s] split: option.split)
    moreover have "bufs s6 = bufs s" using same_bufs [OF s6(2)] b2 by simp
    ultimately show ?thesis using False s2(5) s6(3) b2 l6 by (auto simp del: left_over.simps)
  qed
qed

text \<open>The part that the two handlers share.\<close>

lemma copy_buffers_ok:
  fixes sz :: u32 and s :: 's
  defines "R \<equiv> (\<lambda>b. sz \<noteq> 0 \<and> mappable XRP_READ sz b s)" and "W \<equiv> (\<lambda>b. mappable XRP_WRITE sz b s)"
  assumes g: "good (2 * length (bufs s) + 2) r s" and dist: "distinct (bufs s)"
  shows "\<exists>s'. copy_buffers api sz s = Some (2 * pairs_done R W (bufs s), s') \<and> bufs s' = bufs s \<and>
    good 0 (r + (if sz = 0 then {#} else left_over R W (bufs s))) s' \<and>
    (\<forall>b \<in> set (bufs s). data b s' = copied R W (unat sz) (bufs s) (\<lambda>b. data b s) b)"
proof (cases "sz = 0")
  case True
  then have "pairs_done R W (bufs s) = 0" "copied R W (unat sz) (bufs s) f b = f b" for f b
    by (cases "bufs s" rule: remdups_adj.cases; simp add: R_def)+
  with True good_le [OF g, of 0] show ?thesis by (simp add: copy_buffers_def)
next
  case False
  then have "R = (\<lambda>b. mappable XRP_READ sz b s)" by (simp add: R_def)
  with False copy_loop_ok [OF g, of 0 sz] dist show ?thesis by (auto simp: copy_buffers_def W_def)
qed

end

text \<open>
  The two predicates for a command with the given input: which buffers can be mapped for reading and for
  writing. A command of size 0 copies nothing.
\<close>

definition readable :: "(xrp_access_flags \<Rightarrow> u32 \<Rightarrow> 'b \<Rightarrow> 's \<Rightarrow> bool) \<Rightarrow> bytes \<Rightarrow> 's \<Rightarrow> 'b \<Rightarrow> bool" where
  "readable mappable inp s b \<longleftrightarrow> command_size inp \<noteq> 0 \<and> mappable XRP_READ (command_size inp) b s"

definition writable :: "(xrp_access_flags \<Rightarrow> u32 \<Rightarrow> 'b \<Rightarrow> 's \<Rightarrow> bool) \<Rightarrow> bytes \<Rightarrow> 's \<Rightarrow> 'b \<Rightarrow> bool" where
  "writable mappable inp s b \<longleftrightarrow> mappable XRP_WRITE (command_size inp) b s"

lemma of_nat_u64_eq: "m < 2 ^ 64 \<Longrightarrow> n < 2 ^ 64 \<Longrightarrow> (of_nat m :: u64) = of_nat n \<longleftrightarrow> m = n"
  by (simp add: word_of_nat_eq_iff take_bit_nat_eq_self)

lemma v1_handler_ok:
  assumes lib: "buffer_group_api api good bufs data mappable points same"
    and g: "good (2 * length (bufs s) + 2) r s" and dist: "distinct (bufs s)"
  shows "\<exists>s'. let R = readable mappable inp s; W = writable mappable inp s; n = 2 * pairs_done R W (bufs s) in
    example_v1_handler api inp out s =
      Some ((if n = length (bufs s) then XRP_STATUS_SUCCESS else XRP_STATUS_FAILURE, answer_loop (length inp) inp out), s') \<and>
    xrp_run_command api inp out s = Some ((XRP_STATUS_SUCCESS, answer_loop (length inp) inp out), s') \<and>
    bufs s' = bufs s \<and> good 0 (r + (if command_size inp = 0 then {#} else left_over R W (bufs s))) s' \<and>
    (\<forall>b \<in> set (bufs s). data b s' = copied R W (unat (command_size inp)) (bufs s) (\<lambda>b. data b s) b)"
proof -
  let ?sz = "command_size inp"
  let ?R = "\<lambda>b. ?sz \<noteq> 0 \<and> mappable XRP_READ ?sz b s" and ?W = "\<lambda>b. mappable XRP_WRITE ?sz b s"
  have RW: "readable mappable inp s = ?R" "writable mappable inp s = ?W"
    by (auto simp: readable_def writable_def)
  obtain s' where s': "copy_buffers api ?sz s = Some (2 * pairs_done ?R ?W (bufs s), s')" "bufs s' = bufs s"
    "good 0 (r + (if ?sz = 0 then {#} else left_over ?R ?W (bufs s))) s'"
    "\<forall>b \<in> set (bufs s). data b s' = copied ?R ?W (unat ?sz) (bufs s) (\<lambda>b. data b s) b"
    using buffer_group_api.copy_buffers_ok [OF lib g dist, of ?sz] by blast
  have len: "api_size api s' = Some (of_nat (length (bufs s)))" "length (bufs s) < 2 ^ 64"
    using buffer_group_api.group_size [OF lib s'(3)] s'(2) by simp_all
  have "of_nat (length (bufs s)) = (of_nat (2 * pairs_done ?R ?W (bufs s)) :: u64) \<longleftrightarrow>
      2 * pairs_done ?R ?W (bufs s) = length (bufs s)"
    using len(2) pairs_done_le [of ?R ?W "bufs s"] by (subst of_nat_u64_eq) auto
  with s' len show ?thesis
    unfolding RW Let_def example_v1_handler_def xrp_run_command_def by (intro exI [of _ s']) simp
qed

end
