(* ===== verification/Dsp_Host.thy ===== *)
theory Dsp_Host
  imports Dsp_Copy
begin

text \<open>
  The host's library as an implementation of the interface of \<open>Dsp_Copy\<close>, over the heap of objects and a
  memory of bytes, and the properties of the handlers.
\<close>

section \<open>Memory\<close>

text \<open>\<open>None\<close>: nothing is mapped at the address.\<close>

type_synonym memory = "u64 \<Rightarrow> u8 option"

definition read_mem :: "memory \<Rightarrow> u64 \<Rightarrow> nat \<Rightarrow> bytes option" where
  "read_mem m p n = those (map (\<lambda>k. m (p + of_nat k)) [0..<n])"

text \<open>\<open>memcpy\<close> between blocks that overlap is undefined.\<close>

definition mem_copy :: "u64 \<Rightarrow> u64 \<Rightarrow> nat \<Rightarrow> memory \<Rightarrow> memory option" where
  "mem_copy dst src n m =
     (if unat (dst - src) < n \<or> unat (src - dst) < n then None
      else do {
        bs \<leftarrow> read_mem m src n;
        old \<leftarrow> read_mem m dst n;
        Some (\<lambda>a. if unat (a - dst) < n then Some (bs ! unat (a - dst)) else m a)
      })"

section \<open>The host's operations\<close>

definition host_api :: "addr \<Rightarrow> (addr, u64, world \<times> memory) group_api" where
  "host_api g = \<lparr>
     api_get_buffer = (\<lambda>i (w, m). do {
       ((b, _), w') \<leftarrow> xrp_get_buffer_from_group g i w;
       Some (b, (w', m)) }),
     api_map = (\<lambda>b sz f (w, m). do {
       ((p, _), w') \<leftarrow> xrp_map_buffer b 0 (ucast sz) f w;
       Some (if p = 0 then None else Some p, (w', m)) }),
     api_memcpy = (\<lambda>dst src sz (w, m). do { m' \<leftarrow> mem_copy dst src (unat sz) m; Some (w, m') }),
     api_unmap = (\<lambda>b p (w, m). do { (_, w') \<leftarrow> xrp_unmap_buffer b p w; Some (w', m) }),
     api_release = (\<lambda>b (w, m). do { w' \<leftarrow> xrp_release_buffer b w; Some (w', m) }),
     api_size = (\<lambda>(w, m). do {
       (v, _) \<leftarrow> xrp_buffer_group_get_info g XRP_BUFFER_GROUP_SIZE_SIZE_T 0 8 w;
       Some (case v of Some (Size_out n) \<Rightarrow> n | _ \<Rightarrow> 0) })\<rparr>"

section \<open>What a handler relies on\<close>

text \<open>The buffers of a group with the address and the size of their storage.\<close>

definition storage :: "addr \<Rightarrow> world \<Rightarrow> (u64 \<times> nat) option" where
  "storage b w = map_option (\<lambda>buf. (buf_ptr buf, unat (buf_size buf))) (get_buffer b w)"

definition host_bufs :: "addr \<Rightarrow> world \<times> memory \<Rightarrow> addr list" where
  "host_bufs g = (\<lambda>(w, m). case entries g w of None \<Rightarrow> [] | Some vs \<Rightarrow> map fst vs)"

definition host_data :: "addr \<Rightarrow> world \<times> memory \<Rightarrow> bytes" where
  "host_data b = (\<lambda>(w, m). case storage b w of None \<Rightarrow> [] | Some (p, n) \<Rightarrow> the (read_mem m p n))"

definition host_mappable :: "addr \<Rightarrow> xrp_access_flags \<Rightarrow> u32 \<Rightarrow> addr \<Rightarrow> world \<times> memory \<Rightarrow> bool" where
  "host_mappable g f sz b = (\<lambda>(w, m). b \<in> set (host_bufs g (w, m)) \<and>
     (case storage b w of None \<Rightarrow> False | Some (p, n) \<Rightarrow> unat sz \<le> n))"

definition host_points :: "addr \<Rightarrow> u64 \<Rightarrow> addr \<Rightarrow> world \<times> memory \<Rightarrow> bool" where
  "host_points g p b = (\<lambda>(w, m). b \<in> set (host_bufs g (w, m)) \<and>
     (case storage b w of None \<Rightarrow> False | Some (q, n) \<Rightarrow> q = p))"

text \<open>The storage of every buffer is mapped, not at 0, and shared with no other buffer of the group.\<close>

definition apart :: "u64 \<times> nat \<Rightarrow> u64 \<times> nat \<Rightarrow> bool" where
  "apart x y \<longleftrightarrow> snd x \<le> unat (fst y - fst x) \<and> snd y \<le> unat (fst x - fst y)"

definition memory_ok :: "(addr \<Rightarrow> (u64 \<times> nat) option) \<Rightarrow> addr list \<Rightarrow> memory \<Rightarrow> bool" where
  "memory_ok st bs m \<longleftrightarrow>
     (\<forall>b \<in> set bs. \<exists>p n. st b = Some (p, n) \<and> p \<noteq> 0 \<and> read_mem m p n \<noteq> None) \<and>
     (\<forall>x \<in> set bs. \<forall>y \<in> set bs. x \<noteq> y \<longrightarrow> apart (the (st x)) (the (st y)))"

definition host_good :: "addr \<Rightarrow> addr multiset \<Rightarrow> nat \<Rightarrow> addr multiset \<Rightarrow> world \<times> memory \<Rightarrow> bool" where
  "host_good g c k r = (\<lambda>(w, m). world_ok w (add_mset g (r + c)) \<and> room w (add_mset g (r + c)) k \<and>
     length (host_bufs g (w, m)) < 2 ^ 64 \<and> (\<exists>vs. entries g w = Some vs) \<and>
     memory_ok (\<lambda>b. storage b w) (host_bufs g (w, m)) m)"

definition host_same :: "addr \<Rightarrow> world \<times> memory \<Rightarrow> world \<times> memory \<Rightarrow> bool" where
  "host_same g = (\<lambda>(w, m) (w', m'). entries g w' = entries g w \<and>
     (\<forall>b \<in> set (host_bufs g (w, m)). storage b w' = storage b w))"

section \<open>Reading and copying\<close>

lemma those_map_iff:
  "those (map f xs) = Some ys \<longleftrightarrow> length ys = length xs \<and> (\<forall>i < length xs. f (xs ! i) = Some (ys ! i))"
proof (induction xs arbitrary: ys)
  case (Cons x xs)
  then show ?case by (cases ys; cases "f x") (auto simp: All_less_Suc2)
qed auto

lemma read_mem_iff:
  "read_mem m p n = Some bs \<longleftrightarrow> length bs = n \<and> (\<forall>k < n. m (p + of_nat k) = Some (bs ! k))"
  by (simp add: read_mem_def those_map_iff)

lemma read_memE:
  assumes "read_mem m p n \<noteq> None"
  obtains bs where "read_mem m p n = Some bs" and "length bs = n"
  using assms read_mem_iff by (metis option.exhaust)

lemma read_mem_prefix: "read_mem m p n = Some bs \<Longrightarrow> k \<le> n \<Longrightarrow> read_mem m p k = Some (take k bs)"
  by (simp add: read_mem_iff)

text \<open>Distances between addresses of blocks that lie apart.\<close>

lemma unat_diff_block:
  fixes p q :: u64
  assumes "j < n" and "n \<le> 2 ^ 64" and "k \<le> unat (p - q)" and "n \<le> unat (q - p)"
  shows "k \<le> unat (p + of_nat j - q)"
proof -
  have j: "unat (of_nat j :: u64) = j" using assms(1,2) by (simp add: unat_of_nat take_bit_nat_eq_self)
  have "unat p < 2 ^ 64" "unat q < 2 ^ 64"
    using unsigned_less [of p, where ?'a = nat] unsigned_less [of q, where ?'a = nat] by simp_all
  moreover have "p \<noteq> q" using assms(1,4) by auto
  then have "unat p \<noteq> unat q" by (simp add: word_unat_eq_iff)
  ultimately have "unat (p - q) + unat (q - p) = 2 ^ 64"
    by (cases "unat q \<le> unat p") (simp_all add: unat_sub_if_size word_size)
  then have "unat (p - q) + unat (of_nat j :: u64) < 2 ^ 64" using assms(1,4) j by simp
  then have "unat (p - q + of_nat j) = unat (p - q) + j" by (subst unat_add_lem [THEN iffD1]) (simp_all add: j)
  with assms(3) show ?thesis by (simp add: algebra_simps)
qed

lemma mem_copy_ok:
  assumes x: "read_mem m p k = Some xs" and y: "read_mem m q n = Some ys" and a: "apart (p, k) (q, n)"
    and sz: "sz \<le> k" "sz \<le> n" and n: "n < 2 ^ 64"
  shows "\<exists>m'. mem_copy q p sz m = Some m' \<and> read_mem m' q n = Some (take sz xs @ drop sz ys) \<and>
    (\<forall>r j zs. read_mem m r j = Some zs \<longrightarrow> j < 2 ^ 64 \<longrightarrow> apart (r, j) (q, n) \<longrightarrow> read_mem m' r j = Some zs)"
proof -
  have xs: "read_mem m p sz = Some (take sz xs)" and ys: "read_mem m q sz = Some (take sz ys)"
    using read_mem_prefix x y sz by blast+
  let ?m = "\<lambda>a. if unat (a - q) < sz then Some (take sz xs ! unat (a - q)) else m a"
  have "mem_copy q p sz m = Some ?m"
    using a sz xs ys by (simp add: mem_copy_def apart_def)
  moreover have "read_mem ?m q n = Some (take sz xs @ drop sz ys)"
  proof -
    have "unat (of_nat i :: u64) = i" if "i < n" for i
      using that n by (simp add: unat_of_nat take_bit_nat_eq_self)
    then show ?thesis using x y sz by (auto simp: read_mem_iff nth_append)
  qed
  moreover have "read_mem ?m r j = Some zs" if "read_mem m r j = Some zs" "j < 2 ^ 64" "apart (r, j) (q, n)" for r j zs
  proof -
    have "sz \<le> unat (r + of_nat i - q)" if "i < j" for i
      using unat_diff_block [OF that, of sz r q] \<open>j < 2 ^ 64\<close> \<open>apart (r, j) (q, n)\<close> sz(2) by (simp add: apart_def)
    then show ?thesis using that(1) by (fastforce simp: read_mem_iff)
  qed
  ultimately show ?thesis by blast
qed

section \<open>What a call leaves of the group\<close>

lemma memory_ok_cong: "\<forall>b \<in> set bs. st' b = st b \<Longrightarrow> memory_ok st' bs m = memory_ok st bs m"
  by (simp add: memory_ok_def)

lemma entry_alive:
  assumes ok: "world_ok w c" and g: "g \<in># c" "entries g w = Some vs" and b: "b \<in> fst ` set vs"
  shows "b \<in># c + heap_refs (heap w)" and "kinds w b = Some K_Buffer" and "b \<noteq> g"
proof -
  obtain gr where gr: "get_group g w = Some gr" "group_entries gr = vs" using g(2) by (auto simp: entries_def)
  obtain obj where h: "heap w g = Some obj" "contents obj = Group gr" using gr(1) by (rule get_groupE)
  have "ref_count obj \<noteq> 0" using world_ok_alive [OF ok h(1)] g(1) by simp
  then have "b \<in># heap_refs (heap w)"
    using in_heap_refs [of "heap w" g obj b] ok h gr(2) b by (auto simp: world_ok_def owns_def)
  then show "b \<in># c + heap_refs (heap w)" by simp
  show k: "kinds w b = Some K_Buffer" using group_facts(5) [OF ok g(1) gr(1)] gr(2) b by simp
  show "b \<noteq> g" using k get_group_kind [OF gr(1)] by auto
qed

text \<open>The step that every operation of the interface is: at most the bookkeeping of one buffer changes.\<close>

lemma host_step:
  assumes g: "host_good g c (n + j) r (w, m)" and mv: "moves j w (add_mset g (r + c)) w' (add_mset g (r' + c))"
    and al: "alters A w w'" and A: "\<forall>b \<in> A. b \<in> set (host_bufs g (w, m)) \<and> storage b w' = storage b w"
  shows "host_good g c n r' (w', m)" and "host_same g (w, m) (w', m)"
    and "\<forall>b \<in> set (host_bufs g (w, m)). host_data b (w', m) = host_data b (w, m)"
proof -
  from g obtain vs where h: "world_ok w (add_mset g (r + c))" "room w (add_mset g (r + c)) (n + j)"
    "entries g w = Some vs" "length vs < 2 ^ 64" "memory_ok (\<lambda>b. storage b w) (map fst vs) m"
    by (auto simp: host_good_def host_bufs_def)
  note ok' = moves_ok [OF mv]
  have bs: "set (host_bufs g (w, m)) = fst ` set vs" using h(3) by (simp add: host_bufs_def)
  have "g \<notin> A" using A entry_alive(3) [OF h(1) _ h(3)] bs by fastforce
  then have e': "entries g w' = Some vs" using group_kept [OF al _ h(1) ok' _ h(3)] by simp
  have st: "storage b w' = storage b w" if b: "b \<in> fst ` set vs" for b
  proof (cases "b \<in> A")
    case True
    with A show ?thesis by blast
  next
    case False
    obtain buf where buf: "get_buffer b w = Some buf"
      using entry_alive(2) [OF h(1) _ h(3) b] by (auto elim: buffer_kindE)
    with buffer_kept [OF al False h(1) ok' entry_alive(1) [OF ok' _ e' b] buf] show ?thesis by (simp add: storage_def)
  qed
  show "host_good g c n r' (w', m)"
    using ok' moves_room [OF mv h(2)] e' h(4,5) st memory_ok_cong [of "map fst vs" "\<lambda>b. storage b w'" "\<lambda>b. storage b w" m]
    by (simp add: host_good_def host_bufs_def)
  show "host_same g (w, m) (w', m)" using st h(3) e' bs by (simp add: host_same_def)
  show "\<forall>b \<in> set (host_bufs g (w, m)). host_data b (w', m) = host_data b (w, m)"
    using st bs by (simp add: host_data_def)
qed

section \<open>The host provides the interface\<close>

lemma unat_ucast_u32: "unat (ucast (x :: u32) :: u64) = unat x"
  using unsigned_less [of x, where ?'a = nat] by (simp add: unsigned_ucast_eq take_bit_nat_eq_self)

lemma host_member:
  assumes g: "host_good g c k r (w, m)" and b: "b \<in> set (host_bufs g (w, m))"
  obtains buf bs where "get_buffer b w = Some buf" and "storage b w = Some (buf_ptr buf, unat (buf_size buf))"
    and "buf_ptr buf \<noteq> 0" and "read_mem m (buf_ptr buf) (unat (buf_size buf)) = Some bs"
    and "host_data b (w, m) = bs" and "length bs = unat (buf_size buf)"
proof -
  have "memory_ok (\<lambda>b. storage b w) (host_bufs g (w, m)) m" using g by (simp add: host_good_def)
  with b obtain p n where st: "storage b w = Some (p, n)" "p \<noteq> 0" "read_mem m p n \<noteq> None"
    by (auto simp: memory_ok_def)
  from st(1) obtain buf where "get_buffer b w = Some buf" "p = buf_ptr buf" "n = unat (buf_size buf)"
    by (auto simp: storage_def)
  moreover from st(3) obtain bs where "read_mem m p n = Some bs" "length bs = n" by (rule read_memE)
  ultimately show thesis using st(1,2) by (intro that [of buf bs]) (simp_all add: host_data_def)
qed

lemma host_get_in:
  assumes g: "host_good g c (Suc k) r (w, m)" and i: "i < length (host_bufs g (w, m))"
  shows "\<exists>s'. api_get_buffer (host_api g) i (w, m) = Some (Some (host_bufs g (w, m) ! i), s') \<and>
    host_good g c k (add_mset (host_bufs g (w, m) ! i) r) s' \<and> host_same g (w, m) s' \<and>
    (\<forall>x \<in> set (host_bufs g (w, m)). host_data x s' = host_data x (w, m))"
proof -
  from g obtain vs where h: "world_ok w (add_mset g (r + c))" "room w (add_mset g (r + c)) (Suc k)" "entries g w = Some vs"
    by (auto simp: host_good_def)
  then obtain gr where gr: "get_group g w = Some gr" "group_entries gr = vs" by (auto simp: entries_def)
  have i': "i < n_buffers gr" "fst (vs ! i) = host_bufs g (w, m) ! i"
    using i h(3) group_facts(4) [OF h(1) _ gr(1)] gr(2) by (simp_all add: host_bufs_def)
  have "room w (add_mset g (r + c)) 1" using h(2) by (simp add: room_def)
  from get_buffer_ok [OF h(1) _ gr(1) this, of i] i' gr(2) obtain w' where
    w': "xrp_get_buffer_from_group g i w = Some ((Some (host_bufs g (w, m) ! i), XRP_STATUS_SUCCESS), w')"
    "moves 1 w (add_mset g (r + c)) w' (add_mset (host_bufs g (w, m) ! i) (add_mset g (r + c)))" "keeps w w'" by auto
  have g1: "host_good g c (k + 1) r (w, m)" using g by simp
  from host_step [OF g1 _ w'(3), of "add_mset (host_bufs g (w, m) ! i) r"] w'(1,2)
  show ?thesis by (simp add: host_api_def add_mset_commute)
qed

lemma host_get_out:
  assumes g: "host_good g c k r (w, m)" and i: "length (host_bufs g (w, m)) \<le> i"
  shows "api_get_buffer (host_api g) i (w, m) = Some (None, (w, m))"
proof -
  from g obtain vs where h: "world_ok w (add_mset g (r + c))" "entries g w = Some vs" by (auto simp: host_good_def)
  then obtain gr where gr: "get_group g w = Some gr" "group_entries gr = vs" by (auto simp: entries_def)
  have "\<not> i < n_buffers gr"
    using i h(2) group_facts(4) [OF h(1) _ gr(1)] gr(2) by (simp add: host_bufs_def)
  then show ?thesis using gr(1) by (simp add: host_api_def xrp_get_buffer_from_group_def)
qed

lemma host_map_in:
  assumes g: "host_good g c (Suc k) r (w, m)" and b: "b \<in> set (host_bufs g (w, m))"
    and held: "b \<in># r" and mp: "host_mappable g f sz b (w, m)"
  shows "\<exists>p s'. api_map (host_api g) b sz f (w, m) = Some (Some p, s') \<and> host_good g c k (add_mset b r) s' \<and>
    host_points g p b s' \<and> host_same g (w, m) s' \<and>
    (\<forall>x \<in> set (host_bufs g (w, m)). host_data x s' = host_data x (w, m))"
proof -
  obtain buf bs where buf: "get_buffer b w = Some buf" "storage b w = Some (buf_ptr buf, unat (buf_size buf))" "buf_ptr buf \<noteq> 0"
    using host_member [OF g b] by metis
  have h: "world_ok w (add_mset g (r + c))" "room w (add_mset g (r + c)) (Suc k)" using g by (auto simp: host_good_def)
  have "unat sz \<le> unat (buf_size buf)" using mp buf(2) by (simp add: host_mappable_def)
  moreover have "unat (ucast sz :: u64) = unat sz" by (rule unat_ucast_u32)
  moreover have "room w (add_mset g (r + c)) 1" using h(2) by (simp add: room_def)
  ultimately obtain w' where w': "xrp_map_buffer b 0 (ucast sz) f w = Some ((buf_ptr buf + 0, XRP_STATUS_SUCCESS), w')"
    "moves 1 w (add_mset g (r + c)) w' (add_mset b (add_mset g (r + c)))"
    "get_buffer b w' = Some (buf\<lparr>map_count := map_count buf + 1, map_flags := or (map_flags buf) f\<rparr>)" "alters {b} w w'"
    using map_buffer_ok [OF h(1) _ _ buf(1), of 0 "ucast sz" f] held by auto
  have st: "storage b w' = storage b w" using w'(3) buf(1) by (simp add: storage_def)
  have g1: "host_good g c (k + 1) r (w, m)" using g by simp
  from host_step [OF g1 _ w'(4), of "add_mset b r"] st b w'(2)
  have s: "host_good g c k (add_mset b r) (w', m)" "host_same g (w, m) (w', m)"
    "\<forall>x \<in> set (host_bufs g (w, m)). host_data x (w', m) = host_data x (w, m)" by (simp_all add: add_mset_commute)
  have "host_points g (buf_ptr buf) b (w', m)"
    using s(2) b st buf(2) by (simp add: host_points_def host_same_def host_bufs_def)
  with s w'(1) buf(3) show ?thesis by (simp add: host_api_def)
qed

lemma host_map_out:
  assumes g: "host_good g c k r (w, m)" and b: "b \<in> set (host_bufs g (w, m))" and mp: "\<not> host_mappable g f sz b (w, m)"
  shows "api_map (host_api g) b sz f (w, m) = Some (None, (w, m))"
proof -
  obtain buf bs where buf: "get_buffer b w = Some buf" "storage b w = Some (buf_ptr buf, unat (buf_size buf))"
    using host_member [OF g b] by metis
  have "\<not> unat sz \<le> unat (buf_size buf)" using mp b buf(2) by (simp add: host_mappable_def)
  then have "\<not> (ucast sz :: u64) \<le> buf_size buf" by (simp add: word_le_nat_alt unat_ucast_u32)
  then show ?thesis using buf(1) by (simp add: host_api_def xrp_map_buffer_def)
qed

lemma host_memcpy:
  assumes g: "host_good g c k r (w, m)" and x: "x \<in> set (host_bufs g (w, m))" and y: "y \<in> set (host_bufs g (w, m))"
    and ne: "x \<noteq> y" and p: "host_points g p x (w, m)" and q: "host_points g q y (w, m)"
    and sx: "unat sz \<le> length (host_data x (w, m))" and sy: "unat sz \<le> length (host_data y (w, m))"
  shows "\<exists>s'. api_memcpy (host_api g) q p sz (w, m) = Some s' \<and> host_good g c k r s' \<and> host_same g (w, m) s' \<and>
    (\<forall>z \<in> set (host_bufs g (w, m)). host_data z s' =
       (if z = y then take (unat sz) (host_data x (w, m)) @ drop (unat sz) (host_data y (w, m)) else host_data z (w, m)))"
proof -
  obtain bx xs where "get_buffer x w = Some bx" and bx: "storage x w = Some (buf_ptr bx, unat (buf_size bx))"
    and "buf_ptr bx \<noteq> 0" and bx': "read_mem m (buf_ptr bx) (unat (buf_size bx)) = Some xs"
    "host_data x (w, m) = xs" "length xs = unat (buf_size bx)" by (rule host_member [OF g x])
  obtain bY ys where "get_buffer y w = Some bY" and bY: "storage y w = Some (buf_ptr bY, unat (buf_size bY))"
    and "buf_ptr bY \<noteq> 0" and bY': "read_mem m (buf_ptr bY) (unat (buf_size bY)) = Some ys"
    "host_data y (w, m) = ys" "length ys = unat (buf_size bY)" by (rule host_member [OF g y])
  have pq: "p = buf_ptr bx" "q = buf_ptr bY" using p q bx bY by (simp_all add: host_points_def)
  have mok: "memory_ok (\<lambda>b. storage b w) (host_bufs g (w, m)) m" using g by (simp add: host_good_def)
  have ap: "apart (the (storage u w)) (the (storage v w))" if "u \<in> set (host_bufs g (w, m))" "v \<in> set (host_bufs g (w, m))" "u \<noteq> v" for u v
    using mok that by (simp add: memory_ok_def)
  have n: "unat (a :: u64) < 2 ^ 64" for a using unsigned_less [of a, where ?'a = nat] by simp
  from mem_copy_ok [OF bx'(1) bY'(1) _ _ _ n, of "unat sz"] ap [OF x y ne] bx bx' bY bY' sx sy
  obtain m' where m': "mem_copy q p (unat sz) m = Some m'"
    "read_mem m' (buf_ptr bY) (unat (buf_size bY)) = Some (take (unat sz) xs @ drop (unat sz) ys)"
    "\<forall>r j zs. read_mem m r j = Some zs \<longrightarrow> j < 2 ^ 64 \<longrightarrow> apart (r, j) (buf_ptr bY, unat (buf_size bY)) \<longrightarrow> read_mem m' r j = Some zs"
    unfolding pq by auto
  have rd: "read_mem m' (fst (the (storage z w))) (snd (the (storage z w))) =
      Some (if z = y then take (unat sz) xs @ drop (unat sz) ys else host_data z (w, m))"
    if z: "z \<in> set (host_bufs g (w, m))" for z
  proof (cases "z = y")
    case True
    with m'(2) bY show ?thesis by simp
  next
    case False
    obtain bz zs where "get_buffer z w = Some bz" and bz: "storage z w = Some (buf_ptr bz, unat (buf_size bz))"
      and "buf_ptr bz \<noteq> 0" and bz': "read_mem m (buf_ptr bz) (unat (buf_size bz)) = Some zs" "host_data z (w, m) = zs"
      by (rule host_member [OF g z])
    with m'(3) n [of "buf_size bz"] ap [OF z y False] bY False show ?thesis by auto
  qed
  have dom: "\<exists>p n. storage z w = Some (p, n) \<and> p \<noteq> 0" if "z \<in> set (host_bufs g (w, m))" for z
    using mok that by (force simp: memory_ok_def)
  have "memory_ok (\<lambda>b. storage b w) (host_bufs g (w, m)) m'"
    unfolding memory_ok_def
  proof (intro conjI ballI impI)
    show "\<exists>p n. storage z w = Some (p, n) \<and> p \<noteq> 0 \<and> read_mem m' p n \<noteq> None" if z: "z \<in> set (host_bufs g (w, m))" for z
      using dom [OF z] rd [OF z] by auto
  qed (rule ap)
  moreover have "host_bufs g (w, m') = host_bufs g (w, m)" by (simp add: host_bufs_def)
  ultimately have "host_good g c k r (w, m')" using g by (simp add: host_good_def)
  moreover have "host_data z (w, m') = (if z = y then take (unat sz) xs @ drop (unat sz) ys else host_data z (w, m))"
    if z: "z \<in> set (host_bufs g (w, m))" for z
    using rd [OF z] dom [OF z] by (auto simp: host_data_def)
  ultimately show ?thesis using m'(1) bx'(2) bY'(2) by (simp add: host_api_def host_same_def)
qed

lemma host_unmap:
  assumes g: "host_good g c k (add_mset b r) (w, m)" and b: "b \<in> set (host_bufs g (w, m))" and p: "host_points g p b (w, m)"
  shows "\<exists>s'. api_unmap (host_api g) b p (w, m) = Some s' \<and> host_good g c k r s' \<and> host_same g (w, m) s' \<and>
    (\<forall>x \<in> set (host_bufs g (w, m)). host_data x s' = host_data x (w, m))"
proof -
  obtain buf where buf: "get_buffer b w = Some buf" "storage b w = Some (buf_ptr buf, unat (buf_size buf))"
    using host_member [OF g b] by metis
  have pb: "p = buf_ptr buf" using p buf(2) by (simp add: host_points_def)
  from g obtain vs where h: "world_ok w (add_mset b (add_mset g (r + c)))" "entries g w = Some vs"
    by (auto simp: host_good_def add_mset_commute)
  obtain w' where w': "xrp_unmap_buffer b p w = Some (XRP_STATUS_SUCCESS, w')"
    "moves 0 w (add_mset b (add_mset g (r + c))) w' (add_mset g (r + c))" "alters {b} w w'"
    "b \<in># add_mset g (r + c) + heap_refs (heap w') \<longrightarrow> get_buffer b w' = Some (buf\<lparr>map_count := map_count buf - 1\<rparr>)"
    using unmap_buffer_ok [OF h(1) buf(1), of p] pb by auto
  have bv: "b \<in> fst ` set vs" using b h(2) by (simp add: host_bufs_def)
  have "b \<noteq> g" using entry_alive(3) [OF h(1) _ h(2) bv] by simp
  then have "entries g w' = Some vs" using group_kept [OF w'(3) _ h(1) moves_ok [OF w'(2)] _ h(2)] by simp
  then have "b \<in># add_mset g (r + c) + heap_refs (heap w')" by (intro entry_alive(1) [OF moves_ok [OF w'(2)] _ _ bv]) simp_all
  with w'(4) have st: "storage b w' = storage b w" using buf(1) by (simp only: storage_def) simp
  have g0: "host_good g c (k + 0) (add_mset b r) (w, m)" using g by simp
  from host_step [OF g0 _ w'(3), of r] w'(1,2) st b show ?thesis
    by (simp add: host_api_def add_mset_commute)
qed

lemma host_release:
  assumes g: "host_good g c k (add_mset b r) (w, m)" and b: "b \<in> set (host_bufs g (w, m))"
  shows "\<exists>s'. api_release (host_api g) b (w, m) = Some s' \<and> host_good g c k r s' \<and> host_same g (w, m) s' \<and>
    (\<forall>x \<in> set (host_bufs g (w, m)). host_data x s' = host_data x (w, m))"
proof -
  obtain buf where "get_buffer b w = Some buf" using host_member [OF g b] by metis
  then have k: "kinds w b = Some K_Buffer" by (auto simp: kinds_def elim: get_bufferE)
  from g have h: "world_ok w (add_mset b (add_mset g (r + c)))" by (auto simp: host_good_def add_mset_commute)
  obtain w' where w': "xrp_release_buffer b w = Some w'"
    "moves 0 w (add_mset b (add_mset g (r + c))) w' (add_mset g (r + c))" "keeps w w'"
    using release_buffer_ok [OF h k] by blast
  have g0: "host_good g c (k + 0) (add_mset b r) (w, m)" using g by simp
  from host_step [OF g0 _ w'(3), of r] w'(1,2) show ?thesis by (simp add: host_api_def add_mset_commute)
qed

lemma host_size:
  assumes g: "host_good g c k r (w, m)"
  shows "api_size (host_api g) (w, m) = Some (of_nat (length (host_bufs g (w, m)))) \<and> length (host_bufs g (w, m)) < 2 ^ 64"
proof -
  from g obtain vs where h: "world_ok w (add_mset g (r + c))" "entries g w = Some vs" by (auto simp: host_good_def)
  then obtain gr where gr: "get_group g w = Some gr" "group_entries gr = vs" by (auto simp: entries_def)
  have "n_buffers gr = length vs" using group_facts(4) [OF h(1) _ gr(1)] gr(2) by simp
  then show ?thesis using g gr(1) h(2) by (simp add: host_api_def xrp_buffer_group_get_info_def host_bufs_def host_good_def)
qed

lemma host_same_bufs: "host_same g s s' \<Longrightarrow> host_bufs g s' = host_bufs g s"
  by (cases s; cases s') (simp add: host_same_def host_bufs_def)

lemma host_same_storage: "host_same g s s' \<Longrightarrow> b \<in> set (host_bufs g s) \<Longrightarrow> storage b (fst s') = storage b (fst s)"
  by (cases s; cases s') (simp add: host_same_def)

lemma host_mappable_iff:
  "host_mappable g f sz b s \<longleftrightarrow> b \<in> set (host_bufs g s) \<and> (\<exists>p n. storage b (fst s) = Some (p, n) \<and> unat sz \<le> n)"
  by (cases s) (auto simp: host_mappable_def split: option.splits)

lemma host_points_iff:
  "host_points g p b s \<longleftrightarrow> b \<in> set (host_bufs g s) \<and> (\<exists>n. storage b (fst s) = Some (p, n))"
  by (cases s) (auto simp: host_points_def split: option.splits)

interpretation host: buffer_group_api "host_api g" "host_good g c" "host_bufs g" host_data "host_mappable g" "host_points g" "host_same g"
  for g c
proof (unfold_locales, goal_cases)
  case (1 s s')
  then show ?case by (rule host_same_bufs)
next
  case (2 s s' f sz b)
  then show ?case by (auto simp: host_mappable_iff host_same_bufs host_same_storage)
next
  case (3 s s' p b)
  then show ?case by (auto simp: host_points_iff host_same_bufs host_same_storage)
next
  case (4 s s' s'')
  then show ?case by (cases s; cases s'; cases s'') (simp add: host_same_def host_bufs_def)
next
  case (5 k r s)
  then show ?case by (cases s) (auto simp: host_good_def room_def)
next
  case (6 k r s f sz b)
  then show ?case by (cases s) (force simp: host_mappable_def elim!: host_member)
next
  case (7 k r s i)
  then show ?case by (cases s) (auto dest: host_get_in)
next
  case (8 k r s i)
  then show ?case by (cases s) (auto dest: host_get_out)
next
  case (9 k r s b f sz)
  then show ?case by (cases s) (auto dest: host_map_in)
next
  case (10 k r s b f sz)
  then show ?case by (cases s) (auto dest: host_map_out)
next
  case (11 k r s x y p q sz)
  then show ?case using host_memcpy [of g c k r "fst s" "snd s" x y p q sz] unfolding prod.collapse by blast
next
  case (12 k b r s p)
  then show ?case using host_unmap [of g c k b r "fst s" "snd s" p] by simp
next
  case (13 k b r s)
  then show ?case using host_release [of g c k b r "fst s" "snd s"] by simp
next
  case (14 k r s)
  then show ?case using host_size [of g c k r "fst s" "snd s"] by simp
qed

section \<open>Properties\<close>

text \<open>
  C36. The version 1 handler of the DSP example, and the command of the DSP framework, whatever library
  satisfies the documented interface: the handler returns; the answer is the input plus the index in
  every byte, as far as input and output reach; the first size bytes of every even buffer replace those
  of the buffer after it, pair by pair, up to the first pair of which one cannot be mapped; nothing else
  changes. The status is SUCCESS exactly when the whole group was copied, or is empty. The references
  that remain are those of \<open>left_over\<close>: none when everything was copied.
\<close>

theorem v1_handler_correct:
  assumes "buffer_group_api api good bufs data mappable points same"
    and "good (2 * length (bufs s) + 2) r s" and "distinct (bufs s)"
  shows "\<exists>s'. let R = readable mappable inp s; W = writable mappable inp s;
      answer = map (\<lambda>i. if i < length inp then inp ! i + of_nat i else out ! i) [0..<length out] in
    example_v1_handler api inp out s =
      Some ((if 2 * pairs_done R W (bufs s) = length (bufs s) then XRP_STATUS_SUCCESS else XRP_STATUS_FAILURE, answer), s') \<and>
    xrp_run_command api inp out s = Some ((XRP_STATUS_SUCCESS, answer), s') \<and>
    bufs s' = bufs s \<and> good 0 (r + (if command_size inp = 0 then {#} else left_over R W (bufs s))) s' \<and>
    (\<forall>b \<in> set (bufs s). data b s' = copied R W (unat (command_size inp)) (bufs s) (\<lambda>b. data b s) b)"
  using v1_handler_ok [OF assms, of inp out] unfolding answer_loop_eq by (auto simp: Let_def)

text \<open>A group of two buffers of 8 bytes in the host's library.\<close>

definition world_pair :: world where
  "world_pair = \<lparr>heap =
      [16 \<mapsto> \<lparr>ref_count = 1, contents = Buffer (zero_buffer\<lparr>buf_ptr := 0x2000, buf_size := 8, ion_fd := 9\<rparr>)\<rparr>,
       18 \<mapsto> \<lparr>ref_count = 1, contents = Buffer (zero_buffer\<lparr>buf_ptr := 0x3000, buf_size := 8, ion_fd := 10\<rparr>)\<rparr>,
       17 \<mapsto> \<lparr>ref_count = 1, contents = Group \<lparr>n_buffers = 2, capacity = 2,
                gbuffer = [Some (16, XRP_READ), Some (18, XRP_WRITE)]\<rparr>\<rparr>],
     next_addr = 19, env = env_good, ticks = 0, log = []\<rparr>"

definition memory_pair :: memory where
  "memory_pair a = (if 0x2000 \<le> a \<and> a < 0x2008 then Some 7
                    else if 0x3000 \<le> a \<and> a < 0x3008 then Some 1 else None)"

lemma world_pair_storage: "storage 16 world_pair = Some (0x2000, 8)" "storage 18 world_pair = Some (0x3000, 8)"
  by (simp_all add: storage_def get_buffer_def world_pair_def)

lemma world_pair_bufs: "host_bufs 17 (world_pair, m) = [16, 18]"
  by (simp add: host_bufs_def entries_def get_group_def world_pair_def group_entries_def)

lemma world_pair_good: "host_good 17 {#} 6 {#} (world_pair, memory_pair)"
proof -
  have refs: "heap_refs (heap world_pair) = {#16, 18#}"
    by (simp add: world_pair_def heap_refs_insert owns_def zero_buffer_def group_entries_def)
  have ok: "world_ok world_pair {#17#}"
    unfolding world_ok_def refs
    by (auto simp: world_pair_def kinds_def group_entries_def holds_def zero_buffer_def)
  have e: "entries 17 world_pair = Some [(16, XRP_READ), (18, XRP_WRITE)]"
    by (simp add: entries_def get_group_def world_pair_def group_entries_def)
  have "read_mem memory_pair 0x2000 8 = Some (replicate 8 7)" "read_mem memory_pair 0x3000 8 = Some (replicate 8 1)"
    by code_simp+
  then have "memory_ok (\<lambda>b. storage b world_pair) [16, 18] memory_pair"
    by (simp add: memory_ok_def world_pair_storage apart_def)
  then show ?thesis using ok refs e by (simp add: host_good_def host_bufs_def room_def)
qed

theorem v1_handler_correct_witness:
  "\<exists>w m. example_v1_handler (host_api 17) [4, 0, 0, 0] [9, 9] (world_pair, memory_pair) =
      Some ((XRP_STATUS_SUCCESS, [4, 1]), (w, m)) \<and>
    host_data 18 (w, m) = [7, 7, 7, 7, 1, 1, 1, 1] \<and> host_good 17 {#} 0 {#} (w, m)"
proof -
  have sz: "command_size [4, 0, 0, 0] = 4" by (simp add: command_size_def get32_def)
  have data: "host_data 16 (world_pair, memory_pair) = replicate 8 7" "host_data 18 (world_pair, memory_pair) = replicate 8 1"
    by code_simp+
  have map: "host_mappable 17 f 4 16 (world_pair, memory_pair)" "host_mappable 17 f 4 18 (world_pair, memory_pair)" for f
    by (simp_all add: host_mappable_iff world_pair_bufs world_pair_storage)
  have cp: "take 4 (replicate 8 (7 :: u8)) @ drop 4 (replicate 8 1) = [7, 7, 7, 7, 1, 1, 1, 1]" by code_simp
  show ?thesis
    using v1_handler_correct [OF host.buffer_group_api_axioms, of 17 "{#}" "(world_pair, memory_pair)" "{#}" "[4, 0, 0, 0]" "[9, 9]"]
      world_pair_good
    by (auto simp: world_pair_bufs sz data map readable_def writable_def Let_def cp simp del: take_replicate drop_replicate)
qed

lemma left_over_odd:
  "odd (length bs) \<Longrightarrow> \<forall>b \<in> set bs. R b \<and> W b \<Longrightarrow> left_over R W bs = {#last bs#} \<and> 2 * pairs_done R W bs \<noteq> length bs"
proof (induction R W bs rule: left_over.induct)
  case (1 R W x y bs)
  moreover from this have "bs \<noteq> []" by auto
  ultimately show ?case by simp
qed auto

text \<open>
  Where the version 1 handler does not do what its interface asks: \<open>xrp_api.h\<close> says that on return of a
  handler every reference count is back at its entry value. For a group with an odd number of buffers
  the handler stops at the last one, of which it has got a reference, and reports FAILURE without giving
  that reference back.
\<close>

theorem v1_handler_leaks:
  assumes "buffer_group_api api good bufs data mappable points same"
    and "good (2 * length (bufs s) + 2) r s" and "distinct (bufs s)" and "odd (length (bufs s))" and "command_size inp \<noteq> 0"
    and "\<forall>b \<in> set (bufs s). readable mappable inp s b \<and> writable mappable inp s b"
  shows "\<exists>answer s'. example_v1_handler api inp out s = Some ((XRP_STATUS_FAILURE, answer), s') \<and>
    good 0 (add_mset (last (bufs s)) r) s'"
  using v1_handler_ok [OF assms(1-3), of inp out] left_over_odd [OF assms(4,6)] assms(5) by (auto simp: Let_def)

definition world_odd :: world where
  "world_odd = world_pair\<lparr>heap := (heap world_pair)(17 \<mapsto> \<lparr>ref_count = 1,
     contents = Group \<lparr>n_buffers = 1, capacity = 2, gbuffer = [Some (16, XRP_READ), None]\<rparr>\<rparr>)\<rparr>"

lemma world_odd_facts:
  "host_good 17 {#18#} 4 {#} (world_odd, memory_pair)" "host_bufs 17 (world_odd, m) = [16]"
  "storage 16 world_odd = Some (0x2000, 8)"
proof -
  have refs: "heap_refs (heap world_odd) = {#16#}"
    by (simp add: world_odd_def world_pair_def heap_refs_insert owns_def zero_buffer_def group_entries_def)
  have ok: "world_ok world_odd {#17, 18#}"
    unfolding world_ok_def refs
    by (auto simp: world_odd_def world_pair_def kinds_def group_entries_def holds_def zero_buffer_def)
  show st: "storage 16 world_odd = Some (0x2000, 8)"
    by (simp add: storage_def get_buffer_def world_odd_def world_pair_def)
  have e: "entries 17 world_odd = Some [(16, XRP_READ)]"
    by (simp add: entries_def get_group_def world_odd_def group_entries_def)
  show "host_bufs 17 (world_odd, m) = [16]" for m by (simp add: host_bufs_def e)
  have "read_mem memory_pair 0x2000 8 = Some (replicate 8 7)" by code_simp
  then have "memory_ok (\<lambda>b. storage b world_odd) [16] memory_pair" by (simp add: memory_ok_def st)
  then show "host_good 17 {#18#} 4 {#} (world_odd, memory_pair)"
    using ok refs e by (simp add: host_good_def host_bufs_def room_def)
qed

theorem v1_handler_leaks_witness:
  "\<exists>answer s'. example_v1_handler (host_api 17) [4, 0, 0, 0] [] (world_odd, memory_pair) =
      Some ((XRP_STATUS_FAILURE, answer), s') \<and> host_good 17 {#18#} 0 {#16#} s'"
proof -
  have sz: "command_size [4, 0, 0, 0] = 4" by (simp add: command_size_def get32_def)
  show ?thesis
    using v1_handler_leaks [OF host.buffer_group_api_axioms, of 17 "{#18#}" "(world_odd, memory_pair)" "{#}" "[4, 0, 0, 0]" "[]"]
      world_odd_facts(1)
    by (simp add: world_odd_facts(2,3) sz readable_def writable_def host_mappable_iff)
qed

end
