(* ===== verification/Dsp_Commands.thy ===== *)
theory Dsp_Commands
  imports Namespace
begin

text \<open>
  The start of the DSP example, \<open>dsp_test_register\<close> of \<open>xrp-example/src/dsp_test.c\<close>, on the namespace table,
  and its version 2 handler with the thread that waits in it.
\<close>

section \<open>Registration\<close>

text \<open>The ids of \<open>example_namespace.h\<close> are arrays of 16 bytes.\<close>

definition XRP_EXAMPLE_V1_NSID :: bytes where
  "XRP_EXAMPLE_V1_NSID = [0x76, 0x31, 0x20, 0x63, 0x6d, 0x64] @ replicate 10 0"

definition XRP_EXAMPLE_V2_NSID :: bytes where
  "XRP_EXAMPLE_V2_NSID = [0x76, 0x32, 0x20, 0x63, 0x6d, 0x64] @ replicate 10 0"

text \<open>
  The device calls are arguments, as for \<open>test_ns\<close>; \<open>opened\<close> is whether \<open>xrp_open_device\<close> succeeded,
  \<open>h1\<close> and \<open>h2\<close> are the addresses of the two handlers. The result is whether the constructor returns;
  otherwise it calls \<open>abort\<close>.
\<close>

definition register_examples ::
  "bytes \<Rightarrow> bytes \<Rightarrow> bool \<Rightarrow> ('m \<Rightarrow> bytes \<Rightarrow> ptr \<times> ptr \<Rightarrow> ('m \<times> int) option) \<Rightarrow> ('m \<Rightarrow> bytes \<Rightarrow> ('m \<times> int) option) \<Rightarrow>
   ptr \<Rightarrow> ptr \<Rightarrow> bytes list \<Rightarrow> 'm \<Rightarrow> (bool \<times> 'm) option" where
  "register_examples v1 v2 opened reg unreg h1 h2 test_nsid m =
     (if \<not> opened then Some (False, m)
      else do {
        (m1, status) \<leftarrow> test_ns (\<lambda>m k. reg m k (None, None)) unreg m test_nsid;
        (if status \<noteq> XRP_STATUS_SUCCESS then Some (False, m1)
         else do {
           (m2, r1) \<leftarrow> reg m1 v1 (h1, None);
           (if r1 = 0 then Some (False, m2)
            else do {
              (m3, r2) \<leftarrow> reg m2 v2 (h2, None);
              Some (r2 \<noteq> 0, m3)
            })
         })
      })"

definition dsp_test_register ::
  "bool \<Rightarrow> ('m \<Rightarrow> bytes \<Rightarrow> ptr \<times> ptr \<Rightarrow> ('m \<times> int) option) \<Rightarrow> ('m \<Rightarrow> bytes \<Rightarrow> ('m \<times> int) option) \<Rightarrow>
   ptr \<Rightarrow> ptr \<Rightarrow> bytes list \<Rightarrow> 'm \<Rightarrow> (bool \<times> 'm) option" where
  "dsp_test_register = register_examples XRP_EXAMPLE_V1_NSID XRP_EXAMPLE_V2_NSID"

text \<open>The calls of \<open>xrp_ns.c\<close>, with memory to grow the table.\<close>

abbreviation ns_reg :: "xrp_cmd_ns_map \<Rightarrow> bytes \<Rightarrow> ptr \<times> ptr \<Rightarrow> (xrp_cmd_ns_map \<times> int) option" where
  "ns_reg m k v \<equiv> xrp_register_namespace True m k (fst v) (snd v)"

context ns_registry begin

lemma register_two:
  assumes "invar m" and "\<forall>k \<in> set ks. valid k \<and> k \<notin> dom (lookup m)" and "distinct ks"
    and "valid v1" "valid v2" "v1 \<noteq> v2" "v1 \<notin> dom (lookup m)" "v2 \<notin> dom (lookup m)"
  shows "\<exists>m1 m2 m3. test_ns (\<lambda>m k. reg True m k v) unreg m ks = Some (m1, XRP_STATUS_SUCCESS) \<and>
    reg True m1 v1 x1 = Some (m2, 1) \<and> reg True m2 v2 x2 = Some (m3, 1) \<and>
    invar m3 \<and> lookup m3 = (lookup m)(v1 \<mapsto> x1, v2 \<mapsto> x2)"
proof -
  obtain m1 where m1: "test_ns (\<lambda>m k. reg True m k v) unreg m ks = Some (m1, XRP_STATUS_SUCCESS)" "invar m1" "lookup m1 = lookup m"
    using test_ns_restores [OF assms(1-3)] by blast
  obtain m2 where m2: "reg True m1 v1 x1 = Some (m2, 1)" "invar m2" "lookup m2 = (lookup m)(v1 \<mapsto> x1)"
    using reg_new [of m1 v1 x1] m1 assms by auto
  obtain m3 where "reg True m2 v2 x2 = Some (m3, 1)" "invar m3" "lookup m3 = (lookup m2)(v2 \<mapsto> x2)"
    using reg_new [of m2 v2 x2] m2 assms by auto
  with m1 m2 show ?thesis by auto
qed

end

text \<open>A registration reads 32 bytes of the id: with a shorter one it is undefined.\<close>

lemma memcmp_short: "length xs < n \<Longrightarrow> memcmp xs ys n \<noteq> Some 0"
  by (induction xs ys n rule: memcmp.induct) auto

lemma register_short: "length nsid < XRP_NAMESPACE_ID_SIZE \<Longrightarrow> xrp_register_namespace True m nsid h c = None"
proof (cases "xrp_find_cmd_ns m nsid")
  case (Some p)
  assume short: "length nsid < XRP_NAMESPACE_ID_SIZE"
  then have "ns_found m nsid p \<noteq> Some True"
    using memcmp_short [OF short] by (auto simp: ns_found_def xrp_cmd_ns_match_def compare_cmd_ns_def bind_eq_Some_conv)
  moreover have "memcpy_at (replicate XRP_NAMESPACE_ID_SIZE 0) 0 nsid XRP_NAMESPACE_ID_SIZE = None"
    using short by (simp add: memcpy_at_def)
  ultimately show ?thesis using Some
    by (cases "ns_found m nsid p") (auto simp: xrp_register_namespace_def insert_cmd_ns_def Let_def split: bind_splits)
qed (simp add: xrp_register_namespace_def)

text \<open>
  C37. The constructor of the DSP example on a table of \<open>xrp_ns.c\<close> with memory to grow: after \<open>test_ns\<close> has
  left the table as it was, registering the first example handler is undefined, since its id has 16
  bytes and 32 are read. With ids of 32 bytes the constructor registers both handlers and returns, and
  all other bindings are as before.
\<close>

theorem dsp_test_register_correct:
  assumes "ns_ok m" and "distinct test_nsid"
    and "\<forall>k \<in> set test_nsid. length k = XRP_NAMESPACE_ID_SIZE \<and> k \<notin> dom (ns_lookup m)"
    and "length v1 = XRP_NAMESPACE_ID_SIZE" "length v2 = XRP_NAMESPACE_ID_SIZE" "v1 \<noteq> v2"
    and "v1 \<notin> dom (ns_lookup m)" "v2 \<notin> dom (ns_lookup m)"
  shows "dsp_test_register True ns_reg xrp_unregister_namespace h1 h2 test_nsid m = None \<and>
    (\<exists>m'. register_examples v1 v2 True ns_reg xrp_unregister_namespace h1 h2 test_nsid m = Some (True, m') \<and>
          ns_ok m' \<and> ns_lookup m' = (ns_lookup m)(v1 \<mapsto> (h1, None), v2 \<mapsto> (h2, None)))"
  using xrp_ns.register_two [OF assms(1) assms(3) assms(2) assms(4-8), of "(None, None)" "(h1, None)" "(h2, None)"]
  by (auto simp: dsp_test_register_def register_examples_def register_short XRP_EXAMPLE_V1_NSID_def)

theorem dsp_test_register_correct_witness:
  "dsp_test_register True ns_reg xrp_unregister_namespace (Some 1) (Some 2) [replicate 32 9, replicate 32 4] ns_empty = None"
proof -
  have d: "distinct [replicate 32 (9 :: u8), replicate 32 4]" "replicate 32 (1 :: u8) \<noteq> replicate 32 2"
    by (simp_all add: replicate_eq_replicate)
  then show ?thesis
    using dsp_test_register_correct [OF ns_empty_ok(1) d(1), of "replicate 32 1" "replicate 32 2" "Some 1" "Some 2"]
    by (simp add: ns_empty_ok(2))
qed

section \<open>The version 2 handler\<close>

text \<open>
  The static variable \<open>c\<close> of the handler is an argument and part of the result. With threads
  (\<open>HAVE_THREADS_XOS\<close>) the long command does not return at once: \<open>V2_waits\<close>.
\<close>

datatype v2_outcome = V2_returns xrp_status bytes int | V2_waits int

definition EXAMPLE_V2_CMD_OK :: u32 where "EXAMPLE_V2_CMD_OK = 0"
definition EXAMPLE_V2_CMD_FAIL :: u32 where "EXAMPLE_V2_CMD_FAIL = 1"
definition EXAMPLE_V2_CMD_LONG :: u32 where "EXAMPLE_V2_CMD_LONG = 2"
definition EXAMPLE_V2_CMD_SHORT :: u32 where "EXAMPLE_V2_CMD_SHORT = 3"

definition example_v2_handler :: "bool \<Rightarrow> bytes \<Rightarrow> bytes \<Rightarrow> int \<Rightarrow> v2_outcome option" where
  "example_v2_handler threads in_data out_data c =
     (if length in_data < 4 then Some (V2_returns XRP_STATUS_FAILURE out_data c)
      else let cmd = get32 in_data 0 in
        if cmd = EXAMPLE_V2_CMD_OK then Some (V2_returns XRP_STATUS_SUCCESS out_data c)
        else if cmd = EXAMPLE_V2_CMD_FAIL then Some (V2_returns XRP_STATUS_FAILURE out_data c)
        else if cmd = EXAMPLE_V2_CMD_LONG then
          Some (if threads then V2_waits 1 else V2_returns XRP_STATUS_SUCCESS out_data 1)
        else if cmd = EXAMPLE_V2_CMD_SHORT then do {
          out \<leftarrow> memcpy_at out_data 0 (put32 (word_of_int c)) 4;
          Some (V2_returns XRP_STATUS_SUCCESS out (if threads \<and> c \<noteq> 0 then 2 else c))
        }
        else Some (V2_returns XRP_STATUS_FAILURE out_data c))"

text \<open>
  The use of \<open>host_main.c\<close> (\<open>f8\<close>): one thread runs a long command, and threads of a higher priority run
  others, each to its end. The waiting thread leaves its loop when it sees \<open>c \<noteq> 1\<close>, and then clears \<open>c\<close>.
  \<open>shorts\<close> is the list of the answers to short commands.
\<close>

datatype long_state = L_idle | L_loop | L_left | L_returned

record v2_state =
  v2_c :: int
  long :: long_state
  shorts :: "u32 list"

inductive v2_step :: "v2_state \<Rightarrow> v2_state \<Rightarrow> bool" where
  long_begin: "long s = L_idle \<Longrightarrow> 4 \<le> length inp \<Longrightarrow> get32 inp 0 = EXAMPLE_V2_CMD_LONG \<Longrightarrow>
    example_v2_handler True inp out (v2_c s) = Some (V2_waits c) \<Longrightarrow>
    v2_step s (s\<lparr>v2_c := c, long := L_loop\<rparr>)"
| long_exit: "long s = L_loop \<Longrightarrow> v2_c s \<noteq> 1 \<Longrightarrow> v2_step s (s\<lparr>long := L_left\<rparr>)"
| long_end: "long s = L_left \<Longrightarrow> v2_step s (s\<lparr>v2_c := 0, long := L_returned\<rparr>)"
| short: "4 \<le> length inp \<Longrightarrow> get32 inp 0 = EXAMPLE_V2_CMD_SHORT \<Longrightarrow>
    example_v2_handler True inp out (v2_c s) = Some (V2_returns st out' c) \<Longrightarrow>
    v2_step s (s\<lparr>v2_c := c, shorts := shorts s @ [get32 out' 0]\<rparr>)"
| other: "get32 inp 0 \<noteq> EXAMPLE_V2_CMD_LONG \<Longrightarrow> get32 inp 0 \<noteq> EXAMPLE_V2_CMD_SHORT \<Longrightarrow>
    example_v2_handler True inp out (v2_c s) = Some (V2_returns st out' c) \<Longrightarrow> v2_step s (s\<lparr>v2_c := c\<rparr>)"

inductive v2_run :: "v2_state \<Rightarrow> bool" where
  v2_start: "v2_run \<lparr>v2_c = 0, long = L_idle, shorts = []\<rparr>"
| v2_next: "v2_run s \<Longrightarrow> v2_step s s' \<Longrightarrow> v2_run s'"

text \<open>How many answers have been 1, in each phase.\<close>

definition ones :: "v2_state \<Rightarrow> nat" where
  "ones s = count (mset (shorts s)) 1"

definition v2_inv :: "v2_state \<Rightarrow> bool" where
  "v2_inv s \<longleftrightarrow> (case long s of
       L_idle \<Rightarrow> v2_c s = 0 \<and> ones s = 0
     | L_loop \<Rightarrow> v2_c s = 1 \<and> ones s = 0 \<or> v2_c s = 2 \<and> ones s = 1
     | L_left \<Rightarrow> v2_c s = 2 \<and> ones s = 1
     | L_returned \<Rightarrow> v2_c s = 0 \<and> ones s = 1)"

lemma get32_answer: "length out \<ge> 4 \<Longrightarrow> get32 (put32 x @ drop 4 out) 0 = x"
  by simp

lemma v2_short_result:
  assumes "4 \<le> length inp" and "get32 inp 0 = EXAMPLE_V2_CMD_SHORT"
    and "example_v2_handler True inp out c = Some (V2_returns st out' c')"
  shows "get32 out' 0 = word_of_int c" and "c' = (if c = 0 then 0 else 2)" and "st = XRP_STATUS_SUCCESS"
  using assms by (auto simp: example_v2_handler_def EXAMPLE_V2_CMD_OK_def EXAMPLE_V2_CMD_FAIL_def
      EXAMPLE_V2_CMD_LONG_def EXAMPLE_V2_CMD_SHORT_def memcpy_at_def bind_eq_Some_conv split: if_splits)

lemma v2_other_result:
  assumes "get32 inp 0 \<noteq> EXAMPLE_V2_CMD_LONG" and "get32 inp 0 \<noteq> EXAMPLE_V2_CMD_SHORT"
    and "example_v2_handler True inp out c = Some (V2_returns st out' c')"
  shows "c' = c"
  using assms by (auto simp: example_v2_handler_def Let_def split: if_splits)

lemma v2_long_result:
  "4 \<le> length inp \<Longrightarrow> get32 inp 0 = EXAMPLE_V2_CMD_LONG \<Longrightarrow> example_v2_handler True inp out c = Some (V2_waits 1)"
  by (simp add: example_v2_handler_def EXAMPLE_V2_CMD_OK_def EXAMPLE_V2_CMD_FAIL_def EXAMPLE_V2_CMD_LONG_def)

lemma v2_step_inv: "v2_step s s' \<Longrightarrow> v2_inv s \<Longrightarrow> v2_inv s'"
proof (induction rule: v2_step.induct)
  case (long_begin s inp out c)
  then show ?case using v2_long_result [of inp out "v2_c s"] by (auto simp: ones_def v2_inv_def)
next
  case (short inp s out st out' c)
  note r = v2_short_result [OF short.hyps]
  show ?case using short.prems by (auto simp: r ones_def v2_inv_def split: long_state.splits)
next
  case (other inp out s st out' c)
  then show ?case using v2_other_result [OF other.hyps] by (simp add: ones_def v2_inv_def)
qed (auto simp: ones_def v2_inv_def split: long_state.splits)

lemma v2_run_inv: "v2_run s \<Longrightarrow> v2_inv s"
  by (induction rule: v2_run.induct) (auto simp: ones_def v2_inv_def [of "\<lparr>v2_c = 0, long = L_idle, shorts = []\<rparr>"] intro: v2_step_inv)

lemma v2_undefined:
  "example_v2_handler threads inp out c = None \<longleftrightarrow>
     4 \<le> length inp \<and> get32 inp 0 = EXAMPLE_V2_CMD_SHORT \<and> length out < 4"
  by (auto simp: example_v2_handler_def EXAMPLE_V2_CMD_OK_def EXAMPLE_V2_CMD_FAIL_def
      EXAMPLE_V2_CMD_LONG_def EXAMPLE_V2_CMD_SHORT_def memcpy_at_def Let_def)

text \<open>
  The version 2 handler while one long command is running: at most one short command answers 1, and the
  long command returns only after one did, with \<open>c\<close> cleared. A short command with room for its answer
  returns; it answers 1 exactly when the long command is waiting and has not been released, and it
  releases it. The handler is undefined exactly for a short command whose output has fewer than 4
  bytes, since the size of the output is not tested.
\<close>

theorem v2_long_released:
  assumes "v2_run s"
  shows "ones s \<le> 1 \<and> (long s = L_returned \<longrightarrow> ones s = 1 \<and> v2_c s = 0) \<and>
    (\<forall>inp out. 4 \<le> length inp \<longrightarrow> get32 inp 0 = EXAMPLE_V2_CMD_SHORT \<longrightarrow>
       (if length out < 4 then example_v2_handler True inp out (v2_c s) = None
        else \<exists>out' c. example_v2_handler True inp out (v2_c s) = Some (V2_returns XRP_STATUS_SUCCESS out' c) \<and>
               (get32 out' 0 = 1 \<longleftrightarrow> long s = L_loop \<and> ones s = 0) \<and> (long s = L_loop \<longrightarrow> c \<noteq> 1)))"
proof -
  have inv: "v2_inv s" using assms by (rule v2_run_inv)
  have "\<exists>out' c. example_v2_handler True inp out (v2_c s) = Some (V2_returns XRP_STATUS_SUCCESS out' c) \<and>
      (get32 out' 0 = 1 \<longleftrightarrow> long s = L_loop \<and> ones s = 0) \<and> (long s = L_loop \<longrightarrow> c \<noteq> 1)"
    if cmd: "4 \<le> length inp" "get32 inp 0 = EXAMPLE_V2_CMD_SHORT" and out: "\<not> length out < 4" for inp out
  proof -
    have "example_v2_handler True inp out (v2_c s) =
        Some (V2_returns XRP_STATUS_SUCCESS (put32 (word_of_int (v2_c s)) @ drop 4 out) (if v2_c s \<noteq> 0 then 2 else v2_c s))"
      using cmd out by (simp add: example_v2_handler_def EXAMPLE_V2_CMD_OK_def EXAMPLE_V2_CMD_FAIL_def
          EXAMPLE_V2_CMD_LONG_def EXAMPLE_V2_CMD_SHORT_def memcpy_at_def)
    then show ?thesis using inv by (auto simp: v2_inv_def split: long_state.splits)
  qed
  moreover have "ones s \<le> 1 \<and> (long s = L_returned \<longrightarrow> ones s = 1 \<and> v2_c s = 0)"
    using inv by (auto simp: v2_inv_def split: long_state.splits)
  ultimately show ?thesis using v2_undefined by auto
qed

theorem v2_long_released_witness:
  "\<exists>out' c. example_v2_handler True [3, 0, 0, 0] [0, 0, 0, 0] 1 = Some (V2_returns XRP_STATUS_SUCCESS out' c) \<and>
     get32 out' 0 = 1 \<and> c \<noteq> 1"
proof -
  let ?s = "\<lparr>v2_c = 1, long = L_loop, shorts = []\<rparr>"
  have "v2_step \<lparr>v2_c = 0, long = L_idle, shorts = []\<rparr> ?s"
    using long_begin [of "\<lparr>v2_c = 0, long = L_idle, shorts = []\<rparr>" "[2, 0, 0, 0]" "[]" 1]
    by (simp add: v2_long_result get32_def EXAMPLE_V2_CMD_LONG_def)
  then have "v2_run ?s" using v2_next [OF v2_start] by blast
  note r = v2_long_released [OF this, THEN conjunct2, THEN conjunct2, THEN spec, of "[3, 0, 0, 0]", THEN spec, of "[0, 0, 0, 0]"]
  have "get32 [3, 0, 0, 0] 0 = EXAMPLE_V2_CMD_SHORT" by (simp add: get32_def EXAMPLE_V2_CMD_SHORT_def)
  with r show ?thesis by (auto simp: ones_def)
qed

end
