(* ===== verification/Xrp_Interface.thy ===== *)
theory Xrp_Interface
  imports Command_Run
begin

text \<open>
  \<open>vdsp-interface/xrp_interface.c\<close>: the XRP API under the names exported to clients. Every function
  forwards to the API function of its name, in the configuration with \<open>USE_SPRD_MODE\<close>.
\<close>

section \<open>Devices and buffers\<close>

definition sprd_xrp_open_device :: "world \<Rightarrow> ((ptr \<times> xrp_status) \<times> world) option" where
  "sprd_xrp_open_device = xrp_open_device XRP_OPEN_NORMAL_TYPE"

definition sprd_xrp_open_device_direct :: "int \<Rightarrow> world \<Rightarrow> ((ptr \<times> xrp_status) \<times> world) option" where
  "sprd_xrp_open_device_direct idx = xrp_open_device_newmode idx XRP_OPEN_NORMAL_TYPE"

definition sprd_xrp_retain_device :: "addr \<Rightarrow> world \<Rightarrow> world option" where
  "sprd_xrp_retain_device = xrp_retain_device"

definition sprd_xrp_release_device :: "addr \<Rightarrow> world \<Rightarrow> world option" where
  "sprd_xrp_release_device = xrp_release_device"

definition sprd_xrp_create_buffer :: "ptr \<Rightarrow> u64 \<Rightarrow> u64 \<Rightarrow> int \<Rightarrow> world \<Rightarrow> ((ptr \<times> xrp_status) \<times> world) option" where
  "sprd_xrp_create_buffer = xrp_create_buffer"

definition sprd_xrp_retain_buffer :: "addr \<Rightarrow> world \<Rightarrow> world option" where
  "sprd_xrp_retain_buffer = xrp_retain_buffer"

definition sprd_xrp_release_buffer :: "addr \<Rightarrow> world \<Rightarrow> world option" where
  "sprd_xrp_release_buffer = xrp_release_buffer"

definition sprd_xrp_map_buffer ::
    "addr \<Rightarrow> u64 \<Rightarrow> u64 \<Rightarrow> xrp_access_flags \<Rightarrow> world \<Rightarrow> ((u64 \<times> xrp_status) \<times> world) option" where
  "sprd_xrp_map_buffer = xrp_map_buffer"

definition sprd_xrp_unmap_buffer :: "addr \<Rightarrow> u64 \<Rightarrow> world \<Rightarrow> (xrp_status \<times> world) option" where
  "sprd_xrp_unmap_buffer = xrp_unmap_buffer"

definition sprd_xrp_buffer_get_info ::
    "addr \<Rightarrow> xrp_buffer_info \<Rightarrow> u64 \<Rightarrow> world \<Rightarrow> (u64 option \<times> xrp_status) option" where
  "sprd_xrp_buffer_get_info = xrp_buffer_get_info"

definition sprd_xrp_set_apptr :: "addr \<Rightarrow> u64 \<Rightarrow> world \<Rightarrow> world option" where
  "sprd_xrp_set_apptr buffer apptr w =
     (if apptr \<noteq> 0 then update_buffer buffer (\<lambda>b. b\<lparr>buf_apptr := apptr\<rparr>) w else Some w)"

section \<open>Groups\<close>

definition sprd_xrp_create_buffer_group :: "world \<Rightarrow> (ptr \<times> xrp_status) \<times> world" where
  "sprd_xrp_create_buffer_group = xrp_create_buffer_group"

definition sprd_xrp_retain_buffer_group :: "addr \<Rightarrow> world \<Rightarrow> world option" where
  "sprd_xrp_retain_buffer_group = xrp_retain_buffer_group"

definition sprd_xrp_release_buffer_group :: "addr \<Rightarrow> world \<Rightarrow> world option" where
  "sprd_xrp_release_buffer_group = xrp_release_buffer_group"

definition sprd_xrp_add_buffer_to_group ::
    "addr \<Rightarrow> addr \<Rightarrow> xrp_access_flags \<Rightarrow> world \<Rightarrow> ((u64 \<times> xrp_status) \<times> world) option" where
  "sprd_xrp_add_buffer_to_group = xrp_add_buffer_to_group"

definition sprd_xrp_set_buffer_in_group ::
    "addr \<Rightarrow> nat \<Rightarrow> addr \<Rightarrow> xrp_access_flags \<Rightarrow> world \<Rightarrow> (xrp_status \<times> world) option" where
  "sprd_xrp_set_buffer_in_group = xrp_set_buffer_in_group"

definition sprd_xrp_get_buffer_from_group ::
    "addr \<Rightarrow> nat \<Rightarrow> world \<Rightarrow> ((ptr \<times> xrp_status) \<times> world) option" where
  "sprd_xrp_get_buffer_from_group = xrp_get_buffer_from_group"

definition sprd_xrp_buffer_group_get_info ::
    "addr \<Rightarrow> xrp_buffer_group_info \<Rightarrow> nat \<Rightarrow> u64 \<Rightarrow> world \<Rightarrow> (group_info_value option \<times> xrp_status) option" where
  "sprd_xrp_buffer_group_get_info = xrp_buffer_group_get_info"

section \<open>Queues, commands and events\<close>

definition sprd_xrp_create_queue :: "addr \<Rightarrow> world \<Rightarrow> ((ptr \<times> xrp_status) \<times> world) option" where
  "sprd_xrp_create_queue = xrp_create_queue"

definition sprd_xrp_create_ns_queue :: "addr \<Rightarrow> bytes option \<Rightarrow> world \<Rightarrow> ((ptr \<times> xrp_status) \<times> world) option" where
  "sprd_xrp_create_ns_queue = xrp_create_ns_queue"

definition sprd_xrp_create_nsp_queue ::
    "addr \<Rightarrow> bytes option \<Rightarrow> int \<Rightarrow> world \<Rightarrow> ((ptr \<times> xrp_status) \<times> world) option" where
  "sprd_xrp_create_nsp_queue = xrp_create_nsp_queue"

definition sprd_xrp_retain_queue :: "addr \<Rightarrow> world \<Rightarrow> world option" where
  "sprd_xrp_retain_queue = xrp_retain_queue"

definition sprd_xrp_release_queue :: "addr \<Rightarrow> world \<Rightarrow> world option" where
  "sprd_xrp_release_queue = xrp_release_queue"

definition sprd_xrp_retain_event :: "addr \<Rightarrow> world \<Rightarrow> world option" where
  "sprd_xrp_retain_event = xrp_retain_event"

definition sprd_xrp_release_event :: "addr \<Rightarrow> world \<Rightarrow> world option" where
  "sprd_xrp_release_event = xrp_release_event"

definition sprd_xrp_event_status :: "addr \<Rightarrow> world \<Rightarrow> xrp_status option" where
  "sprd_xrp_event_status = xrp_event_status"

definition sprd_xrp_run_command_sync ::
    "addr \<Rightarrow> bytes option \<Rightarrow> int \<Rightarrow> u64 \<Rightarrow> hptr \<Rightarrow> int \<Rightarrow> u64 \<Rightarrow> ptr \<Rightarrow> world \<Rightarrow> (xrp_status \<times> world) option" where
  "sprd_xrp_run_command_sync = xrp_run_command_sync"

definition sprd_xrp_enqueue_command ::
    "addr \<Rightarrow> bytes option \<Rightarrow> int \<Rightarrow> u64 \<Rightarrow> hptr \<Rightarrow> int \<Rightarrow> u64 \<Rightarrow> ptr \<Rightarrow> bool \<Rightarrow> world \<Rightarrow>
     ((ptr \<times> xrp_status) \<times> world) option" where
  "sprd_xrp_enqueue_command = xrp_enqueue_command"

definition sprd_xrp_wait :: "nat \<Rightarrow> addr \<Rightarrow> world \<Rightarrow> world option" where
  "sprd_xrp_wait = xrp_wait"

text \<open>What the clients of the wrappers unfold.\<close>

lemmas sprd_xrp_defs =
  sprd_xrp_open_device_def
  sprd_xrp_open_device_direct_def
  sprd_xrp_retain_device_def
  sprd_xrp_release_device_def
  sprd_xrp_create_buffer_def
  sprd_xrp_retain_buffer_def
  sprd_xrp_release_buffer_def
  sprd_xrp_map_buffer_def
  sprd_xrp_unmap_buffer_def
  sprd_xrp_buffer_get_info_def
  sprd_xrp_create_buffer_group_def
  sprd_xrp_retain_buffer_group_def
  sprd_xrp_release_buffer_group_def
  sprd_xrp_add_buffer_to_group_def
  sprd_xrp_set_buffer_in_group_def
  sprd_xrp_get_buffer_from_group_def
  sprd_xrp_buffer_group_get_info_def
  sprd_xrp_create_queue_def
  sprd_xrp_create_ns_queue_def
  sprd_xrp_create_nsp_queue_def
  sprd_xrp_retain_queue_def
  sprd_xrp_release_queue_def
  sprd_xrp_retain_event_def
  sprd_xrp_release_event_def
  sprd_xrp_event_status_def
  sprd_xrp_run_command_sync_def
  sprd_xrp_enqueue_command_def
  sprd_xrp_wait_def

end
