(* ===== verification/Api_Tests.thy ===== *)
theory Api_Tests
  imports Xrp_Interface Dsp_Commands
begin

text \<open>
  Tests of the API in \<open>xrp-example/src/host_main.c\<close> that do not depend on what the DSP computes: \<open>f4\<close>
  (replacing buffers of a group), \<open>f5\<close> (information about buffers and groups), \<open>f6\<close> (a queue without
  namespace) and \<open>f7\<close> (commands that fail). The result is the list of the values given to \<open>assert_1\<close>,
  in order; \<open>assert_1\<close> only prints.
\<close>

section \<open>The tests\<close>

definition f4 :: "world \<Rightarrow> (bool list \<times> world) option" where
  "f4 w = do {
     ((device, s1), w1) \<leftarrow> sprd_xrp_open_device w;
     d \<leftarrow> device;
     ((queue, s2), w2) \<leftarrow> sprd_xrp_create_ns_queue d (Some XRP_EXAMPLE_V1_NSID) w1;
     let ((grp, s3), w3) = sprd_xrp_create_buffer_group w2;
     ((buf1, s4), w4) \<leftarrow> sprd_xrp_create_buffer device 1 0 (- 1) w3;
     ((buf2, s5), w5) \<leftarrow> sprd_xrp_create_buffer device 1 0 (- 1) w4;
     g \<leftarrow> grp; b1 \<leftarrow> buf1; b2 \<leftarrow> buf2;
     ((i, s6), w6) \<leftarrow> sprd_xrp_add_buffer_to_group g b1 XRP_READ w5;
     (s7, w7) \<leftarrow> sprd_xrp_set_buffer_in_group g (unat i) b2 XRP_READ w6;
     (s8, w8) \<leftarrow> sprd_xrp_set_buffer_in_group g (unat (i + 1)) b2 XRP_READ w7;
     ((buf3, s9), w9) \<leftarrow> sprd_xrp_get_buffer_from_group g (unat i) w8;
     w10 \<leftarrow> sprd_xrp_release_buffer b1 w9;
     w11 \<leftarrow> sprd_xrp_release_buffer b2 w10;
     b3 \<leftarrow> buf3;
     w12 \<leftarrow> sprd_xrp_release_buffer b3 w11;
     w13 \<leftarrow> sprd_xrp_release_buffer_group g w12;
     q \<leftarrow> queue;
     w14 \<leftarrow> sprd_xrp_release_queue q w13;
     w15 \<leftarrow> sprd_xrp_release_device d w14;
     Some ([s1 = XRP_STATUS_SUCCESS, s2 = XRP_STATUS_SUCCESS, s3 = XRP_STATUS_SUCCESS, s4 = XRP_STATUS_SUCCESS,
            s5 = XRP_STATUS_SUCCESS, s6 = XRP_STATUS_SUCCESS, s7 = XRP_STATUS_SUCCESS, s8 = XRP_STATUS_FAILURE,
            s9 = XRP_STATUS_SUCCESS, buf3 = buf2], w15)
   }"

text \<open>\<open>f5\<close> creates its second buffer for its variable \<open>i\<close>, whose address is the argument.\<close>

definition f5 :: "u64 \<Rightarrow> world \<Rightarrow> (bool list \<times> world) option" where
  "f5 i_addr w = do {
     ((device, s1), w1) \<leftarrow> sprd_xrp_open_device w;
     d \<leftarrow> device;
     ((queue, s2), w2) \<leftarrow> sprd_xrp_create_ns_queue d (Some XRP_EXAMPLE_V1_NSID) w1;
     let ((grp, s3), w3) = sprd_xrp_create_buffer_group w2;
     ((buf1, s4), w4) \<leftarrow> sprd_xrp_create_buffer device 1 0 (- 1) w3;
     ((buf2, s5), w5) \<leftarrow> sprd_xrp_create_buffer device 8 i_addr (- 1) w4;
     g \<leftarrow> grp; b1 \<leftarrow> buf1; b2 \<leftarrow> buf2;
     ((i, s6), w6) \<leftarrow> sprd_xrp_add_buffer_to_group g b1 XRP_READ w5;
     (sz, s7) \<leftarrow> sprd_xrp_buffer_get_info b1 XRP_BUFFER_SIZE_SIZE_T 8 w6;
     (ptr1, s8) \<leftarrow> sprd_xrp_buffer_get_info b1 XRP_BUFFER_HOST_POINTER_PTR 8 w6;
     (ptr2, s9) \<leftarrow> sprd_xrp_buffer_get_info b2 XRP_BUFFER_HOST_POINTER_PTR 8 w6;
     (flags, s10) \<leftarrow> sprd_xrp_buffer_group_get_info g XRP_BUFFER_GROUP_BUFFER_FLAGS_ENUM (unat i) 4 w6;
     (sz2, s11) \<leftarrow> sprd_xrp_buffer_group_get_info g XRP_BUFFER_GROUP_SIZE_SIZE_T 0 8 w6;
     w7 \<leftarrow> sprd_xrp_release_buffer b1 w6;
     w8 \<leftarrow> sprd_xrp_release_buffer b2 w7;
     w9 \<leftarrow> sprd_xrp_release_buffer_group g w8;
     q \<leftarrow> queue;
     w10 \<leftarrow> sprd_xrp_release_queue q w9;
     w11 \<leftarrow> sprd_xrp_release_device d w10;
     Some ([s1 = XRP_STATUS_SUCCESS, s2 = XRP_STATUS_SUCCESS, s3 = XRP_STATUS_SUCCESS, s4 = XRP_STATUS_SUCCESS,
            s5 = XRP_STATUS_SUCCESS, s6 = XRP_STATUS_SUCCESS, s7 = XRP_STATUS_SUCCESS, sz = Some 1,
            s8 = XRP_STATUS_SUCCESS, ptr1 = Some 0, s9 = XRP_STATUS_SUCCESS, ptr2 = Some i_addr,
            s10 = XRP_STATUS_SUCCESS, flags = Some (Flags_out XRP_READ),
            s11 = XRP_STATUS_SUCCESS, sz2 = Some (Size_out 1)], w11)
   }"

definition f6 :: "world \<Rightarrow> (bool list \<times> world) option" where
  "f6 w = do {
     ((device, s1), w1) \<leftarrow> sprd_xrp_open_device w;
     d \<leftarrow> device;
     ((queue, s2), w2) \<leftarrow> sprd_xrp_create_queue d w1;
     q \<leftarrow> queue;
     (s3, w3) \<leftarrow> sprd_xrp_run_command_sync q None (- 1) 0 H_Null (- 1) 0 None w2;
     w4 \<leftarrow> sprd_xrp_release_queue q w3;
     w5 \<leftarrow> sprd_xrp_release_device d w4;
     Some ([s1 = XRP_STATUS_SUCCESS, s2 = XRP_STATUS_SUCCESS, s3 = XRP_STATUS_SUCCESS], w5)
   }"

definition f7 :: "world \<Rightarrow> (bool list \<times> world) option" where
  "f7 w = do {
     ((device, s1), w1) \<leftarrow> sprd_xrp_open_device w;
     d \<leftarrow> device;
     ((queue, s2), w2) \<leftarrow> sprd_xrp_create_ns_queue d (Some XRP_EXAMPLE_V2_NSID) w1;
     q \<leftarrow> queue;
     (s3, w3) \<leftarrow> sprd_xrp_run_command_sync q (Some (put32 EXAMPLE_V2_CMD_OK)) (- 1) 4 H_Null (- 1) 0 None w2;
     (s4, w4) \<leftarrow> sprd_xrp_run_command_sync q (Some (put32 EXAMPLE_V2_CMD_FAIL)) (- 1) 4 H_Null (- 1) 0 None w3;
     w5 \<leftarrow> sprd_xrp_release_queue q w4;
     w6 \<leftarrow> sprd_xrp_release_device d w5;
     Some ([s1 = XRP_STATUS_SUCCESS, s2 = XRP_STATUS_SUCCESS, s3 = XRP_STATUS_SUCCESS, s4 = XRP_STATUS_FAILURE], w6)
   }"

section \<open>What a test holds\<close>

text \<open>An environment in which memory, ion and the service grant every request.\<close>

definition serves :: "environment \<Rightarrow> bool" where
  "serves e \<longleftrightarrow> (\<forall>n. malloc_ok e n \<and> ion_mem e n \<noteq> None \<and> cavdsp_handle e n \<noteq> None)"

text \<open>
  \<open>holds_refs w0 w L n\<close>: after \<open>w0\<close> the test has reached \<open>w\<close>, holds the references \<open>L\<close>, each with the kind of
  its object, and may take \<open>n\<close> more.
\<close>

definition holds_refs :: "world \<Rightarrow> world \<Rightarrow> (addr \<times> kind) multiset \<Rightarrow> nat \<Rightarrow> bool" where
  "holds_refs w0 w L n \<longleftrightarrow> world_ok w (image_mset fst L) \<and> room w (image_mset fst L) n \<and> serves (env w) \<and>
     evolves {} w0 w \<and> (\<forall>(a, k) \<in># L. kinds w a = Some k)"

lemma holds_moves:
  assumes h: "holds_refs w0 w L (n + k)" and m: "moves k w (image_mset fst L) w' (image_mset fst L')"
    and new: "\<forall>(a, kd) \<in># L'. (a, kd) \<in># L \<or> kinds w' a = Some kd"
  shows "holds_refs w0 w' L' n"
proof -
  have ok: "world_ok w (image_mset fst L)" using h by (simp add: holds_refs_def)
  have "kinds w' a = Some kd" if "(a, kd) \<in># L'" "(a, kd) \<in># L" for a kd
  proof -
    have "a \<in># image_mset fst L" "a \<in># image_mset fst L'" using that by force+
    from moves_kind [OF m ok this] h that(2) show ?thesis by (auto simp: holds_refs_def)
  qed
  moreover have "evolves {} w0 w'" using h m evolves_trans by (auto simp: holds_refs_def moves_def)
  ultimately show ?thesis
    using moves_ok [OF m] moves_env [OF m] moves_room [OF m] h new by (auto simp: holds_refs_def)
qed

lemma holds_created:
  assumes h: "holds_refs w0 w L (n + k)" and c: "created k kd w (image_mset fst L) (Some a) s w'"
  shows "holds_refs w0 w' (add_mset (a, kd) L) n"
  using c by (intro holds_moves [OF h]) (auto simp: created_def)

lemma holds_dropped:
  assumes h: "holds_refs w0 w (add_mset (a, kd) L) n"
    and m: "moves 0 w (add_mset a (image_mset fst L)) w' (image_mset fst L)"
  shows "holds_refs w0 w' L n"
proof -
  have "holds_refs w0 w (add_mset (a, kd) L) (n + 0)" using h by simp
  then show ?thesis by (rule holds_moves) (use m in auto)
qed

lemma held_addr: "(a, kd) \<in># L \<Longrightarrow> a \<in># image_mset fst L"
  by (metis fst_conv image_eqI set_image_mset)

lemma holds_kind: "holds_refs w0 w L n \<Longrightarrow> (a, kd) \<in># L \<Longrightarrow> kinds w a = Some kd"
  by (auto simp: holds_refs_def)

lemma holds_ok: "holds_refs w0 w L n \<Longrightarrow> world_ok w (image_mset fst L)"
  by (simp add: holds_refs_def)

lemma holds_entries:
  assumes "holds_refs w0 w L n" and "holds_refs w0 w' L' n'" and "alters A w w'" and "g \<notin> A"
    and "(g, kd) \<in># L'" and "entries g w = Some vs"
  shows "entries g w' = Some vs"
  using assms(3,4) holds_ok [OF assms(1)] holds_ok [OF assms(2)] held_addr [OF assms(5)] assms(6) by (rule group_kept)

lemma holds_buffer:
  assumes "holds_refs w0 w L n" and "holds_refs w0 w' L' n'" and "alters A w w'" and "b \<notin> A"
    and "(b, kd) \<in># L'" and "get_buffer b w = Some buf"
  shows "get_buffer b w' = Some buf"
proof -
  have "b \<in># image_mset fst L' + heap_refs (heap w')" using held_addr [OF assms(5)] by simp
  from buffer_kept [OF assms(3,4) holds_ok [OF assms(1)] holds_ok [OF assms(2)] this assms(6)] show ?thesis .
qed

section \<open>The calls of the tests\<close>

lemma test_open:
  assumes "holds_refs w0 w L (Suc n)"
  obtains d w' where "sprd_xrp_open_device w = Some ((Some d, XRP_STATUS_SUCCESS), w')"
    and "holds_refs w0 w' (add_mset (d, K_Device) L) n"
proof -
  have ok: "world_ok w (image_mset fst L)" using assms by (simp add: holds_refs_def)
  obtain r s w' where o: "xrp_open_device XRP_OPEN_NORMAL_TYPE w = Some ((r, s), w')"
    "created 1 K_Device w (image_mset fst L) r s w'" using open_device_ok [OF ok] by blast
  have sv: "serves (env w)" using assms by (simp add: holds_refs_def)
  then obtain h where "cavdsp_handle (env w) (ticks w) = Some h" by (metis not_None_eq serves_def)
  with sv have "r \<noteq> None"
    using o(1) by (cases h) (auto simp: xrp_open_device_def ask_def serves_def alloc_refcounted_def Let_def bind_eq_Some_conv)
  then obtain d where "r = Some d" by blast
  with o have "sprd_xrp_open_device w = Some ((Some d, XRP_STATUS_SUCCESS), w')" by (auto simp: created_def sprd_xrp_defs)
  moreover have "holds_refs w0 w' (add_mset (d, K_Device) L) n"
    using holds_created [of w0 w L n 1] assms o(2) \<open>r = Some d\<close> by simp
  ultimately show thesis by (rule that)
qed

lemma test_queue:
  assumes h: "holds_refs w0 w L (n + 2)" and d: "(d, K_Device) \<in># L" and ns: "nsid_ok ns"
  obtains q w' where "sprd_xrp_create_ns_queue d ns w = Some ((Some q, XRP_STATUS_SUCCESS), w')"
    and "holds_refs w0 w' (add_mset (q, K_Queue) L) n" and "keeps w w'"
    and "get_queue q w' = Some \<lparr>q_device = Some d, use_nsid = (ns \<noteq> None), q_priority = 0,
           nsid = queue_nsid ns, pending = []\<rparr>"
proof -
  have "room w (image_mset fst L) 2" using h by (simp add: holds_refs_def room_def)
  from create_queue_ok [OF holds_ok [OF h] held_direct [OF held_addr [OF d]] holds_kind [OF h d] this ns, of 0]
  obtain r s w' where c: "xrp_create_nsp_queue d ns 0 w = Some ((r, s), w')"
    "created 2 K_Queue w (image_mset fst L) r s w'" "r = None \<longrightarrow> (\<exists>n. \<not> malloc_ok (env w) n)"
    "\<forall>a. r = Some a \<longrightarrow> get_queue a w' = Some \<lparr>q_device = Some d, use_nsid = (ns \<noteq> None), q_priority = 0,
       nsid = queue_nsid ns, pending = []\<rparr>" by blast
  moreover have "r \<noteq> None" using c(3) h by (auto simp: holds_refs_def serves_def)
  ultimately obtain q where "r = Some q" by blast
  with c holds_created [OF h] show thesis
    by (intro that [of q w']) (auto simp: created_def xrp_create_ns_queue_def sprd_xrp_defs)
qed

lemma test_group:
  assumes h: "holds_refs w0 w L (Suc n)"
  obtains g w' where "sprd_xrp_create_buffer_group w = ((Some g, XRP_STATUS_SUCCESS), w')"
    and "holds_refs w0 w' (add_mset (g, K_Group) L) n" and "keeps w w'" and "entries g w' = Some []"
proof -
  from create_buffer_group_ok [OF holds_ok [OF h]] obtain r s w' where c: "xrp_create_buffer_group w = ((r, s), w')"
    "created 1 K_Group w (image_mset fst L) r s w'" "r = None \<longrightarrow> (\<exists>n. \<not> malloc_ok (env w) n)"
    "\<forall>a. r = Some a \<longrightarrow> entries a w' = Some []" by blast
  moreover have "r \<noteq> None" using c(3) h by (auto simp: holds_refs_def serves_def)
  ultimately obtain g where "r = Some g" by blast
  with c holds_created [of w0 w L n 1] h show thesis by (intro that [of g w']) (auto simp: created_def sprd_xrp_defs)
qed

lemma test_buffer:
  assumes h: "holds_refs w0 w L (n + 2)" and d: "(d, K_Device) \<in># L"
  obtains b w' where "sprd_xrp_create_buffer (Some d) sz p (- 1) w = Some ((Some b, XRP_STATUS_SUCCESS), w')"
    and "holds_refs w0 w' (add_mset (b, K_Buffer) L) n" and "keeps w w'"
    and "\<exists>h fd va n. ion_mem (env w) n = Some (h, fd, va) \<and> get_buffer b w' = Some (zero_buffer\<lparr>buf_device := Some d,
       buf_type := XRP_BUFFER_TYPE_DEVICE, buf_ptr := va, buf_size := sz, ion_fd := fd, ionhandle := h\<rparr>)"
proof -
  have r2: "room w (image_mset fst L) 2" using h by (simp add: holds_refs_def room_def)
  have d': "d \<in># image_mset fst L + heap_refs (heap w)" using held_addr [OF d] by simp
  have ion: "\<forall>n. ion_mem (env w) n \<noteq> None" using h by (simp add: holds_refs_def serves_def)
  from create_device_buffer [OF holds_ok [OF h] r2 d' holds_kind [OF h d] ion, of sz p] obtain r s w' where
    c: "xrp_create_buffer (Some d) sz p (- 1) w = Some ((r, s), w')" "created 2 K_Buffer w (image_mset fst L) r s w'"
      "r = None \<longrightarrow> (\<exists>n. \<not> malloc_ok (env w) n)"
      "\<forall>a. r = Some a \<longrightarrow> (\<exists>h fd va n. ion_mem (env w) n = Some (h, fd, va) \<and> get_buffer a w' = Some (zero_buffer\<lparr>buf_device := Some d,
         buf_type := XRP_BUFFER_TYPE_DEVICE, buf_ptr := va, buf_size := sz, ion_fd := fd, ionhandle := h\<rparr>))"
    by blast
  moreover have "r \<noteq> None" using c(3) h by (auto simp: holds_refs_def serves_def)
  ultimately obtain b where "r = Some b" by blast
  with c holds_created [OF h] show thesis by (intro that [of b w']) (auto simp: created_def sprd_xrp_defs)
qed


text \<open>Calls on a group: its entries afterwards, and everything else as before.\<close>

lemma holds_group:
  assumes "holds_refs w0 w L n" and "(g, K_Group) \<in># L" and "entries g w = Some vs"
  obtains gr where "get_group g w = Some gr" and "group_entries gr = vs" and "n_buffers gr = length vs"
proof -
  obtain gr where gr: "get_group g w = Some gr" "group_entries gr = vs" using assms(3) by (auto simp: entries_def)
  with group_facts(4) [OF holds_ok [OF assms(1)] held_addr [OF assms(2)] gr(1)] that show thesis by simp
qed

lemma test_add:
  assumes h: "holds_refs w0 w L (Suc n)" and g: "(g, K_Group) \<in># L" "entries g w = Some vs" and b: "(b, K_Buffer) \<in># L"
  obtains w' where "sprd_xrp_add_buffer_to_group g b f w = Some ((of_nat (length vs), XRP_STATUS_SUCCESS), w')"
    and "holds_refs w0 w' L n" and "alters {g} w w'" and "entries g w' = Some (vs @ [(b, f)])"
proof -
  obtain gr where gr: "get_group g w = Some gr" "group_entries gr = vs" "n_buffers gr = length vs"
    using holds_group [OF h g] by blast
  have r1: "room w (image_mset fst L) 1" using h by (simp add: holds_refs_def room_def)
  have "malloc_ok (env w) (ticks w)" using h by (simp add: holds_refs_def serves_def)
  with add_buffer_ok [OF holds_ok [OF h] held_addr [OF g(1)] gr(1) held_addr [OF b] holds_kind [OF h b] r1, of f]
  obtain w' where w': "xrp_add_buffer_to_group g b f w = Some ((of_nat (n_buffers gr), XRP_STATUS_SUCCESS), w')"
    "moves 1 w (image_mset fst L) w' (image_mset fst L)" "entries g w' = Some (group_entries gr @ [(b, f)])"
    "alters {g} w w'" by blast
  with holds_moves [of w0 w L n 1 w' L] h gr show thesis by (intro that [of w']) (auto simp: sprd_xrp_defs)
qed

lemma test_set:
  assumes h: "holds_refs w0 w L (Suc n)" and g: "(g, K_Group) \<in># L" "entries g w = Some vs" and b: "(b, K_Buffer) \<in># L"
  obtains w' where "sprd_xrp_set_buffer_in_group g i b f w =
      Some (if i < length vs then XRP_STATUS_SUCCESS else XRP_STATUS_FAILURE, w')"
    and "holds_refs w0 w' L n" and "alters {g} w w'"
    and "entries g w' = Some (vs[i := (b, f)])"
proof -
  obtain gr where gr: "get_group g w = Some gr" "group_entries gr = vs" "n_buffers gr = length vs"
    using holds_group [OF h g] by blast
  have r1: "room w (image_mset fst L) 1" using h by (simp add: holds_refs_def room_def)
  from set_buffer_ok [OF holds_ok [OF h] held_addr [OF g(1)] gr(1) held_addr [OF b] holds_kind [OF h b] r1, of i f]
  obtain s w' where w': "xrp_set_buffer_in_group g i b f w = Some (s, w')"
    "moves 1 w (image_mset fst L) w' (image_mset fst L)" "alters {g} w w'"
    "if i < n_buffers gr then s = XRP_STATUS_SUCCESS \<and> entries g w' = Some ((group_entries gr)[i := (b, f)])
     else s = XRP_STATUS_FAILURE \<and> entries g w' = Some (group_entries gr)" by blast
  with holds_moves [of w0 w L n 1 w' L] h gr show thesis by (intro that [of w']) (auto simp: list_update_beyond sprd_xrp_defs split: if_splits)
qed

lemma test_get:
  assumes h: "holds_refs w0 w L (Suc n)" and g: "(g, K_Group) \<in># L" "entries g w = Some vs" and i: "i < length vs"
  obtains w' where "sprd_xrp_get_buffer_from_group g i w = Some ((Some (fst (vs ! i)), XRP_STATUS_SUCCESS), w')"
    and "holds_refs w0 w' (add_mset (fst (vs ! i), K_Buffer) L) n" and "keeps w w'"
proof -
  obtain gr where gr: "get_group g w = Some gr" "group_entries gr = vs" "n_buffers gr = length vs"
    using holds_group [OF h g] by blast
  have r1: "room w (image_mset fst L) 1" using h by (simp add: holds_refs_def room_def)
  from get_buffer_ok [OF holds_ok [OF h] held_addr [OF g(1)] gr(1) r1, of i] gr i
  obtain w' where w': "xrp_get_buffer_from_group g i w = Some ((Some (fst (vs ! i)), XRP_STATUS_SUCCESS), w')"
    "moves 1 w (image_mset fst L) w' (add_mset (fst (vs ! i)) (image_mset fst L))"
    "kinds w' (fst (vs ! i)) = Some K_Buffer" "keeps w w'" by auto
  with holds_moves [of w0 w L n 1 w' "add_mset (fst (vs ! i), K_Buffer) L"] h show thesis by (intro that [of w']) (auto simp: sprd_xrp_defs)
qed

text \<open>Releases. A queue without requests is destroyed at once.\<close>

lemma test_release_buffer:
  assumes "holds_refs w0 w M n" and "M = add_mset (b, K_Buffer) L"
  obtains w' where "sprd_xrp_release_buffer b w = Some w'" and "holds_refs w0 w' L n" and "keeps w w'"
  using release_buffer_ok [of w b "image_mset fst L"] holds_ok [OF assms(1)] holds_kind [OF assms(1), of b K_Buffer]
    holds_dropped [of w0 w b K_Buffer L n] assms unfolding sprd_xrp_defs by auto

lemma test_release_group:
  assumes "holds_refs w0 w M n" and "M = add_mset (g, K_Group) L"
  obtains w' where "sprd_xrp_release_buffer_group g w = Some w'" and "holds_refs w0 w' L n"
    and "keeps w w'"
  using release_group_ok [of w g "image_mset fst L"] holds_ok [OF assms(1)] holds_kind [OF assms(1), of g K_Group]
    holds_dropped [of w0 w g K_Group L n] assms unfolding sprd_xrp_defs by auto

lemma test_release_device:
  assumes "holds_refs w0 w M n" and "M = add_mset (d, K_Device) L"
  obtains w' where "sprd_xrp_release_device d w = Some w'" and "holds_refs w0 w' L n"
  using release_device_ok [of w d "image_mset fst L"] holds_ok [OF assms(1)] holds_kind [OF assms(1), of d K_Device]
    holds_dropped [of w0 w d K_Device L n] assms unfolding sprd_xrp_defs by auto

lemma release_idle_queue:
  assumes "get_queue q w = Some qu" and "pending qu = []"
  shows "xrp_release_queue q w = release_queue_with (\<lambda>_. Some) q w"
  using assms by (auto simp: xrp_release_queue_def release_queue_with_def last_release_refcounted_def get_queue_def
      split: option.splits body.splits)


lemma test_release_queue:
  assumes h: "holds_refs w0 w M n" and M: "M = add_mset (q, K_Queue) L" and q: "get_queue q w = Some qu" "pending qu = []"
  obtains w' where "sprd_xrp_release_queue q w = Some w'" and "holds_refs w0 w' L n"
proof -
  have "world_ok w (add_mset q (image_mset fst L))" using holds_ok [OF h] M by simp
  from release_queue_self [OF this q(1), of "\<lambda>_. Some"] obtain w' lost where
    w': "release_queue_with (\<lambda>_. Some) q w = Some w'" "queue_left q qu w' lost"
    "moves 0 w (add_mset q (image_mset fst L)) w' (lost + image_mset fst L)" by blast
  moreover have "lost = {#}" using w'(2) q(2) by (simp add: queue_left_def split: if_splits)
  ultimately show thesis
    using holds_dropped [of w0 w q K_Queue L n w'] h M release_idle_queue [OF q] by (intro that [of w']) (simp_all add: sprd_xrp_defs)
qed

lemma test_run:
  assumes h: "holds_refs w0 w L (n + 5)" and m: "(q, K_Queue) \<in># L" and q: "get_queue q w = Some qu" "pending qu = []"
    and nm: "plain_name qu" and inp: "inp = None \<and> sz = 0 \<or> (\<exists>bs. inp = Some bs \<and> unat sz \<le> length bs)"
  obtains w' where "sprd_xrp_run_command_sync q inp (- 1) sz out fd osz None w = Some (XRP_STATUS_SUCCESS, w')"
    and "holds_refs w0 w' L n" and "get_queue q w' = Some qu"
proof -
  have cost: "sync_cost w qu None = 1" by (simp add: sync_cost_def run_cost_def q(2))
  have room: "room w (image_mset fst L) (sync_cost w qu None + 4)"
    using h unfolding cost by (simp add: holds_refs_def room_def)
  have req: "enqueue_ok w (image_mset fst L) inp sz None" using inp by (auto simp: enqueue_ok_def)
  have sv: "\<forall>n. ion_mem (env w) n \<noteq> None" "\<forall>n. malloc_ok (env w) n" using h by (simp_all add: holds_refs_def serves_def)
  obtain w' where w': "xrp_run_command_sync q inp (- 1) sz out fd osz None w = Some (XRP_STATUS_SUCCESS, w')"
    "moves 5 w (image_mset fst L) w' (image_mset fst L)" "get_queue q w' = Some (qu\<lparr>pending := []\<rparr>)"
    using run_command_sync_ok [OF holds_ok [OF h] held_addr [OF m] q(1) req nm sv(1) room, of "- 1" out fd osz] sv(2)
    unfolding cost by auto
  have "qu\<lparr>pending := []\<rparr> = qu" using q(2) by simp
  with w' holds_moves [OF h w'(2)] show thesis by (intro that [of w']) (auto simp: sprd_xrp_defs)
qed

text \<open>The names the tests use.\<close>

lemma test_names:
  "nsid_ok None" "nsid_ok (Some XRP_EXAMPLE_V1_NSID)" "nsid_ok (Some XRP_EXAMPLE_V2_NSID)"
  "ns \<in> {None, Some XRP_EXAMPLE_V1_NSID, Some XRP_EXAMPLE_V2_NSID} \<Longrightarrow> nsid qu = queue_nsid ns \<Longrightarrow> plain_name qu"
proof -
  show "nsid_ok None" by (simp add: nsid_ok_def)
  have "c_strlen XRP_EXAMPLE_V1_NSID \<noteq> None" "c_strlen XRP_EXAMPLE_V2_NSID \<noteq> None" by code_simp+
  then show "nsid_ok (Some XRP_EXAMPLE_V1_NSID)" "nsid_ok (Some XRP_EXAMPLE_V2_NSID)" by (simp_all add: nsid_ok_def)
  have "map_option (take 9) (copy_nsid (queue_nsid ns)) \<notin> {None, Some FACEID_NSID}"
    if "ns \<in> {None, Some XRP_EXAMPLE_V1_NSID, Some XRP_EXAMPLE_V2_NSID}"
  proof -
    have "map_option (take 9) (copy_nsid (queue_nsid None)) \<notin> {None, Some FACEID_NSID}"
      "map_option (take 9) (copy_nsid (queue_nsid (Some XRP_EXAMPLE_V1_NSID))) \<notin> {None, Some FACEID_NSID}"
      "map_option (take 9) (copy_nsid (queue_nsid (Some XRP_EXAMPLE_V2_NSID))) \<notin> {None, Some FACEID_NSID}"
      by code_simp+
    with that show ?thesis by blast
  qed
  then show "ns \<in> {None, Some XRP_EXAMPLE_V1_NSID, Some XRP_EXAMPLE_V2_NSID} \<Longrightarrow> nsid qu = queue_nsid ns \<Longrightarrow> plain_name qu"
    by (auto simp: plain_name_def)
qed


section \<open>Results\<close>

text \<open>The tests begin with a device and a queue on it, and end with their release.\<close>

lemma holds_start:
  assumes "world_ok w c" and "room w c n" and "serves (env w)"
  shows "\<exists>L. image_mset fst L = c \<and> holds_refs w w L n"
proof -
  let ?L = "image_mset (\<lambda>a. (a, the (kinds w a))) c"
  have c: "image_mset fst ?L = c" by (simp add: image_mset.compositionality comp_def)
  have "kinds w a = Some (the (kinds w a))" if "a \<in># c" for a
    using world_ok_client [OF assms(1) that] by (auto simp: kinds_def)
  then have "holds_refs w w ?L n" unfolding holds_refs_def c using assms by auto
  with c show ?thesis by blast
qed

lemma test_begin:
  assumes h: "holds_refs w0 w L (n + 3)" and ns: "ns \<in> {None, Some XRP_EXAMPLE_V1_NSID, Some XRP_EXAMPLE_V2_NSID}"
  obtains d w1 q w2 qu where "sprd_xrp_open_device w = Some ((Some d, XRP_STATUS_SUCCESS), w1)"
    and "sprd_xrp_create_ns_queue d ns w1 = Some ((Some q, XRP_STATUS_SUCCESS), w2)"
    and "holds_refs w0 w2 ({#(q, K_Queue), (d, K_Device)#} + L) n"
    and "get_queue q w2 = Some qu" and "pending qu = []" and "plain_name qu"
proof -
  have "holds_refs w0 w L (Suc (n + 2))" using h by (simp add: eval_nat_numeral)
  then obtain d w1 where o: "sprd_xrp_open_device w = Some ((Some d, XRP_STATUS_SUCCESS), w1)"
    "holds_refs w0 w1 (add_mset (d, K_Device) L) (n + 2)" by (rule test_open)
  have nok: "nsid_ok ns" using ns test_names(1-3) by blast
  obtain q w2 where q: "sprd_xrp_create_ns_queue d ns w1 = Some ((Some q, XRP_STATUS_SUCCESS), w2)"
    "holds_refs w0 w2 (add_mset (q, K_Queue) (add_mset (d, K_Device) L)) n"
    "get_queue q w2 = Some \<lparr>q_device = Some d, use_nsid = (ns \<noteq> None), q_priority = 0, nsid = queue_nsid ns, pending = []\<rparr>"
    by (rule test_queue [OF o(2) _ nok, of d]) auto
  with o(1) show thesis using test_names(4) [OF ns] by (intro that [OF o(1) q(1) _ q(3)]) simp_all
qed

lemma test_end:
  assumes h: "holds_refs w0 w M n" and M: "M = {#(q, K_Queue), (d, K_Device)#} + L"
    and q: "get_queue q w = Some qu" "pending qu = []"
  obtains w1 w2 where "sprd_xrp_release_queue q w = Some w1" and "sprd_xrp_release_device d w1 = Some w2"
    and "world_ok w2 (image_mset fst L)" and "dying w2 = dying w0"
proof -
  obtain w1 where w1: "sprd_xrp_release_queue q w = Some w1" "holds_refs w0 w1 (add_mset (d, K_Device) L) n"
    using test_release_queue [OF h _ q, of "add_mset (d, K_Device) L"] M by auto
  obtain w2 where w2: "sprd_xrp_release_device d w1 = Some w2" "holds_refs w0 w2 L n"
    using test_release_device [OF w1(2) refl] by blast
  then have "dying w2 = dying w0" by (auto simp: holds_refs_def evolves_def)
  with w1(1) w2 holds_ok [OF w2(2)] show thesis by (intro that)
qed

definition given_back :: "world \<Rightarrow> addr multiset \<Rightarrow> world \<Rightarrow> bool" where
  "given_back w c w' \<longleftrightarrow> world_ok w' c \<and> dying w' = dying w"

lemma f6_ok:
  assumes "world_ok w c" and "room w c 8" and "serves (env w)"
  shows "\<exists>w'. f6 w = Some ([True, True, True], w') \<and> given_back w c w'"
proof -
  obtain L where L: "image_mset fst L = c" "holds_refs w w L (5 + 3)"
    using holds_start [OF assms] by (auto simp: eval_nat_numeral)
  obtain d w1 q w2 qu where b: "sprd_xrp_open_device w = Some ((Some d, XRP_STATUS_SUCCESS), w1)"
    "sprd_xrp_create_ns_queue d None w1 = Some ((Some q, XRP_STATUS_SUCCESS), w2)"
    "holds_refs w w2 ({#(q, K_Queue), (d, K_Device)#} + L) 5"
    "get_queue q w2 = Some qu" "pending qu = []" "plain_name qu"
    using test_begin [OF L(2), of None] by blast
  have "holds_refs w w2 ({#(q, K_Queue), (d, K_Device)#} + L) (0 + 5)" using b(3) by simp
  then obtain w3 where r: "sprd_xrp_run_command_sync q None (- 1) 0 H_Null (- 1) 0 None w2 = Some (XRP_STATUS_SUCCESS, w3)"
    "holds_refs w w3 ({#(q, K_Queue), (d, K_Device)#} + L) 0" "get_queue q w3 = Some qu"
    by (rule test_run [where q = q, OF _ _ b(4-6)]) auto
  obtain w4 w5 where e: "sprd_xrp_release_queue q w3 = Some w4" "sprd_xrp_release_device d w4 = Some w5"
    "given_back w c w5"
    using test_end [OF r(2) refl r(3) b(5)] unfolding given_back_def L(1) by blast
  have "sprd_xrp_create_queue d w1 = Some ((Some q, XRP_STATUS_SUCCESS), w2)"
    using b(2) by (simp add: xrp_create_queue_def sprd_xrp_defs)
  then show ?thesis using b(1) r(1) e by (simp add: f6_def)
qed


lemma f7_ok:
  assumes "world_ok w c" and "room w c 13" and "serves (env w)"
  shows "\<exists>w'. f7 w = Some ([True, True, True, False], w') \<and> given_back w c w'"
proof -
  obtain L where L: "image_mset fst L = c" "holds_refs w w L (10 + 3)"
    using holds_start [OF assms] by (auto simp: eval_nat_numeral)
  obtain d w1 q w2 qu where b: "sprd_xrp_open_device w = Some ((Some d, XRP_STATUS_SUCCESS), w1)"
    "sprd_xrp_create_ns_queue d (Some XRP_EXAMPLE_V2_NSID) w1 = Some ((Some q, XRP_STATUS_SUCCESS), w2)"
    "holds_refs w w2 ({#(q, K_Queue), (d, K_Device)#} + L) 10"
    "get_queue q w2 = Some qu" "pending qu = []" "plain_name qu"
    using test_begin [OF L(2), of "Some XRP_EXAMPLE_V2_NSID"] by blast
  have "holds_refs w w2 ({#(q, K_Queue), (d, K_Device)#} + L) (5 + 5)" using b(3) by simp
  then obtain w3 where r1: "sprd_xrp_run_command_sync q (Some (put32 EXAMPLE_V2_CMD_OK)) (- 1) 4 H_Null (- 1) 0 None w2 =
      Some (XRP_STATUS_SUCCESS, w3)"
    "holds_refs w w3 ({#(q, K_Queue), (d, K_Device)#} + L) 5" "get_queue q w3 = Some qu"
    by (rule test_run [where q = q and inp = "Some (put32 EXAMPLE_V2_CMD_OK)", OF _ _ b(4-6)]) auto
  have "holds_refs w w3 ({#(q, K_Queue), (d, K_Device)#} + L) (0 + 5)" using r1(2) by simp
  then obtain w4 where r2: "sprd_xrp_run_command_sync q (Some (put32 EXAMPLE_V2_CMD_FAIL)) (- 1) 4 H_Null (- 1) 0 None w3 =
      Some (XRP_STATUS_SUCCESS, w4)"
    "holds_refs w w4 ({#(q, K_Queue), (d, K_Device)#} + L) 0" "get_queue q w4 = Some qu"
    by (rule test_run [where q = q and inp = "Some (put32 EXAMPLE_V2_CMD_FAIL)", OF _ _ r1(3) b(5,6)]) auto
  obtain w5 w6 where "sprd_xrp_release_queue q w4 = Some w5" "sprd_xrp_release_device d w5 = Some w6" "given_back w c w6"
    using test_end [OF r2(2) refl r2(3) b(5)] unfolding given_back_def L(1) by blast
  then show ?thesis using b(1,2) r1(1) r2(1) by (simp add: f7_def)
qed

text \<open>\<open>f4\<close> and \<open>f5\<close> go on with a group and two device buffers, the first of them in the group.\<close>

definition device_buffer :: "addr \<Rightarrow> u64 \<Rightarrow> world \<Rightarrow> bool" where
  "device_buffer b sz w \<longleftrightarrow>
     (\<exists>buf. get_buffer b w = Some buf \<and> buf_size buf = sz \<and> buf_type buf = XRP_BUFFER_TYPE_DEVICE)"

lemma holds_device_buffer:
  assumes "holds_refs w0 w L n" and "holds_refs w0 w' L' n'" and "alters A w w'" and "b \<notin> A"
    and "(b, kd) \<in># L'" and "device_buffer b sz w"
  shows "device_buffer b sz w'"
  using assms(6) holds_buffer [OF assms(1-5)] by (auto simp: device_buffer_def)

lemma holds_distinct: "holds_refs w0 w L n \<Longrightarrow> (a, k) \<in># L \<Longrightarrow> (a', k') \<in># L \<Longrightarrow> k \<noteq> k' \<Longrightarrow> a \<noteq> a'"
  by (metis holds_kind option.inject)

lemma test_setup:
  assumes h: "holds_refs w0 w2 Q (n + 6)" and d: "(d, K_Device) \<in># Q" and q: "(q, K_Queue) \<in># Q" "get_queue q w2 = Some qu"
  obtains g w3 b1 w4 b2 w5 w6 where "sprd_xrp_create_buffer_group w2 = ((Some g, XRP_STATUS_SUCCESS), w3)"
    and "sprd_xrp_create_buffer (Some d) sz1 p1 (- 1) w3 = Some ((Some b1, XRP_STATUS_SUCCESS), w4)"
    and "sprd_xrp_create_buffer (Some d) sz2 p2 (- 1) w4 = Some ((Some b2, XRP_STATUS_SUCCESS), w5)"
    and "sprd_xrp_add_buffer_to_group g b1 XRP_READ w5 = Some ((0, XRP_STATUS_SUCCESS), w6)"
    and "holds_refs w0 w6 ({#(b2, K_Buffer), (b1, K_Buffer), (g, K_Group)#} + Q) n"
    and "entries g w6 = Some [(b1, XRP_READ)]" and "get_queue q w6 = Some qu"
    and "device_buffer b1 sz1 w6" and "device_buffer b2 sz2 w6"
proof -
  have "holds_refs w0 w2 Q (Suc (n + 5))" using h by (simp add: eval_nat_numeral)
  then obtain g w3 where g: "sprd_xrp_create_buffer_group w2 = ((Some g, XRP_STATUS_SUCCESS), w3)"
    "holds_refs w0 w3 (add_mset (g, K_Group) Q) (n + 5)" "keeps w2 w3" "entries g w3 = Some []" by (rule test_group)
  let ?G = "add_mset (g, K_Group) Q"
  have h3: "holds_refs w0 w3 ?G ((n + 3) + 2)" using g(2) by (simp add: eval_nat_numeral)
  obtain b1 w4 where b1: "sprd_xrp_create_buffer (Some d) sz1 p1 (- 1) w3 = Some ((Some b1, XRP_STATUS_SUCCESS), w4)"
    "holds_refs w0 w4 (add_mset (b1, K_Buffer) ?G) (n + 3)" "keeps w3 w4" "device_buffer b1 sz1 w4"
    unfolding device_buffer_def by (rule test_buffer [OF h3, of d sz1 p1]) (use d in auto)
  have h4: "holds_refs w0 w4 (add_mset (b1, K_Buffer) ?G) ((n + 1) + 2)" using b1(2) by (simp add: eval_nat_numeral)
  let ?B = "\<lambda>b2. add_mset (b2, K_Buffer) (add_mset (b1, K_Buffer) ?G)"
  obtain b2 w5 where b2: "sprd_xrp_create_buffer (Some d) sz2 p2 (- 1) w4 = Some ((Some b2, XRP_STATUS_SUCCESS), w5)"
    "holds_refs w0 w5 (?B b2) (n + 1)" "keeps w4 w5" "device_buffer b2 sz2 w5"
    unfolding device_buffer_def by (rule test_buffer [OF h4, of d sz2 p2]) (use d in auto)
  have e4: "entries g w4 = Some []" using holds_entries [OF g(2) b1(2,3) _ _ g(4), of K_Group] by simp
  have e5: "entries g w5 = Some []" using holds_entries [OF b1(2) b2(2,3) _ _ e4, of K_Group] by simp
  have "holds_refs w0 w5 (?B b2) (Suc n)" using b2(2) by simp
  then obtain w6 where a: "sprd_xrp_add_buffer_to_group g b1 XRP_READ w5 = Some ((0, XRP_STATUS_SUCCESS), w6)"
    "holds_refs w0 w6 (?B b2) n" "alters {g} w5 w6" "entries g w6 = Some [(b1, XRP_READ)]"
    by (rule test_add [OF _ _ e5, of w0 "?B b2" n b1 XRP_READ]) auto
  have "g \<noteq> b1" "g \<noteq> b2" "g \<noteq> q"
    using holds_distinct [OF a(2), of g K_Group b1 K_Buffer] holds_distinct [OF a(2), of g K_Group b2 K_Buffer]
      holds_distinct [OF a(2), of g K_Group q K_Queue] q(1) by auto
  moreover have "device_buffer b1 sz1 w5" using holds_device_buffer [OF b1(2) b2(2,3) _ _ b1(4), of K_Buffer] by simp
  ultimately have "device_buffer b1 sz1 w6" "device_buffer b2 sz2 w6" "get_queue q w6 = Some qu"
    using holds_device_buffer [OF b2(2) a(2,3), of b1 K_Buffer] holds_device_buffer [OF b2(2) a(2,3), of b2 K_Buffer]
      b2(4) keeps_queue [OF a(3)] keeps_queue [OF b2(3)] keeps_queue [OF b1(3)] keeps_queue [OF g(3) _ q(2)] by auto
  with g(1) b1(1) b2(1) a show thesis by (intro that [OF g(1) b1(1) b2(1) a(1)]) simp_all
qed


text \<open>\<open>f4\<close> replaces that buffer, fails to replace the one after it, and gets the new one.\<close>

lemma test_replace:
  assumes h: "holds_refs w0 w6 H 3" and g: "(g, K_Group) \<in># H" "entries g w6 = Some [(b1, XRP_READ)]"
    and b: "(b2, K_Buffer) \<in># H" and q: "get_queue q w6 = Some qu" "g \<noteq> q"
  obtains w7 w8 w9 where "sprd_xrp_set_buffer_in_group g 0 b2 XRP_READ w6 = Some (XRP_STATUS_SUCCESS, w7)"
    and "sprd_xrp_set_buffer_in_group g 1 b2 XRP_READ w7 = Some (XRP_STATUS_FAILURE, w8)"
    and "sprd_xrp_get_buffer_from_group g 0 w8 = Some ((Some b2, XRP_STATUS_SUCCESS), w9)"
    and "holds_refs w0 w9 (add_mset (b2, K_Buffer) H) 0" and "get_queue q w9 = Some qu"
proof -
  have "holds_refs w0 w6 H (Suc 2)" using h by (simp add: eval_nat_numeral)
  then obtain w7 where w7: "sprd_xrp_set_buffer_in_group g 0 b2 XRP_READ w6 = Some (XRP_STATUS_SUCCESS, w7)"
    "holds_refs w0 w7 H 2" "alters {g} w6 w7" "entries g w7 = Some [(b2, XRP_READ)]"
    by (rule test_set [OF _ g b, of w0 2 0 XRP_READ]) auto
  have "holds_refs w0 w7 H (Suc 1)" using w7(2) by (simp add: eval_nat_numeral)
  then obtain w8 where w8: "sprd_xrp_set_buffer_in_group g 1 b2 XRP_READ w7 = Some (XRP_STATUS_FAILURE, w8)"
    "holds_refs w0 w8 H 1" "alters {g} w7 w8" "entries g w8 = Some [(b2, XRP_READ)]"
    by (rule test_set [OF _ g(1) w7(4) b, of w0 1 1 XRP_READ]) auto
  have "holds_refs w0 w8 H (Suc 0)" using w8(2) by simp
  then obtain w9 where w9: "sprd_xrp_get_buffer_from_group g 0 w8 = Some ((Some b2, XRP_STATUS_SUCCESS), w9)"
    "holds_refs w0 w9 (add_mset (b2, K_Buffer) H) 0" "keeps w8 w9"
    by (rule test_get [OF _ g(1) w8(4), of w0 0 0]) auto
  have "get_queue q w9 = Some qu"
    using keeps_queue [OF w9(3) _ keeps_queue [OF w8(3) _ keeps_queue [OF w7(3) _ q(1)]]] q(2) by simp
  with w7(1) w8(1) w9(1,2) show thesis by (rule that)
qed

lemma f4_ok:
  assumes "world_ok w c" and "room w c 12" and "serves (env w)"
  shows "\<exists>w'. f4 w = Some (replicate 10 True, w') \<and> given_back w c w'"
proof -
  obtain L where L: "image_mset fst L = c" "holds_refs w w L (9 + 3)"
    using holds_start [OF assms] by (auto simp: eval_nat_numeral)
  let ?Q = "\<lambda>q d. {#(q, K_Queue), (d, K_Device)#} + L"
  obtain d w1 q w2 qu where b: "sprd_xrp_open_device w = Some ((Some d, XRP_STATUS_SUCCESS), w1)"
    "sprd_xrp_create_ns_queue d (Some XRP_EXAMPLE_V1_NSID) w1 = Some ((Some q, XRP_STATUS_SUCCESS), w2)"
    "holds_refs w w2 (?Q q d) 9" "get_queue q w2 = Some qu" "pending qu = []" "plain_name qu"
    using test_begin [OF L(2), of "Some XRP_EXAMPLE_V1_NSID"] by blast
  have h2: "holds_refs w w2 (?Q q d) (3 + 6)" using b(3) by simp
  let ?H = "\<lambda>g b1 b2. {#(b2, K_Buffer), (b1, K_Buffer), (g, K_Group)#} + ?Q q d"
  obtain g w3 b1 w4 b2 w5 w6 where s: "sprd_xrp_create_buffer_group w2 = ((Some g, XRP_STATUS_SUCCESS), w3)"
    "sprd_xrp_create_buffer (Some d) 1 0 (- 1) w3 = Some ((Some b1, XRP_STATUS_SUCCESS), w4)"
    "sprd_xrp_create_buffer (Some d) 1 0 (- 1) w4 = Some ((Some b2, XRP_STATUS_SUCCESS), w5)"
    "sprd_xrp_add_buffer_to_group g b1 XRP_READ w5 = Some ((0, XRP_STATUS_SUCCESS), w6)"
    "holds_refs w w6 (?H g b1 b2) 3" "entries g w6 = Some [(b1, XRP_READ)]" "get_queue q w6 = Some qu"
    by (rule test_setup [OF h2 _ _ b(4), of d 1 0 1 0]) auto
  have "g \<noteq> q" using holds_distinct [OF s(5), of g K_Group q K_Queue] by auto
  obtain w7 w8 w9 where r: "sprd_xrp_set_buffer_in_group g 0 b2 XRP_READ w6 = Some (XRP_STATUS_SUCCESS, w7)"
    "sprd_xrp_set_buffer_in_group g 1 b2 XRP_READ w7 = Some (XRP_STATUS_FAILURE, w8)"
    "sprd_xrp_get_buffer_from_group g 0 w8 = Some ((Some b2, XRP_STATUS_SUCCESS), w9)"
    "holds_refs w w9 (add_mset (b2, K_Buffer) (?H g b1 b2)) 0" "get_queue q w9 = Some qu"
    by (rule test_replace [OF s(5) _ s(6) _ s(7) \<open>g \<noteq> q\<close>, of b2]) auto
  obtain w10 where w10: "sprd_xrp_release_buffer b1 w9 = Some w10" "keeps w9 w10"
    "holds_refs w w10 ({#(b2, K_Buffer), (b2, K_Buffer), (g, K_Group)#} + ?Q q d) 0"
    by (rule test_release_buffer [OF r(4), of b1 "{#(b2, K_Buffer), (b2, K_Buffer), (g, K_Group)#} + ?Q q d"]) (auto simp: add_mset_commute)
  obtain w11 where w11: "sprd_xrp_release_buffer b2 w10 = Some w11" "keeps w10 w11"
    "holds_refs w w11 ({#(b2, K_Buffer), (g, K_Group)#} + ?Q q d) 0"
    by (rule test_release_buffer [OF w10(3), of b2 "{#(b2, K_Buffer), (g, K_Group)#} + ?Q q d"]) auto
  obtain w12 where w12: "sprd_xrp_release_buffer b2 w11 = Some w12" "keeps w11 w12"
    "holds_refs w w12 ({#(g, K_Group)#} + ?Q q d) 0"
    by (rule test_release_buffer [OF w11(3), of b2 "{#(g, K_Group)#} + ?Q q d"]) auto
  obtain w13 where w13: "sprd_xrp_release_buffer_group g w12 = Some w13" "holds_refs w w13 (?Q q d) 0" "keeps w12 w13"
    by (rule test_release_group [OF w12(3), of g "?Q q d"]) auto
  have "get_queue q w13 = Some qu"
    using keeps_queue [OF w13(3) _ keeps_queue [OF w12(2) _ keeps_queue [OF w11(2) _ keeps_queue [OF w10(2) _ r(5)]]]] by simp
  then obtain w14 w15 where "sprd_xrp_release_queue q w13 = Some w14" "sprd_xrp_release_device d w14 = Some w15"
    "given_back w c w15"
    using test_end [OF w13(2) refl _ b(5)] unfolding given_back_def L(1) by blast
  then show ?thesis using b(1,2) s(1-4) r(1-3) w10(1) w11(1) w12(1) w13(1)
    by (simp add: f4_def eval_nat_numeral)
qed


lemma test_group_info:
  assumes h: "holds_refs w0 w L n" and g: "(g, K_Group) \<in># L" "entries g w = Some vs"
  shows "i < length vs \<Longrightarrow> sprd_xrp_buffer_group_get_info g XRP_BUFFER_GROUP_BUFFER_FLAGS_ENUM i 4 w =
      Some (Some (Flags_out (snd (vs ! i))), XRP_STATUS_SUCCESS)"
    and "sprd_xrp_buffer_group_get_info g XRP_BUFFER_GROUP_SIZE_SIZE_T i 8 w =
      Some (Some (Size_out (of_nat (length vs))), XRP_STATUS_SUCCESS)"
proof -
  obtain gr where gr: "get_group g w = Some gr" "group_entries gr = vs" "n_buffers gr = length vs"
    using holds_group [OF h g] by blast
  have "slot_get (gbuffer gr) i = Some (vs ! i)" if "i < length vs"
    using group_slot group_facts(3) [OF holds_ok [OF h] held_addr [OF g(1)] gr(1)] gr(2) that by blast
  with gr show "i < length vs \<Longrightarrow> sprd_xrp_buffer_group_get_info g XRP_BUFFER_GROUP_BUFFER_FLAGS_ENUM i 4 w =
      Some (Some (Flags_out (snd (vs ! i))), XRP_STATUS_SUCCESS)"
    and "sprd_xrp_buffer_group_get_info g XRP_BUFFER_GROUP_SIZE_SIZE_T i 8 w =
      Some (Some (Size_out (of_nat (length vs))), XRP_STATUS_SUCCESS)"
    by (auto simp: sprd_xrp_defs xrp_buffer_group_get_info_def split: prod.splits)
qed

lemma f5_ok:
  assumes "world_ok w c" and "room w c 9" and "serves (env w)"
  shows "\<exists>w'. f5 i_addr w = Some ((replicate 16 True)[11 := i_addr = 0], w') \<and> given_back w c w'"
proof -
  obtain L where L: "image_mset fst L = c" "holds_refs w w L (6 + 3)"
    using holds_start [OF assms] by (auto simp: eval_nat_numeral)
  let ?Q = "\<lambda>q d. {#(q, K_Queue), (d, K_Device)#} + L"
  obtain d w1 q w2 qu where b: "sprd_xrp_open_device w = Some ((Some d, XRP_STATUS_SUCCESS), w1)"
    "sprd_xrp_create_ns_queue d (Some XRP_EXAMPLE_V1_NSID) w1 = Some ((Some q, XRP_STATUS_SUCCESS), w2)"
    "holds_refs w w2 (?Q q d) 6" "get_queue q w2 = Some qu" "pending qu = []" "plain_name qu"
    using test_begin [OF L(2), of "Some XRP_EXAMPLE_V1_NSID"] by blast
  have h2: "holds_refs w w2 (?Q q d) (0 + 6)" using b(3) by simp
  let ?H = "\<lambda>g b1 b2. {#(b2, K_Buffer), (b1, K_Buffer), (g, K_Group)#} + ?Q q d"
  obtain g w3 b1 w4 b2 w5 w6 where s: "sprd_xrp_create_buffer_group w2 = ((Some g, XRP_STATUS_SUCCESS), w3)"
    "sprd_xrp_create_buffer (Some d) 1 0 (- 1) w3 = Some ((Some b1, XRP_STATUS_SUCCESS), w4)"
    "sprd_xrp_create_buffer (Some d) 8 i_addr (- 1) w4 = Some ((Some b2, XRP_STATUS_SUCCESS), w5)"
    "sprd_xrp_add_buffer_to_group g b1 XRP_READ w5 = Some ((0, XRP_STATUS_SUCCESS), w6)"
    "holds_refs w w6 (?H g b1 b2) 0" "entries g w6 = Some [(b1, XRP_READ)]" "get_queue q w6 = Some qu"
    "device_buffer b1 1 w6" "device_buffer b2 8 w6"
    by (rule test_setup [OF h2 _ _ b(4), of d 1 0 8 i_addr]) auto
  have info: "sprd_xrp_buffer_get_info b1 XRP_BUFFER_SIZE_SIZE_T 8 w6 = Some (Some 1, XRP_STATUS_SUCCESS)"
    "sprd_xrp_buffer_get_info b1 XRP_BUFFER_HOST_POINTER_PTR 8 w6 = Some (Some 0, XRP_STATUS_SUCCESS)"
    "sprd_xrp_buffer_get_info b2 XRP_BUFFER_HOST_POINTER_PTR 8 w6 = Some (Some 0, XRP_STATUS_SUCCESS)"
    using s(8,9) by (auto simp: sprd_xrp_defs xrp_buffer_get_info_def device_buffer_def)
  have ginfo: "sprd_xrp_buffer_group_get_info g XRP_BUFFER_GROUP_BUFFER_FLAGS_ENUM 0 4 w6 =
      Some (Some (Flags_out XRP_READ), XRP_STATUS_SUCCESS)"
    "sprd_xrp_buffer_group_get_info g XRP_BUFFER_GROUP_SIZE_SIZE_T 0 8 w6 = Some (Some (Size_out 1), XRP_STATUS_SUCCESS)"
    using test_group_info [OF s(5) _ s(6)] by auto
  obtain w7 where w7: "sprd_xrp_release_buffer b1 w6 = Some w7" "keeps w6 w7"
    "holds_refs w w7 ({#(b2, K_Buffer), (g, K_Group)#} + ?Q q d) 0"
    by (rule test_release_buffer [OF s(5), of b1 "{#(b2, K_Buffer), (g, K_Group)#} + ?Q q d"]) (auto simp: add_mset_commute)
  obtain w8 where w8: "sprd_xrp_release_buffer b2 w7 = Some w8" "keeps w7 w8" "holds_refs w w8 ({#(g, K_Group)#} + ?Q q d) 0"
    by (rule test_release_buffer [OF w7(3), of b2 "{#(g, K_Group)#} + ?Q q d"]) auto
  obtain w9 where w9: "sprd_xrp_release_buffer_group g w8 = Some w9" "holds_refs w w9 (?Q q d) 0" "keeps w8 w9"
    by (rule test_release_group [OF w8(3), of g "?Q q d"]) auto
  have "get_queue q w9 = Some qu" using keeps_queue [OF w9(3) _ keeps_queue [OF w8(2) _ keeps_queue [OF w7(2) _ s(7)]]] by simp
  then obtain w10 w11 where "sprd_xrp_release_queue q w9 = Some w10" "sprd_xrp_release_device d w10 = Some w11"
    "given_back w c w11"
    using test_end [OF w9(2) refl _ b(5)] unfolding given_back_def L(1) by blast
  then show ?thesis using b(1,2) s(1-4) info ginfo w7(1) w8(1) w9(1)
    by (simp add: f5_def eval_nat_numeral eq_commute [of 0 i_addr])
qed


text \<open>
  C39. The tests of the API that do not depend on the DSP, on a library in order, with room for the
  references they take, when memory, ion and the service grant every request. All of them return, without
  undefined behaviour, with every reference given back and nothing half torn down. In \<open>f4\<close> and \<open>f6\<close> all
  assertions hold. In \<open>f5\<close> the assertion fails that the host pointer of the second buffer is the address
  of the variable it was created for: with the descriptor -1 a buffer is device memory. In \<open>f7\<close> the
  assertion fails that a failing command is reported as FAILURE, whatever the driver answers.
\<close>

theorem api_tests_results:
  assumes "world_ok w c" and "room w c 13" and "serves (env w)"
  shows "(\<exists>w'. f4 w = Some (replicate 10 True, w') \<and> given_back w c w') \<and>
    (\<exists>w'. f5 i_addr w = Some ((replicate 16 True)[11 := i_addr = 0], w') \<and> given_back w c w') \<and>
    (\<exists>w'. f6 w = Some ([True, True, True], w') \<and> given_back w c w') \<and>
    (\<exists>w'. f7 w = Some ([True, True, True, False], w') \<and> given_back w c w')"
proof -
  have "room w c n" if "n \<le> 13" for n using assms(2) that by (simp add: room_def)
  then show ?thesis using f4_ok [OF assms(1) _ assms(3)] f5_ok [OF assms(1) _ assms(3)]
      f6_ok [OF assms(1) _ assms(3)] f7_ok [OF assms] by simp
qed

theorem api_tests_results_witness:
  "\<exists>w4 w7. f4 (world_init env_good) = Some (replicate 10 True, w4) \<and> world_ok w4 {#} \<and>
     f7 (world_init env_good) = Some ([True, True, True, False], w7) \<and> world_ok w7 {#}"
proof -
  have serves: "serves (env (world_init env_good))" by (simp add: serves_def world_init_def env_good_def)
  have room: "room (world_init env_good) {#} 13" by (simp add: room_def world_init_def)
  show ?thesis
    using api_tests_results [OF world_init_ok room serves] unfolding given_back_def by blast
qed

end
