(* ===== verification/Api_Async.thy ===== *)
theory Api_Async
  imports Api_Tests Dsp_Host
begin

text \<open>
  The test \<open>f2\<close> of \<open>host_main.c\<close>: three commands are submitted, the client gives up the group, the buffer
  and the queue they use, and then waits for the last command before it looks at the second.
\<close>

section \<open>The test\<close>






section \<open>Its calls\<close>

lemma holds_refs_log [simp]: "holds_refs w0 (record_call k w) L n = holds_refs w0 w L n"
  by (simp add: holds_refs_def room_def)

lemma holds_refs_ticks [simp]: "holds_refs w0 (w\<lparr>ticks := t\<rparr>) L n = holds_refs w0 w L n"
  by (simp add: holds_refs_def room_def)









section \<open>Its stages\<close>













lemma given_back_log [simp]: "given_back w c (record_call k w') = given_back w c w'"
  by (simp add: given_back_def)


section \<open>The result\<close>








end
