(* ===== verification/Spec2Isabelle.thy ===== *)
theory Spec2Isabelle
  imports Xrp_Prelude Ring_Buffer Namespace Request_Queue Object_Store Device_Buffer Buffer_Group
    Direct_Command Command_Queue Command_Run Vdsp_Interface Vdsp_Dvfs Vdsp_Service Service_Table
    Service_Safety Service_Death Service_Run Service_Correct Service_Protocol
    Vdsp_Client Client_Run End_To_End Command_Served
    Raster Bmp_File Image_Formats Image_Flip
    Dsp_Copy Dsp_Host Dsp_Commands Xrp_Interface Api_Tests Api_Async
begin

text \<open>
  Verification library of the vendor\_sprd\_modules\_vdsp repository: the XRP host library, the
  Spreadtrum vdsp layers on top of it, the service that shares the DSP between processes, and the client
  library of those processes, in the configuration the sources select (\<open>USE_SPRD_MODE\<close> in \<open>xrp_api.h\<close>,
  \<open>DVFS_OPEN\<close> undefined in \<open>IVdspService.h\<close>). Paths are relative to \<open>src/Cadence/xrp\<close>.

  \<^bold>\<open>The program.\<close> A process links \<open>vdsp-interface/vdsp_interface.cpp\<close>. Its entry points
  \<open>sprd_cavdsp_*\<close> hand out handles and turn calls into binder transactions (\<open>BpVdspService\<close> and
  \<open>BnVdspService::onTransact\<close> in \<open>vdsp-service/IVdspService.cpp\<close>). The service counts opens, libraries
  and power hints per client, cleans up after clients that die, and uses
  \<open>vdsp-interface/vdsp_interface_internal.c\<close> for the DSP commands. These build buffers and groups of
  \<open>xrp-host/src/xrp_host_common.c\<close> and reach the driver through \<open>xrp-host/src/xrp_linux.c\<close>, directly or
  through a queue with a worker thread (\<open>xrp_threaded_queue.c\<close>). \<open>xrp-common\<close> has the DSP's ring buffer
  of log output and its registry of command namespaces; \<open>vdsp-service/dvfs\<close> chooses the frequency.

  \<^bold>\<open>Theories.\<close>
  \<^item> \<open>Xrp_Prelude\<close>: bytes, C strings and copies (\<open>c_strlen\<close>, \<open>memcpy_at\<close>, undefined out of bounds), word
    arithmetic, updates of lists and association lists.
  \<^item> \<open>Ring_Buffer\<close>: \<open>xrp_rb_file.c\<close> at its 32-bit indices, alone and with a concurrent reader.
  \<^item> \<open>Namespace\<close>: \<open>xrp_ns.c\<close>, with the locale \<open>ns_registry\<close> of its users and the test \<open>test_ns\<close>.
  \<^item> \<open>Request_Queue\<close>: the linked list and the worker of \<open>xrp_threaded_queue.c\<close> as a step relation; the
    list is an instance of the locale \<open>fifo_queue\<close>.
  \<^item> \<open>Object_Store\<close>: the heap of devices, buffers, groups, queues and events with their reference counts
    (\<open>xrp_host_common.h\<close>), and the locale \<open>refcounted\<close>. The record \<open>environment\<close> holds what is not in the
    repository: the allocator, the driver, ion, binder. Every call to it is recorded in \<open>log\<close>. A heap is in
    order, \<open>world_ok w c\<close>, when every count is the number of references from the heap and from the
    callers \<open>c\<close>.
  \<^item> \<open>Device_Buffer\<close>, \<open>Buffer_Group\<close>, \<open>Command_Queue\<close>, \<open>Command_Run\<close>: the XRP API by kind of object; the
    last is about queues, submitted commands and the synchronous call.
  \<^item> \<open>Direct_Command\<close>, \<open>Vdsp_Interface\<close>: \<open>vdsp_interface_internal.c\<close> without and with a queue, and the
    library commands.
  \<^item> \<open>Vdsp_Dvfs\<close>: \<open>vdsp_dvfs.cpp\<close>, with the monitor as a timed run.
  \<^item> \<open>Vdsp_Service\<close> holds the service's operations, each split at the points where it gives up \<open>mLock\<close>;
    \<open>Service_Table\<close> its client table; \<open>Service_Safety\<close> and \<open>Service_Death\<close> what each operation keeps;
    \<open>Service_Run\<close> the step relation of all its threads under its three locks and its invariant;
    \<open>Service_Correct\<close> the properties.
  \<^item> \<open>Service_Protocol\<close>: the proxies and \<open>onTransact\<close>; writers and readers satisfy the locale
    \<open>parcel_codec\<close>.
  \<^item> \<open>Vdsp_Client\<close>, \<open>Client_Run\<close>: the client library, its threads and the restart of the service.
  \<^item> \<open>End_To_End\<close>: a process, the binder and the service with its other clients in one run;
    \<open>Command_Served\<close>: one command through all layers, from the client's call to the ioctl and back.
  \<^item> \<open>Raster\<close>, \<open>Bmp_File\<close>, \<open>Image_Formats\<close>, \<open>Image_Flip\<close>: the image files of the system tests
    (\<open>systest-cases\<close>): loops over rows and columns, bitmap files, NV21 and planar images, flipping.
  \<^item> \<open>Dsp_Copy\<close>: the command handlers of \<open>xrp-example/src\<close> over the locale \<open>buffer_group_api\<close>, the part of
    the API they use; \<open>Dsp_Host\<close>: the host library is an instance of it, with a memory of bytes;
    \<open>Dsp_Commands\<close>: the registration of the handlers and the handler with a waiting thread.
  \<^item> \<open>Xrp_Interface\<close>: \<open>vdsp-interface/xrp_interface.c\<close>, the API under its exported names; \<open>Api_Tests\<close> and
    \<open>Api_Async\<close>: the tests \<open>f4\<close> to \<open>f7\<close> and \<open>f2\<close> of \<open>xrp-example/src/host_main.c\<close> as programs over it.

  \<^bold>\<open>Conventions.\<close> A C integer with observable wrap-around is a word (\<open>u8\<close>, \<open>u32\<close>, \<open>u64\<close>); a signed
  counter or descriptor is an int, and so are \<open>mopencount\<close>, \<open>loadcount\<close>, \<open>gOpenedCount\<close> and \<open>gWorking\<close>,
  which count threads or handles, and nanosecond times. An operation that the C code leaves undefined (null
  or dangling pointer, access out of bounds, shift too far) is \<open>None\<close>; that a result is \<open>Some\<close> is thus
  part of each statement. Failures that the code reports are values. An address is given out once, so that
  a dangling pointer is never valid again; \<open>room\<close> bounds how many references a run may still make, so
  that the 64-bit counts do not wrap.

  \<^bold>\<open>What is shown.\<close> For the object store: each operation keeps the counts exact, allocates and frees what
  it says, and makes the calls it should. For commands: one ioctl with the right arguments, everything given
  back, in every failure. For the worker and the service: invariants of all interleavings. For the service:
  the device is never released in use, and what loading, closing and the death of a client do. For the
  client: what its counts mean, that the service is closed only when nothing is in use, and end to end that
  an open handle is always served and that a command through it makes the one ioctl it should. For the
  image files: round trips, and the colour of every pixel that is saved. For the DSP's handlers: what they
  copy, answer and give back on every group. Where the code does not do what it
  means to, a theorem shows what it does instead.

  \<^bold>\<open>Bounds and fuel.\<close> \<open>xrp_wait\<close> and \<open>xrp_run_command_sync\<close> run the worker at most once per pending
  request, and \<open>run_command_sync_returns\<close> shows that this is enough. \<open>xrp_queue_destroy\<close> can be reached
  from the worker's own callback; the recursion is at most one level deep, and the two levels are written
  out. The loop of \<open>copy_loop\<close> is a partial function; that it ends is part of \<open>v1_handler_correct\<close>. In
  \<open>service_run w0 n r\<close> the number \<open>n\<close> is what is left of the room for references; the theorems
  hold for every \<open>n\<close>. All other recursions are structural or have a measure.

  \<^bold>\<open>Not modelled.\<close> Mutexes, condition variables, threads and atomics are used with their documented
  meaning; the wrappers around them have no model of their own. Not modelled are logging and the dump
  functions, the ion functions besides allocation
  and release (forward to the class \<open>MemIon\<close>, which is not in the repository), the server's \<open>main\<close>, the
  DSP's \<open>main\<close> and exception handlers, the test clients, the tests of
  \<open>host_main.c\<close> whose results the firmware computes, and image conversions in floating point. Of Android, a parcel is the sequence of values written; how the kernel passes descriptors and
  binders is a parameter.
\<close>

end
